(* ===== verification/Prelude.thy ===== *)
theory Prelude
  imports Main "HOL-Library.Word" "HOL-Library.Multiset"
begin

text \<open>
  Shared material of the development: the machine types of the Rust sources, results as sums,
  the \<^verbatim>\<open>std::cmp::Ordering\<close> type, checked and saturating arithmetic, association lists that
  stand for hash maps whose iteration order is visible, and the list lemmas the components use.

  Unsigned integers are words of their Rust width, so \<open>+\<close> and \<open>*\<close> wrap as they do in the release
  profiles of the workspace (no profile of the root \<^verbatim>\<open>Cargo.toml\<close> turns overflow checks on) and
  as \<^verbatim>\<open>ruint\<close>'s \<^verbatim>\<open>U256\<close> operators always do.  Lengths and indices of vectors are \<open>nat\<close>.
\<close>

section \<open>Machine types\<close>

type_synonym u8 = "8 word"
type_synonym u64 = "64 word"
type_synonym u128 = "128 word"
type_synonym U256 = "256 word"
type_synonym I256 = int
type_synonym B256 = "256 word"
type_synonym address = "160 word"
type_synonym Uuid = "128 word"

section \<open>Results\<close>

type_synonym ('a, 'e) result = "'e + 'a"

abbreviation Ok :: "'a \<Rightarrow> ('a, 'e) result" where
  "Ok \<equiv> Inr"

abbreviation Err :: "'e \<Rightarrow> ('a, 'e) result" where
  "Err \<equiv> Inl"

fun is_ok :: "('a, 'e) result \<Rightarrow> bool" where
  "is_ok (Inr _) = True"
| "is_ok (Inl _) = False"

named_theorems store_simps \<open>characteristic equations of the keyed stores\<close>
named_theorems step_invs \<open>one-step preservation of component invariants\<close>

section \<open>Ordering\<close>

datatype ordering = Less | Equal | Greater

fun then_with :: "ordering \<Rightarrow> ordering \<Rightarrow> ordering" where
  "then_with Equal b = b"
| "then_with a _ = a"

fun reverse_ordering :: "ordering \<Rightarrow> ordering" where
  "reverse_ordering Less = Greater"
| "reverse_ordering Equal = Equal"
| "reverse_ordering Greater = Less"

definition cmp :: "'a::linorder \<Rightarrow> 'a \<Rightarrow> ordering" where
  "cmp a b = (if a < b then Less else if a = b then Equal else Greater)"

lemma cmp_simps [simp]:
  "cmp a b = Less \<longleftrightarrow> a < b"
  "cmp a b = Equal \<longleftrightarrow> a = b"
  "cmp a b = Greater \<longleftrightarrow> b < a"
  by (auto simp: cmp_def)

lemma reverse_ordering_simps [simp]:
  "reverse_ordering o1 = Less \<longleftrightarrow> o1 = Greater"
  "reverse_ordering o1 = Equal \<longleftrightarrow> o1 = Equal"
  "reverse_ordering o1 = Greater \<longleftrightarrow> o1 = Less"
  by (cases o1; simp)+

lemma then_with_simps [simp]:
  "then_with a b = Less \<longleftrightarrow> a = Less \<or> (a = Equal \<and> b = Less)"
  "then_with a b = Equal \<longleftrightarrow> a = Equal \<and> b = Equal"
  "then_with a b = Greater \<longleftrightarrow> a = Greater \<or> (a = Equal \<and> b = Greater)"
  by (cases a; simp)+

text \<open>
  A comparison function in the sense of \<^verbatim>\<open>Ord\<close>: antisymmetric, transitive, total, and \<open>Equal\<close>
  only on equal keys.
\<close>

locale comparison =
  fixes c :: "'a \<Rightarrow> 'a \<Rightarrow> ordering"
  assumes c_sym: "c y x = reverse_ordering (c x y)"
    and c_trans: "c x y = Less \<Longrightarrow> c y z = Less \<Longrightarrow> c x z = Less"
    and c_eq_left: "c x y = Equal \<Longrightarrow> c x z = c y z"
begin

lemma c_refl [simp]: "c x x = Equal"
proof -
  have "c x x = reverse_ordering (c x x)" by (rule c_sym)
  then show ?thesis by (cases "c x x") auto
qed

lemma c_greater_iff: "c x y = Greater \<longleftrightarrow> c y x = Less"
  using c_sym [of y x] by simp

lemma c_equal_sym: "c x y = Equal \<longleftrightarrow> c y x = Equal"
  using c_sym [of y x] by simp

lemma c_eq_right: "c x y = Equal \<Longrightarrow> c z x = c z y"
  using c_eq_left [of x y z] c_sym [of z x] c_sym [of z y] by simp

lemma c_le_trans: "c x y \<noteq> Greater \<Longrightarrow> c y z \<noteq> Greater \<Longrightarrow> c x z \<noteq> Greater"
proof -
  assume xy: "c x y \<noteq> Greater" and yz: "c y z \<noteq> Greater"
  show ?thesis
  proof (cases "c x y")
    case Less
    show ?thesis
    proof (cases "c y z")
      case Less
      with \<open>c x y = Less\<close> c_trans show ?thesis by fastforce
    next
      case Equal
      with \<open>c x y = Less\<close> c_eq_right [of y z x] show ?thesis by simp
    qed (use yz in simp)
  next
    case Equal
    with yz c_eq_left [of x y z] show ?thesis by simp
  qed (use xy in simp)
qed

end

interpretation cmp_key: comparison "\<lambda>x y. cmp (f x) (f y)" for f :: "'a \<Rightarrow> 'b::linorder"
  by unfold_locales (auto simp: cmp_def split: if_splits)

text \<open>Reversal and lexicographic combination by \<^verbatim>\<open>then_with\<close> keep the laws of \<^verbatim>\<open>Ord\<close>.\<close>

lemma comparison_reverse:
  assumes "comparison c"
  shows "comparison (\<lambda>x y. reverse_ordering (c x y))"
proof -
  note laws = comparison.c_sym [OF assms] comparison.c_greater_iff [OF assms]
  show ?thesis
  proof
    show "reverse_ordering (c y x) = reverse_ordering (reverse_ordering (c x y))" for x y
      by (simp only: laws(1) [of y x])
    show "reverse_ordering (c x z) = Less"
      if "reverse_ordering (c x y) = Less" "reverse_ordering (c y z) = Less" for x y z
      using that laws(2) comparison.c_trans [OF assms] by auto
    show "reverse_ordering (c x z) = reverse_ordering (c y z)"
      if "reverse_ordering (c x y) = Equal" for x y z
      using that comparison.c_eq_left [OF assms, of x y z] by simp
  qed
qed

lemma comparison_then_with:
  assumes c: "comparison c" and d: "comparison d"
  shows "comparison (\<lambda>x y. then_with (c x y) (d x y))"
proof
  show "then_with (c y x) (d y x) = reverse_ordering (then_with (c x y) (d x y))" for x y
    by (cases "c x y") (simp_all add: comparison.c_sym [OF c, of y x] comparison.c_sym [OF d, of y x])
  show "then_with (c x z) (d x z) = Less"
    if "then_with (c x y) (d x y) = Less" "then_with (c y z) (d y z) = Less" for x y z
  proof (cases "c x y = Equal")
    case True
    then show ?thesis
      using that comparison.c_eq_left [OF c, of x y z] comparison.c_trans [OF d] by auto
  next
    case False
    then show ?thesis
      using that comparison.c_trans [OF c] comparison.c_eq_right [OF c, of y z x] by auto
  qed
  show "then_with (c x z) (d x z) = then_with (c y z) (d y z)"
    if "then_with (c x y) (d x y) = Equal" for x y z
    using that comparison.c_eq_left [OF c, of x y z] comparison.c_eq_left [OF d, of x y z] by simp
qed

section \<open>Checked, saturating and percentage arithmetic\<close>

definition checked_sub :: "'a::len word \<Rightarrow> 'a word \<Rightarrow> 'a word option" where
  "checked_sub a b = (if b \<le> a then Some (a - b) else None)"

definition saturating_sub :: "'a::len word \<Rightarrow> 'a word \<Rightarrow> 'a word" where
  "saturating_sub a b = (if b \<le> a then a - b else 0)"

lemma unat_sub_le: "b \<le> a \<Longrightarrow> unat (a - b) = unat a - unat b" for a b :: "'a::len word"
  by (simp add: unat_sub)

lemma checked_sub_Some: "checked_sub a b = Some c \<Longrightarrow> unat a = unat c + unat b"
  by (auto simp: checked_sub_def unat_sub_le word_le_nat_alt split: if_splits)

lemma unat_saturating_sub: "unat (saturating_sub a b) = unat a - unat b"
  by (auto simp: saturating_sub_def unat_sub_le word_le_nat_alt)

lemma unat_add_noof: "unat a + unat b < 2 ^ LENGTH('a) \<Longrightarrow> unat (a + b) = unat a + unat b"
  for a b :: "'a::len word"
  by (simp add: unat_word_ariths)

lemma unat_add_le: "unat (a + b) \<le> unat a + unat b" for a b :: "'a::len word"
  by (simp add: unat_word_ariths)

section \<open>Association lists with insertion order\<close>

fun alist_update :: "'k \<Rightarrow> 'v \<Rightarrow> ('k \<times> 'v) list \<Rightarrow> ('k \<times> 'v) list" where
  "alist_update k v [] = [(k, v)]"
| "alist_update k v ((k', v') # ps) = (if k' = k then (k, v) # ps else (k', v') # alist_update k v ps)"

lemma map_of_alist_update [simp]: "map_of (alist_update k v ps) = (map_of ps)(k \<mapsto> v)"
  by (induction ps) auto

lemma keys_alist_update: "fst ` set (alist_update k v ps) = insert k (fst ` set ps)"
  by (induction k v ps rule: alist_update.induct) auto

lemma distinct_alist_update [simp]:
  "distinct (map fst ps) \<Longrightarrow> distinct (map fst (alist_update k v ps))"
proof (induction ps)
  case Nil
  then show ?case by simp
next
  case (Cons p ps)
  then show ?case
    using keys_alist_update [of k v ps] by (cases p) (auto simp flip: image_set)
qed

definition alist_modify :: "'k \<Rightarrow> ('v option \<Rightarrow> 'v) \<Rightarrow> ('k \<times> 'v) list \<Rightarrow> ('k \<times> 'v) list" where
  "alist_modify k f ps = alist_update k (f (map_of ps k)) ps"

lemma map_of_alist_modify [simp]: "map_of (alist_modify k f ps) = (map_of ps)(k \<mapsto> f (map_of ps k))"
  by (simp add: alist_modify_def)

lemma distinct_alist_modify [simp]:
  "distinct (map fst ps) \<Longrightarrow> distinct (map fst (alist_modify k f ps))"
  by (simp add: alist_modify_def)

text \<open>\<^verbatim>\<open>HashMap::retain\<close> with a closure that may change the value; \<open>None\<close> drops the entry.\<close>

fun alist_retain :: "('v \<Rightarrow> 'v option) \<Rightarrow> ('k \<times> 'v) list \<Rightarrow> ('k \<times> 'v) list" where
  "alist_retain f [] = []"
| "alist_retain f ((k, v) # ps) =
     (case f v of None \<Rightarrow> alist_retain f ps | Some v' \<Rightarrow> (k, v') # alist_retain f ps)"

lemma keys_alist_retain: "fst ` set (alist_retain f ps) \<subseteq> fst ` set ps"
  by (induction f ps rule: alist_retain.induct) (auto split: option.splits)

lemma distinct_alist_retain [simp]:
  "distinct (map fst ps) \<Longrightarrow> distinct (map fst (alist_retain f ps))"
proof (induction f ps rule: alist_retain.induct)
  case (2 f k v ps)
  then show ?case using keys_alist_retain [of f ps] by (auto split: option.splits)
qed simp

lemma map_of_alist_retain:
  "distinct (map fst ps) \<Longrightarrow> map_of (alist_retain f ps) k = Option.bind (map_of ps k) f"
proof (induction f ps rule: alist_retain.induct)
  case (2 f k' v ps)
  have "map_of (alist_retain f ps) k' = None"
    using 2 keys_alist_retain [of f ps] by (auto simp: map_of_eq_None_iff)
  with 2 show ?case by (auto split: option.splits)
qed simp

lemma distinct_map_filter [simp]: "distinct (map f xs) \<Longrightarrow> distinct (map f (filter P xs))"
  by (induction xs) auto

lemma map_of_filter_key: "map_of (filter (\<lambda>kv. P (fst kv)) ps) k = (if P k then map_of ps k else None)"
  by (induction ps) auto

section \<open>Components as state machines\<close>

text \<open>
  A component with state is a step function; an invariant that every step keeps holds after every
  sequence of steps.  The components interpret this locale on their step functions.
\<close>

locale invariant_system =
  fixes step :: "'s \<Rightarrow> 'e \<Rightarrow> 's"
    and inv :: "'s \<Rightarrow> bool"
  assumes inv_step: "inv s \<Longrightarrow> inv (step s e)"
begin

lemma inv_run: "inv s \<Longrightarrow> inv (foldl step s es)"
  by (induction es arbitrary: s) (auto simp: inv_step)

end

text \<open>Some components can only be stepped under a condition on the event (what the environment promises).\<close>

locale guarded_invariant_system =
  fixes step :: "'s \<Rightarrow> 'e \<Rightarrow> 's"
    and guard :: "'e \<Rightarrow> bool"
    and inv :: "'s \<Rightarrow> bool"
  assumes inv_step_guarded: "inv s \<Longrightarrow> guard e \<Longrightarrow> inv (step s e)"
begin

lemma inv_run_guarded: "inv s \<Longrightarrow> list_all guard es \<Longrightarrow> inv (foldl step s es)"
  by (induction es arbitrary: s) (auto simp: inv_step_guarded)

end

sublocale invariant_system \<subseteq> guarded_invariant_system step "\<lambda>_. True" inv
  by unfold_locales (rule inv_step)

section \<open>Iteration order of hash tables\<close>

text \<open>
  The iteration order of a \<^verbatim>\<open>HashMap\<close> or \<^verbatim>\<open>HashSet\<close> is unspecified.  Where the sources iterate one,
  the model takes a function that arranges the elements; all that is known of it is that it is an
  arrangement.
\<close>

definition arrangement :: "('a list \<Rightarrow> 'a list) \<Rightarrow> bool" where
  "arrangement ord \<longleftrightarrow> (\<forall>xs. mset (ord xs) = mset xs)"

lemma arrangement_set: "arrangement ord \<Longrightarrow> set (ord xs) = set xs"
  by (metis arrangement_def mset_eq_setD)

lemma arrangement_distinct: "arrangement ord \<Longrightarrow> distinct (ord xs) = distinct xs"
  by (metis arrangement_def mset_eq_imp_distinct_iff)

lemma arrangement_length: "arrangement ord \<Longrightarrow> length (ord xs) = length xs"
  by (metis arrangement_def mset_eq_length)

lemma arrangement_id [simp]: "arrangement (\<lambda>xs. xs)" and arrangement_rev [simp]: "arrangement rev"
  by (simp_all add: arrangement_def)

section \<open>Lists\<close>

text \<open>\<^verbatim>\<open>Vec::dedup\<close> removes consecutive repetitions.\<close>

fun dedup :: "'a list \<Rightarrow> 'a list" where
  "dedup [] = []"
| "dedup [x] = [x]"
| "dedup (x # y # zs) = (if x = y then dedup (y # zs) else x # dedup (y # zs))"

lemma set_dedup [simp]: "set (dedup xs) = set xs"
  by (induction xs rule: dedup.induct) auto

lemma dedup_Cons_hd: "\<exists>zs. dedup (y # ys) = y # zs"
  by (induction ys arbitrary: y) auto

lemma sorted_dedup: "sorted xs \<Longrightarrow> sorted (dedup xs) \<and> distinct (dedup xs)"
proof (induction xs rule: dedup.induct)
  case (3 x y zs)
  show ?case
  proof (cases "x = y")
    case True
    with 3 show ?thesis by simp
  next
    case False
    with 3 have IH: "sorted (dedup (y # zs))" "distinct (dedup (y # zs))" by auto
    from 3 False have "\<forall>w \<in> set (y # zs). x < w" by fastforce
    with IH False show ?thesis by (fastforce simp: less_imp_le)
  qed
qed auto

lemma filter_eq_self_iff: "filter P xs = xs \<longleftrightarrow> (\<forall>x \<in> set xs. P x)"
  by (metis filter_True filter_id_conv)

lemma map_of_Some_in_set: "map_of ps k = Some v \<Longrightarrow> (k, v) \<in> set ps"
  by (rule map_of_SomeD)

lemma map_of_remove: "map_of (filter (\<lambda>kv. fst kv \<noteq> k) ps) = (map_of ps)(k := None)"
  by (induction ps) auto

section \<open>Tables of lists\<close>

text \<open>The values that a table of lists has under a key.\<close>

definition ids_at :: "('k \<Rightarrow> 'v list option) \<Rightarrow> 'k \<Rightarrow> 'v set" where
  "ids_at m k = (case m k of None \<Rightarrow> {} | Some ids \<Rightarrow> set ids)"

lemma ids_at_upd [simp]:
  "ids_at (m(k := v)) k' = (if k' = k then case v of None \<Rightarrow> {} | Some ids \<Rightarrow> set ids else ids_at m k')"
  by (simp add: ids_at_def)

end
