(* ===== verification/Block_Space.thy ===== *)
theory Block_Space
  imports Prelude
begin

text \<open>
  The space vector of a block (\<^verbatim>\<open>BlockSpace\<close> of \<^verbatim>\<open>rbuilder-primitives/src/lib.rs\<close>): gas, RLP length and
  blob gas, with the wrapping additions and the panicking subtraction of the sources.  A panic
  (\<^verbatim>\<open>unwrap\<close> on \<^verbatim>\<open>None\<close>) is the value \<open>None\<close>.
\<close>

type_synonym usize = "64 word"

record BlockSpace =
  gas :: u64
  rlp_length :: usize
  blob_gas :: u64

definition BlockSpace_new :: "u64 \<Rightarrow> usize \<Rightarrow> u64 \<Rightarrow> BlockSpace" where
  "BlockSpace_new g l b = \<lparr>gas = g, rlp_length = l, blob_gas = b\<rparr>"

definition BlockSpace_ZERO :: BlockSpace where
  "BlockSpace_ZERO = \<lparr>gas = 0, rlp_length = 0, blob_gas = 0\<rparr>"

definition BlockSpace_add_assign :: "BlockSpace \<Rightarrow> BlockSpace \<Rightarrow> BlockSpace" where
  "BlockSpace_add_assign s other =
     s\<lparr>gas := gas s + gas other,
       rlp_length := rlp_length s + rlp_length other,
       blob_gas := blob_gas s + blob_gas other\<rparr>"

definition BlockSpace_add :: "BlockSpace \<Rightarrow> BlockSpace \<Rightarrow> BlockSpace" where
  "BlockSpace_add s other =
     \<lparr>gas = gas s + gas other,
      rlp_length = rlp_length s + rlp_length other,
      blob_gas = blob_gas s + blob_gas other\<rparr>"

definition BlockSpace_sub_assign :: "BlockSpace \<Rightarrow> BlockSpace \<Rightarrow> BlockSpace option" where
  "BlockSpace_sub_assign s other =
     (case checked_sub (gas s) (gas other) of None \<Rightarrow> None | Some g \<Rightarrow>
      case checked_sub (rlp_length s) (rlp_length other) of None \<Rightarrow> None | Some l \<Rightarrow>
      case checked_sub (blob_gas s) (blob_gas other) of None \<Rightarrow> None | Some b \<Rightarrow>
      Some (s\<lparr>gas := g, rlp_length := l, blob_gas := b\<rparr>))"

section \<open>The componentwise order\<close>

definition space_le :: "BlockSpace \<Rightarrow> BlockSpace \<Rightarrow> bool" where
  "space_le a b \<longleftrightarrow> gas a \<le> gas b \<and> rlp_length a \<le> rlp_length b \<and> blob_gas a \<le> blob_gas b"

lemma space_le_refl [simp]: "space_le a a"
  by (simp add: space_le_def)

lemma space_le_trans: "space_le a b \<Longrightarrow> space_le b c \<Longrightarrow> space_le a c"
  by (auto simp: space_le_def)

lemma BlockSpace_add_simps [simp]:
  "gas (BlockSpace_add a b) = gas a + gas b"
  "rlp_length (BlockSpace_add a b) = rlp_length a + rlp_length b"
  "blob_gas (BlockSpace_add a b) = blob_gas a + blob_gas b"
  by (simp_all add: BlockSpace_add_def)

lemma BlockSpace_ZERO_simps [simp]:
  "gas BlockSpace_ZERO = 0" "rlp_length BlockSpace_ZERO = 0" "blob_gas BlockSpace_ZERO = 0"
  by (simp_all add: BlockSpace_ZERO_def)

lemma BlockSpace_new_simps [simp]:
  "gas (BlockSpace_new g l b) = g" "rlp_length (BlockSpace_new g l b) = l"
  "blob_gas (BlockSpace_new g l b) = b"
  by (simp_all add: BlockSpace_new_def)

lemma BlockSpace_add_assign_eq: "BlockSpace_add_assign = BlockSpace_add"
  by (intro ext) (simp add: BlockSpace_add_assign_def BlockSpace_add_def)

lemma BlockSpace_add_comm: "BlockSpace_add a b = BlockSpace_add b a"
  by (simp add: BlockSpace_add_def ac_simps)

lemma BlockSpace_add_assoc:
  "BlockSpace_add (BlockSpace_add a b) c = BlockSpace_add a (BlockSpace_add b c)"
  by (simp add: BlockSpace_add_def ac_simps)

lemma BlockSpace_add_ZERO [simp]: "BlockSpace_add a BlockSpace_ZERO = a"
  "BlockSpace_add BlockSpace_ZERO a = a"
  by (simp_all add: BlockSpace_add_def)

lemma BlockSpace_sub_assign_None_iff:
  "BlockSpace_sub_assign a b = None \<longleftrightarrow> \<not> space_le b a"
  by (auto simp: BlockSpace_sub_assign_def checked_sub_def space_le_def)

lemma BlockSpace_add_sub: "BlockSpace_sub_assign a b = Some c \<Longrightarrow> BlockSpace_add c b = a"
  by (auto simp: BlockSpace_sub_assign_def checked_sub_def BlockSpace_add_def split: if_splits)

text \<open>An addition that does not wrap in any of the three coordinates.\<close>

definition space_fits :: "BlockSpace \<Rightarrow> BlockSpace \<Rightarrow> bool" where
  "space_fits a b \<longleftrightarrow> unat (gas a) + unat (gas b) < 2 ^ 64 \<and>
     unat (rlp_length a) + unat (rlp_length b) < 2 ^ 64 \<and>
     unat (blob_gas a) + unat (blob_gas b) < 2 ^ 64"

lemma word_le_add_left: "unat a + unat b < 2 ^ LENGTH('a) \<Longrightarrow> b \<le> a + b" for a b :: "'a::len word"
  by (simp add: word_le_nat_alt unat_add_noof)

lemma space_le_add: "space_fits a b \<Longrightarrow> space_le b (BlockSpace_add a b)"
  by (simp add: space_fits_def space_le_def word_le_add_left)

lemma BlockSpace_sub_add:
  "space_fits a b \<Longrightarrow> BlockSpace_sub_assign (BlockSpace_add a b) b = Some a"
proof -
  assume "space_fits a b"
  then have "space_le b (BlockSpace_add a b)" by (rule space_le_add)
  then show ?thesis by (simp add: BlockSpace_sub_assign_def checked_sub_def space_le_def)
qed

end
