(* ===== verification/Transactions.thy ===== *)
theory Transactions
  imports Block_Space
begin

text \<open>
  Transactions with their blobs (\<^verbatim>\<open>TransactionSignedEcRecoveredWithBlobs\<close> and the raw decoders of
  \<^verbatim>\<open>rbuilder-primitives/src/lib.rs\<close>).  The transaction type itself belongs to a third-party crate; the
  record \<open>TransactionSigned\<close> holds the attributes the builder reads from it.  The wall clock, the
  transaction codecs and the signature recovery are arguments of the operations that use them.
\<close>

section \<open>Metadata, nonces, replacement data\<close>

text \<open>A timestamp (\<^verbatim>\<open>time::OffsetDateTime\<close>) is a number of nanoseconds.\<close>

type_synonym timestamp = int

record Metadata =
  received_at_timestamp :: timestamp
  is_system :: bool
  refund_identity :: "address option"

definition Metadata_new :: "timestamp \<Rightarrow> Metadata" where
  "Metadata_new t = \<lparr>received_at_timestamp = t, is_system = False, refund_identity = None\<rparr>"

definition Metadata_with_system :: "bool \<Rightarrow> Metadata \<Rightarrow> Metadata" where
  "Metadata_with_system b m = m\<lparr>is_system := b\<rparr>"

definition Metadata_with_refund_identity :: "address option \<Rightarrow> Metadata \<Rightarrow> Metadata" where
  "Metadata_with_refund_identity a m = m\<lparr>refund_identity := a\<rparr>"

record AccountNonce =
  an_nonce :: u64
  an_account :: address

definition AccountNonce_with_nonce :: "AccountNonce \<Rightarrow> u64 \<Rightarrow> AccountNonce" where
  "AccountNonce_with_nonce a n = \<lparr>an_nonce = n, an_account = an_account a\<rparr>"

record BundledTxInfo =
  bti_nonce :: AccountNonce
  bti_optional :: bool

record Nonce =
  n_nonce :: u64
  n_address :: address
  n_optional :: bool

record 'k ReplacementData =
  rd_key :: 'k
  rd_sequence_number :: u64

definition ReplacementData_next :: "'k ReplacementData \<Rightarrow> 'k ReplacementData" where
  "ReplacementData_next r =
     \<lparr>rd_key = rd_key r, rd_sequence_number = rd_sequence_number r + 1\<rparr>"

section \<open>Transactions and blob sidecars\<close>

record TransactionSigned =
  ts_hash :: B256
  ts_nonce :: u64
  ts_gas_limit :: u64
  ts_max_fee_per_gas :: u128
  ts_to :: "address option"
  ts_value :: U256
  ts_length :: usize
  ts_blob_versioned_hashes :: "B256 list option"

record Recovered =
  rec_inner :: TransactionSigned
  rec_signer :: address

type_synonym blob = "u8 list"

record BlobTransactionSidecar =
  sc_blobs :: "blob list"
  sc_commitments :: "u8 list list"
  sc_proofs :: "u8 list list"

datatype BlobTransactionSidecarVariant =
    Eip4844_sidecar BlobTransactionSidecar
  | Eip7594_sidecar BlobTransactionSidecar

record TransactionSignedEcRecoveredWithBlobs =
  tx_inner :: Recovered
  blobs_sidecar :: BlobTransactionSidecarVariant
  tx_metadata :: Metadata

datatype 'r Eip2718Error = RlpError 'r | UnexpectedType u8

datatype 'r TxWithBlobsCreateError =
    FailedToDecodeTransaction "'r Eip2718Error"
  | InvalidTransactionSignature
  | UnexpectedError
  | FailedToDecodeTransactionProbablyIs4484Canonical 'r
  | Eip4844MissingBlobSidecar
  | BlobsMissingEip4844
  | BlobStoreErr string

definition empty_sidecar :: BlobTransactionSidecar where
  "empty_sidecar = \<lparr>sc_blobs = [], sc_commitments = [], sc_proofs = []\<rparr>"

definition BYTES_PER_BLOB :: nat where
  "BYTES_PER_BLOB = 131072"

definition BYTES_PER_COMMITMENT :: nat where
  "BYTES_PER_COMMITMENT = 48"

definition BYTES_PER_PROOF :: nat where
  "BYTES_PER_PROOF = 48"

primrec fake_sidecar :: "nat \<Rightarrow> BlobTransactionSidecar" where
  "fake_sidecar 0 = empty_sidecar"
| "fake_sidecar (Suc n) = (let s = fake_sidecar n in
     s\<lparr>sc_blobs := sc_blobs s @ [replicate BYTES_PER_BLOB 0],
       sc_commitments := sc_commitments s @ [replicate BYTES_PER_COMMITMENT 0],
       sc_proofs := sc_proofs s @ [replicate BYTES_PER_PROOF 0]\<rparr>)"

lemma fake_sidecar_lengths [simp]:
  "length (sc_blobs (fake_sidecar n)) = n"
  "length (sc_commitments (fake_sidecar n)) = n"
  "length (sc_proofs (fake_sidecar n)) = n"
  by (induction n) (simp_all add: empty_sidecar_def Let_def)

definition tx_hash :: "TransactionSignedEcRecoveredWithBlobs \<Rightarrow> B256" where
  "tx_hash t = ts_hash (rec_inner (tx_inner t))"

definition tx_signer :: "TransactionSignedEcRecoveredWithBlobs \<Rightarrow> address" where
  "tx_signer t = rec_signer (tx_inner t)"

definition tx_to :: "TransactionSignedEcRecoveredWithBlobs \<Rightarrow> address option" where
  "tx_to t = ts_to (rec_inner (tx_inner t))"

definition tx_nonce :: "TransactionSignedEcRecoveredWithBlobs \<Rightarrow> u64" where
  "tx_nonce t = ts_nonce (rec_inner (tx_inner t))"

definition tx_value :: "TransactionSignedEcRecoveredWithBlobs \<Rightarrow> U256" where
  "tx_value t = ts_value (rec_inner (tx_inner t))"

definition tx_gas_limit :: "TransactionSignedEcRecoveredWithBlobs \<Rightarrow> u64" where
  "tx_gas_limit t = ts_gas_limit (rec_inner (tx_inner t))"

definition max_fee_per_gas :: "TransactionSignedEcRecoveredWithBlobs \<Rightarrow> u128" where
  "max_fee_per_gas t = ts_max_fee_per_gas (rec_inner (tx_inner t))"

definition length_eip7934 :: "TransactionSignedEcRecoveredWithBlobs \<Rightarrow> usize" where
  "length_eip7934 t = ts_length (rec_inner (tx_inner t))"

definition blobs_len :: "TransactionSignedEcRecoveredWithBlobs \<Rightarrow> nat" where
  "blobs_len t = (case blobs_sidecar t of
     Eip4844_sidecar s \<Rightarrow> length (sc_blobs s)
   | Eip7594_sidecar s \<Rightarrow> length (sc_blobs s))"

definition DATA_GAS_PER_BLOB :: u64 where
  "DATA_GAS_PER_BLOB = 131072"

definition blobs_gas_used :: "TransactionSignedEcRecoveredWithBlobs \<Rightarrow> u64" where
  "blobs_gas_used t = of_nat (blobs_len t) * DATA_GAS_PER_BLOB"

definition tx_space_needed :: "TransactionSignedEcRecoveredWithBlobs \<Rightarrow> BlockSpace" where
  "tx_space_needed t = BlockSpace_new (tx_gas_limit t) (length_eip7934 t) (blobs_gas_used t)"

section \<open>Construction\<close>

definition default_blob_sidecar :: BlobTransactionSidecarVariant where
  "default_blob_sidecar = Eip4844_sidecar empty_sidecar"

text \<open>\<^verbatim>\<open>TransactionSignedEcRecoveredWithBlobs::new\<close>; \<open>now\<close> is what the clock shows when the metadata default is taken.\<close>

definition TxWithBlobs_new ::
  "timestamp \<Rightarrow> Recovered \<Rightarrow> BlobTransactionSidecarVariant option \<Rightarrow> Metadata option
     \<Rightarrow> (TransactionSignedEcRecoveredWithBlobs, 'r TxWithBlobsCreateError) result" where
  "TxWithBlobs_new now tx blob_sidecar metadata =
     (if ts_blob_versioned_hashes (rec_inner tx) \<noteq> None \<and> blob_sidecar = None
      then Err Eip4844MissingBlobSidecar
      else if blob_sidecar \<noteq> None \<and> ts_blob_versioned_hashes (rec_inner tx) = None
      then Err BlobsMissingEip4844
      else Ok \<lparr>tx_inner = tx,
               blobs_sidecar = (case blob_sidecar of Some s \<Rightarrow> s | None \<Rightarrow> default_blob_sidecar),
               tx_metadata = (case metadata of Some m \<Rightarrow> m | None \<Rightarrow> Metadata_new now)\<rparr>)"

definition TxWithBlobs_new_no_blobs ::
  "timestamp \<Rightarrow> Recovered \<Rightarrow> (TransactionSignedEcRecoveredWithBlobs, 'r TxWithBlobsCreateError) result" where
  "TxWithBlobs_new_no_blobs now tx = TxWithBlobs_new now tx None None"

text \<open>The pool's \<^verbatim>\<open>get_all_blobs\<close> is an argument; \<^verbatim>\<open>Vec::pop\<close> takes the last element.\<close>

definition try_from_tx_without_blobs_and_pool ::
  "(B256 list \<Rightarrow> ((B256 \<times> BlobTransactionSidecarVariant) list, string) result) \<Rightarrow> timestamp \<Rightarrow> Recovered
     \<Rightarrow> (TransactionSignedEcRecoveredWithBlobs, 'r TxWithBlobsCreateError) result" where
  "try_from_tx_without_blobs_and_pool get_all_blobs now tx =
     (case get_all_blobs [ts_hash (rec_inner tx)] of
        Err e \<Rightarrow> Err (BlobStoreErr e)
      | Ok blobs \<Rightarrow> TxWithBlobs_new now tx (if blobs = [] then None else Some (snd (last blobs))) None)"

datatype PooledTransactionVariant =
    Pooled_no_blob TransactionSigned
  | Pooled_eip4844 TransactionSigned BlobTransactionSidecarVariant

fun pooled_tx_hash :: "PooledTransactionVariant \<Rightarrow> B256" where
  "pooled_tx_hash (Pooled_no_blob t) = ts_hash t"
| "pooled_tx_hash (Pooled_eip4844 t _) = ts_hash t"

fun try_from_pooled ::
  "timestamp \<Rightarrow> PooledTransactionVariant \<Rightarrow> address
     \<Rightarrow> (TransactionSignedEcRecoveredWithBlobs, 'r TxWithBlobsCreateError) result" where
  "try_from_pooled now (Pooled_no_blob t) signer =
     TxWithBlobs_new_no_blobs now \<lparr>rec_inner = t, rec_signer = signer\<rparr>"
| "try_from_pooled now (Pooled_eip4844 t sidecar) signer =
     Ok \<lparr>tx_inner = \<lparr>rec_inner = t, rec_signer = signer\<rparr>, blobs_sidecar = sidecar,
         tx_metadata = Metadata_new now\<rparr>"

section \<open>Raw decoding\<close>

datatype TxEncoding = WithBlobData | NoBlobData

record RawTransactionDecodable =
  raw :: "u8 list"
  encoding :: TxEncoding
  signer_lookup :: "(B256 \<Rightarrow> address option) option"

text \<open>
  The two decoders, the two signature recoveries and the RLP header decoder (list flag and
  remaining bytes) are library code.
\<close>

record 'r tx_codec =
  decode_pooled :: "u8 list \<Rightarrow> (PooledTransactionVariant, 'r Eip2718Error) result"
  decode_signed :: "u8 list \<Rightarrow> (TransactionSigned, 'r Eip2718Error) result"
  recover_pooled :: "PooledTransactionVariant \<Rightarrow> address option"
  recover_signed :: "TransactionSigned \<Rightarrow> address option"
  rlp_header_decode :: "u8 list \<Rightarrow> (bool \<times> u8 list) option"

definition lookup_or_recover ::
  "(B256 \<Rightarrow> address option) option \<Rightarrow> B256 \<Rightarrow> address option \<Rightarrow> address option" where
  "lookup_or_recover lookup h recovered =
     (case Option.bind lookup (\<lambda>sl. sl h) of Some a \<Rightarrow> Some a | None \<Rightarrow> recovered)"

definition decode_enveloped_with_real_blobs ::
  "'r tx_codec \<Rightarrow> timestamp \<Rightarrow> RawTransactionDecodable
     \<Rightarrow> (TransactionSignedEcRecoveredWithBlobs, 'r TxWithBlobsCreateError) result" where
  "decode_enveloped_with_real_blobs lib now r =
     (case decode_pooled lib (raw r) of
        Err e \<Rightarrow> Err (FailedToDecodeTransaction e)
      | Ok p \<Rightarrow>
        (case lookup_or_recover (signer_lookup r) (pooled_tx_hash p) (recover_pooled lib p) of
           None \<Rightarrow> Err InvalidTransactionSignature
         | Some signer \<Rightarrow> try_from_pooled now p signer))"

definition decode_enveloped_with_fake_blobs ::
  "'r tx_codec \<Rightarrow> timestamp \<Rightarrow> RawTransactionDecodable
     \<Rightarrow> (TransactionSignedEcRecoveredWithBlobs, 'r TxWithBlobsCreateError) result" where
  "decode_enveloped_with_fake_blobs lib now r =
     (case decode_signed lib (raw r) of
        Err e \<Rightarrow> Err (FailedToDecodeTransaction e)
      | Ok t \<Rightarrow>
        (case lookup_or_recover (signer_lookup r) (ts_hash t) (recover_signed lib t) of
           None \<Rightarrow> Err InvalidTransactionSignature
         | Some signer \<Rightarrow>
             let hashes_len = (case ts_blob_versioned_hashes t of None \<Rightarrow> 0 | Some hs \<Rightarrow> length hs)
             in Ok \<lparr>tx_inner = \<lparr>rec_inner = t, rec_signer = signer\<rparr>,
                    blobs_sidecar = Eip4844_sidecar (fake_sidecar hashes_len),
                    tx_metadata = Metadata_new now\<rparr>))"

definition decode_enveloped ::
  "'r tx_codec \<Rightarrow> timestamp \<Rightarrow> RawTransactionDecodable
     \<Rightarrow> (TransactionSignedEcRecoveredWithBlobs, 'r TxWithBlobsCreateError) result" where
  "decode_enveloped lib now r =
     (case encoding r of
        WithBlobData \<Rightarrow> decode_enveloped_with_real_blobs lib now r
      | NoBlobData \<Rightarrow> decode_enveloped_with_fake_blobs lib now r)"

text \<open>\<^verbatim>\<open>TxEncoding::decode\<close> of \<^verbatim>\<open>serialize.rs\<close>; mainnet has chain id 1.\<close>

definition EIP4844_TX_TYPE_ID :: u8 where
  "EIP4844_TX_TYPE_ID = 3"

definition looks_like_canonical_blob_tx :: "'r tx_codec \<Rightarrow> u8 list \<Rightarrow> bool" where
  "looks_like_canonical_blob_tx lib raw_tx =
     (case raw_tx of
        [] \<Rightarrow> False
      | tx_type # rest \<Rightarrow>
          if tx_type = EIP4844_TX_TYPE_ID then
            (case rlp_header_decode lib rest of
               None \<Rightarrow> False
             | Some (is_list, tail) \<Rightarrow>
                 if is_list then (case tail of [] \<Rightarrow> False | chain_id # _ \<Rightarrow> chain_id = 1) else False)
          else False)"

definition TxEncoding_decode ::
  "'r tx_codec \<Rightarrow> timestamp \<Rightarrow> TxEncoding \<Rightarrow> u8 list
     \<Rightarrow> (TransactionSignedEcRecoveredWithBlobs, 'r TxWithBlobsCreateError) result" where
  "TxEncoding_decode lib now enc raw_tx =
     (let res = decode_enveloped lib now \<lparr>raw = raw_tx, encoding = enc, signer_lookup = None\<rparr> in
      case enc of
        NoBlobData \<Rightarrow> res
      | WithBlobData \<Rightarrow>
          (case res of
             Err (FailedToDecodeTransaction (RlpError err)) \<Rightarrow>
               if looks_like_canonical_blob_tx lib raw_tx
               then Err (FailedToDecodeTransactionProbablyIs4484Canonical err) else res
           | _ \<Rightarrow> res))"

section \<open>Blob consistency\<close>

text \<open>
  A transaction carries as many blobs as it has versioned hashes: this is what the block space
  accounting relies on.  Only a 4844 transaction has versioned hashes.
\<close>

definition blobs_consistent :: "TransactionSignedEcRecoveredWithBlobs \<Rightarrow> bool" where
  "blobs_consistent t \<longleftrightarrow>
     blobs_len t = (case ts_blob_versioned_hashes (rec_inner (tx_inner t)) of
                      None \<Rightarrow> 0 | Some hs \<Rightarrow> length hs)"

fun sidecar_blobs :: "BlobTransactionSidecarVariant \<Rightarrow> blob list" where
  "sidecar_blobs (Eip4844_sidecar s) = sc_blobs s"
| "sidecar_blobs (Eip7594_sidecar s) = sc_blobs s"

fun pooled_consistent :: "PooledTransactionVariant \<Rightarrow> bool" where
  "pooled_consistent (Pooled_no_blob t) = (ts_blob_versioned_hashes t = None)"
| "pooled_consistent (Pooled_eip4844 t s) =
     (\<exists>hs. ts_blob_versioned_hashes t = Some hs \<and> length (sidecar_blobs s) = length hs)"

lemma blobs_len_sidecar: "blobs_len t = length (sidecar_blobs (blobs_sidecar t))"
  by (cases "blobs_sidecar t") (simp_all add: blobs_len_def)

lemma TxWithBlobs_new_Ok_iff:
  "is_ok (TxWithBlobs_new now tx sidecar md) \<longleftrightarrow>
     (ts_blob_versioned_hashes (rec_inner tx) = None \<longleftrightarrow> sidecar = None)"
  by (auto simp: TxWithBlobs_new_def)

lemma TxWithBlobs_new_no_blobs_len:
  "TxWithBlobs_new now tx None md = Ok t \<Longrightarrow>
     blobs_len t = 0 \<and> ts_blob_versioned_hashes (rec_inner (tx_inner t)) = None"
  by (auto simp: TxWithBlobs_new_def blobs_len_def default_blob_sidecar_def empty_sidecar_def
      split: if_splits)

lemma decode_real_consistent:
  fixes lib :: "'r tx_codec"
  assumes "\<forall>bytes p. decode_pooled lib bytes = Ok p \<longrightarrow> pooled_consistent p"
    and "decode_enveloped_with_real_blobs lib now r = Ok t"
  shows "blobs_consistent t"
proof -
  from assms(2) obtain p signer where p: "decode_pooled lib (raw r) = Ok p"
    and t: "try_from_pooled now p signer = (Ok t :: (_, 'r TxWithBlobsCreateError) result)"
    by (auto simp: decode_enveloped_with_real_blobs_def split: sum.splits option.splits)
  from assms(1) p have "pooled_consistent p" by blast
  with t show ?thesis
  proof (cases p)
    case (Pooled_no_blob x)
    with t TxWithBlobs_new_no_blobs_len show ?thesis
      by (fastforce simp: TxWithBlobs_new_no_blobs_def blobs_consistent_def)
  next
    case (Pooled_eip4844 x s)
    with t \<open>pooled_consistent p\<close> show ?thesis
      by (auto simp: blobs_consistent_def blobs_len_sidecar)
  qed
qed

lemma decode_fake_consistent:
  "decode_enveloped_with_fake_blobs lib now r = Ok t \<Longrightarrow> blobs_consistent t"
  by (auto simp: decode_enveloped_with_fake_blobs_def Let_def blobs_consistent_def blobs_len_def
      empty_sidecar_def split: sum.splits option.splits)

lemma decode_enveloped_consistent:
  assumes "\<forall>bytes p. decode_pooled lib bytes = Ok p \<longrightarrow> pooled_consistent p"
    and "decode_enveloped lib now r = Ok t"
  shows "blobs_consistent t"
  using assms decode_real_consistent decode_fake_consistent
  by (auto simp: decode_enveloped_def split: TxEncoding.splits)

end
