(* ===== verification/Order_Types.thy ===== *)
theory Order_Types
  imports Transactions
begin

text \<open>
  Orders (\<^verbatim>\<open>rbuilder-primitives/src/lib.rs\<close>): bundles, mev-share bundles, mempool transactions, the
  order type over them, order identifiers with their total order and text form, the nonces an
  order needs, simulation values.  Hash functions and variable-length integer encodings come from
  other crates and are arguments (\<open>hash_lib\<close>).
\<close>

section \<open>Bundles\<close>

record BundleRefund =
  br_percent :: u8
  br_recipient :: address
  br_tx_hash :: B256
  br_delayed :: bool

datatype BundleVersion = V1 | V2

definition LAST_BUNDLE_VERSION :: BundleVersion where
  "LAST_BUNDLE_VERSION = V2"

record ReplacementKey =
  rk_id :: Uuid
  rk_signer :: "address option"

datatype BundleReplacementKey = BundleReplacementKey (bundle_key: ReplacementKey)
datatype ShareBundleReplacementKey = ShareBundleReplacementKey (sbundle_key: ReplacementKey)

definition BundleReplacementKey_new :: "Uuid \<Rightarrow> address option \<Rightarrow> BundleReplacementKey" where
  "BundleReplacementKey_new i s = BundleReplacementKey \<lparr>rk_id = i, rk_signer = s\<rparr>"

definition ShareBundleReplacementKey_new :: "Uuid \<Rightarrow> address \<Rightarrow> ShareBundleReplacementKey" where
  "ShareBundleReplacementKey_new i s = ShareBundleReplacementKey \<lparr>rk_id = i, rk_signer = Some s\<rparr>"

datatype OrderReplacementKey =
    ORK_Bundle BundleReplacementKey
  | ORK_ShareBundle ShareBundleReplacementKey

record Bundle =
  b_version :: BundleVersion
  b_block :: "u64 option"
  b_min_timestamp :: "u64 option"
  b_max_timestamp :: "u64 option"
  b_txs :: "TransactionSignedEcRecoveredWithBlobs list"
  b_reverting_tx_hashes :: "B256 list"
  b_dropping_tx_hashes :: "B256 list"
  b_hash :: B256
  b_uuid :: Uuid
  b_replacement_data :: "BundleReplacementKey ReplacementData option"
  b_signer :: "address option"
  b_refund_identity :: "address option"
  b_metadata :: Metadata
  b_refund :: "BundleRefund option"
  b_external_hash :: "B256 option"

datatype TxRevertBehavior = NotAllowed | AllowedIncluded | AllowedExcluded

definition from_old_bool :: "bool \<Rightarrow> TxRevertBehavior" where
  "from_old_bool can_rev = (if can_rev then AllowedIncluded else NotAllowed)"

fun can_revert :: "TxRevertBehavior \<Rightarrow> bool" where
  "can_revert NotAllowed = False"
| "can_revert AllowedIncluded = True"
| "can_revert AllowedExcluded = True"

type_synonym txs_opt = "(TransactionSignedEcRecoveredWithBlobs \<times> bool) list"
type_synonym txs_revert = "(TransactionSignedEcRecoveredWithBlobs \<times> TxRevertBehavior) list"

text \<open>\<^verbatim>\<open>bundle_nonces\<close>: per signer the lowest nonce, with the optional flag of the first transaction that has it.\<close>

definition bundle_nonces_step ::
  "(address \<times> Nonce) list \<Rightarrow> TransactionSignedEcRecoveredWithBlobs \<times> bool \<Rightarrow> (address \<times> Nonce) list" where
  "bundle_nonces_step nonces p = (case p of (tx, optional) \<Rightarrow>
     alist_modify (tx_signer tx)
       (\<lambda>e. case e of
          None \<Rightarrow> \<lparr>n_nonce = tx_nonce tx, n_address = tx_signer tx, n_optional = optional\<rparr>
        | Some nonce \<Rightarrow>
            if tx_nonce tx < n_nonce nonce
            then nonce\<lparr>n_nonce := tx_nonce tx, n_optional := optional\<rparr> else nonce)
       nonces)"

definition bundle_nonces :: "txs_opt \<Rightarrow> Nonce list" where
  "bundle_nonces txs = sort_key n_address (map snd (foldl bundle_nonces_step [] txs))"

text \<open>The counter is a \<^verbatim>\<open>u32\<close>.\<close>

fun can_execute_loop :: "32 word \<Rightarrow> txs_opt \<Rightarrow> u128 \<Rightarrow> bool" where
  "can_execute_loop n [] fee = (0 < n)"
| "can_execute_loop n ((tx, opt) # txs) fee =
     (if fee \<le> max_fee_per_gas tx then can_execute_loop (n + 1) txs fee
      else if \<not> opt then False
      else can_execute_loop n txs fee)"

definition can_execute_with_block_base_fee :: "txs_opt \<Rightarrow> u128 \<Rightarrow> bool" where
  "can_execute_with_block_base_fee txs fee = can_execute_loop 0 txs fee"

definition is_tx_optional :: "Bundle \<Rightarrow> B256 \<Rightarrow> bool" where
  "is_tx_optional b h \<longleftrightarrow> h \<in> set (b_reverting_tx_hashes b) \<or> h \<in> set (b_dropping_tx_hashes b)"

definition Bundle_list_txs :: "Bundle \<Rightarrow> txs_opt" where
  "Bundle_list_txs b = map (\<lambda>tx. (tx, is_tx_optional b (tx_hash tx))) (b_txs b)"

definition Bundle_can_execute_with_block_base_fee :: "Bundle \<Rightarrow> u128 \<Rightarrow> bool" where
  "Bundle_can_execute_with_block_base_fee b fee =
     can_execute_with_block_base_fee (Bundle_list_txs b) fee"

definition Bundle_nonces :: "Bundle \<Rightarrow> Nonce list" where
  "Bundle_nonces b = bundle_nonces (map (\<lambda>tx. (tx, is_tx_optional b (tx_hash tx))) (b_txs b))"

definition Bundle_list_txs_revert :: "Bundle \<Rightarrow> txs_revert" where
  "Bundle_list_txs_revert b = map (\<lambda>tx.
     (tx, if tx_hash tx \<in> set (b_reverting_tx_hashes b) then AllowedIncluded
          else if tx_hash tx \<in> set (b_dropping_tx_hashes b) then AllowedExcluded
          else NotAllowed)) (b_txs b)"

definition Bundle_list_txs_len :: "Bundle \<Rightarrow> nat" where
  "Bundle_list_txs_len b = length (b_txs b)"

definition is_tx_refundable :: "Bundle \<Rightarrow> B256 \<Rightarrow> bool" where
  "is_tx_refundable b h = (case b_refund b of None \<Rightarrow> False | Some r \<Rightarrow> br_tx_hash r = h)"

section \<open>Bundle hash and uuid\<close>

text \<open>Big-endian bytes of a word, \<open>n\<close> bytes.\<close>

definition be_bytes :: "nat \<Rightarrow> 'a::len word \<Rightarrow> u8 list" where
  "be_bytes n w = map (\<lambda>i. ucast (drop_bit (8 * (n - 1 - i)) w)) [0..<n]"

text \<open>
  Library code the hashes rest on: Keccak, SHA-256 over a byte string, the variable-length
  encodings of \<^verbatim>\<open>u64\<close> and of the same bits read as \<^verbatim>\<open>i64\<close>, and the uuid built from 16 bytes.
\<close>

record hash_lib =
  keccak256 :: "u8 list \<Rightarrow> B256"
  sha256 :: "u8 list \<Rightarrow> u8 list"
  encode_var_u64 :: "u64 \<Rightarrow> u8 list"
  encode_var_i64 :: "u64 \<Rightarrow> u8 list"
  uuid_from_sha1_bytes :: "u8 list \<Rightarrow> Uuid"

definition uuid_from_buffer :: "hash_lib \<Rightarrow> u8 list \<Rightarrow> Uuid" where
  "uuid_from_buffer lib buff =
     uuid_from_sha1_bytes lib (take 16 (sha256 lib (replicate 16 0 @ buff)))"

text \<open>\<^verbatim>\<open>uuid_v1\<close> and \<^verbatim>\<open>uuid_v2\<close> sort the hash lists in place.\<close>

definition uuid_v1 :: "hash_lib \<Rightarrow> Bundle \<Rightarrow> Uuid \<times> Bundle" where
  "uuid_v1 lib b =
     (let b' = b\<lparr>b_reverting_tx_hashes := sort (b_reverting_tx_hashes b)\<rparr>;
          buff = encode_var_i64 lib (case b_block b of None \<Rightarrow> 0 | Some n \<Rightarrow> n)
                 @ be_bytes 32 (b_hash b)
                 @ concat (map (be_bytes 32) (b_reverting_tx_hashes b'))
      in (uuid_from_buffer lib buff, b'))"

definition uuid_v2 :: "hash_lib \<Rightarrow> Bundle \<Rightarrow> Uuid \<times> Bundle" where
  "uuid_v2 lib b =
     (let b' = b\<lparr>b_reverting_tx_hashes := sort (b_reverting_tx_hashes b),
                 b_dropping_tx_hashes := sort (b_dropping_tx_hashes b)\<rparr>;
          buff = encode_var_u64 lib (case b_block b of None \<Rightarrow> 0 | Some n \<Rightarrow> n)
                 @ encode_var_u64 lib (case b_min_timestamp b of None \<Rightarrow> 0 | Some t \<Rightarrow> t)
                 @ encode_var_u64 lib (case b_max_timestamp b of None \<Rightarrow> - 1 | Some t \<Rightarrow> t)
                 @ encode_var_u64 lib (of_nat (length (b_reverting_tx_hashes b)))
                 @ encode_var_u64 lib (of_nat (length (b_dropping_tx_hashes b)))
                 @ be_bytes 32 (b_hash b)
                 @ concat (map (be_bytes 32) (b_reverting_tx_hashes b'))
                 @ concat (map (be_bytes 32) (b_dropping_tx_hashes b'))
                 @ (case b_refund b of
                      None \<Rightarrow> []
                    | Some r \<Rightarrow> [br_percent r] @ be_bytes 20 (br_recipient r)
                                @ encode_var_u64 lib 1 @ be_bytes 32 (br_tx_hash r))
      in (uuid_from_buffer lib buff, b'))"

definition Bundle_hash_slow :: "hash_lib \<Rightarrow> Bundle \<Rightarrow> Bundle" where
  "Bundle_hash_slow lib b =
     (let b1 = b\<lparr>b_hash := keccak256 lib (concat (map (\<lambda>tx. be_bytes 32 (tx_hash tx)) (b_txs b)))\<rparr>;
          (u, b2) = (case b_version b1 of V1 \<Rightarrow> uuid_v1 lib b1 | V2 \<Rightarrow> uuid_v2 lib b1)
      in b2\<lparr>b_uuid := u\<rparr>)"

section \<open>Order identifiers\<close>

datatype OrderId =
    OrderId_Tx B256
  | OrderId_Bundle Uuid
  | OrderId_ShareBundle B256

text \<open>The uuid fills the first 16 of the 32 bytes; byte arrays compare as big-endian numbers.\<close>

fun fixed_bytes :: "OrderId \<Rightarrow> B256" where
  "fixed_bytes (OrderId_Tx h) = h"
| "fixed_bytes (OrderId_ShareBundle h) = h"
| "fixed_bytes (OrderId_Bundle u) = push_bit 128 (ucast u)"

fun OrderId_tx_hash :: "OrderId \<Rightarrow> B256 option" where
  "OrderId_tx_hash (OrderId_Tx h) = Some h"
| "OrderId_tx_hash _ = None"

fun OrderId_rank :: "OrderId \<Rightarrow> nat" where
  "OrderId_rank (OrderId_Tx _) = 1"
| "OrderId_rank (OrderId_Bundle _) = 2"
| "OrderId_rank (OrderId_ShareBundle _) = 3"

definition OrderId_cmp :: "OrderId \<Rightarrow> OrderId \<Rightarrow> ordering" where
  "OrderId_cmp a b =
     then_with (cmp (fixed_bytes a) (fixed_bytes b)) (cmp (OrderId_rank a) (OrderId_rank b))"

text \<open>\<^verbatim>\<open>str::strip_prefix\<close>.\<close>

fun strip_prefix :: "string \<Rightarrow> string \<Rightarrow> string option" where
  "strip_prefix [] s = Some s"
| "strip_prefix (c # cs) [] = None"
| "strip_prefix (c # cs) (d # ds) = (if c = d then strip_prefix cs ds else None)"

text \<open>Parsing and printing of hashes and uuids belong to the \<^verbatim>\<open>alloy\<close> and \<^verbatim>\<open>uuid\<close> crates.\<close>

record 'e id_codec =
  B256_from_str :: "string \<Rightarrow> (B256, 'e) result"
  B256_debug :: "B256 \<Rightarrow> string"
  Uuid_from_str :: "string \<Rightarrow> (Uuid, 'e) result"
  Uuid_debug :: "Uuid \<Rightarrow> string"

datatype 'e id_error = Invalid_order_id | Inner_parse_error 'e

definition OrderId_from_str :: "'e id_codec \<Rightarrow> string \<Rightarrow> (OrderId, 'e id_error) result" where
  "OrderId_from_str lib s =
     (case strip_prefix ''tx:'' s of
        Some h \<Rightarrow> (case B256_from_str lib h of Err e \<Rightarrow> Err (Inner_parse_error e) | Ok v \<Rightarrow> Ok (OrderId_Tx v))
      | None \<Rightarrow>
     (case strip_prefix ''bundle:'' s of
        Some i \<Rightarrow> (case Uuid_from_str lib i of Err e \<Rightarrow> Err (Inner_parse_error e) | Ok v \<Rightarrow> Ok (OrderId_Bundle v))
      | None \<Rightarrow>
     (case strip_prefix ''sbundle:'' s of
        Some h \<Rightarrow> (case B256_from_str lib h of Err e \<Rightarrow> Err (Inner_parse_error e) | Ok v \<Rightarrow> Ok (OrderId_ShareBundle v))
      | None \<Rightarrow> Err Invalid_order_id)))"

fun OrderId_display :: "'e id_codec \<Rightarrow> OrderId \<Rightarrow> string" where
  "OrderId_display lib (OrderId_Tx h) = ''tx:'' @ B256_debug lib h"
| "OrderId_display lib (OrderId_Bundle u) = ''bundle:'' @ Uuid_debug lib u"
| "OrderId_display lib (OrderId_ShareBundle h) = ''sbundle:'' @ B256_debug lib h"

section \<open>Mev-share bundles\<close>

record ShareBundleTx =
  sbt_tx :: TransactionSignedEcRecoveredWithBlobs
  sbt_revert_behavior :: TxRevertBehavior

record Refund =
  body_idx :: usize
  refund_percent :: usize

record RefundConfig =
  rc_address :: address
  rc_percent :: usize

datatype ShareBundleBody =
    Body_Tx ShareBundleTx
  | Body_Bundle ShareBundleInner
and ShareBundleInner =
    ShareBundleInner
      (sbi_body: "ShareBundleBody list")
      (sbi_refund: "Refund list")
      (sbi_refund_config: "RefundConfig list")
      (sbi_can_skip: bool)
      (sbi_original_order_id: "OrderId option")

fun inner_list_txs :: "ShareBundleInner \<Rightarrow> txs_opt" and body_list_txs :: "ShareBundleBody \<Rightarrow> txs_opt" where
  "inner_list_txs (ShareBundleInner body _ _ _ _) = concat (map body_list_txs body)"
| "body_list_txs (Body_Tx t) = [(sbt_tx t, can_revert (sbt_revert_behavior t))]"
| "body_list_txs (Body_Bundle b) = inner_list_txs b"

fun inner_list_txs_revert :: "ShareBundleInner \<Rightarrow> txs_revert"
  and body_list_txs_revert :: "ShareBundleBody \<Rightarrow> txs_revert" where
  "inner_list_txs_revert (ShareBundleInner body _ _ _ _) = concat (map body_list_txs_revert body)"
| "body_list_txs_revert (Body_Tx t) = [(sbt_tx t, sbt_revert_behavior t)]"
| "body_list_txs_revert (Body_Bundle b) = inner_list_txs_revert b"

fun inner_list_txs_len :: "ShareBundleInner \<Rightarrow> nat" and body_list_txs_len :: "ShareBundleBody \<Rightarrow> nat" where
  "inner_list_txs_len (ShareBundleInner body _ _ _ _) = sum_list (map body_list_txs_len body)"
| "body_list_txs_len (Body_Tx t) = 1"
| "body_list_txs_len (Body_Bundle b) = inner_list_txs_len b"

fun inner_refund_config :: "ShareBundleInner \<Rightarrow> RefundConfig list option"
  and body_refund_config :: "ShareBundleBody \<Rightarrow> RefundConfig list option" where
  "inner_refund_config (ShareBundleInner body _ rc _ _) =
     (if rc \<noteq> [] then Some rc else case body of [] \<Rightarrow> None | b # _ \<Rightarrow> body_refund_config b)"
| "body_refund_config (Body_Tx t) = Some [\<lparr>rc_address = tx_signer (sbt_tx t), rc_percent = 100\<rparr>]"
| "body_refund_config (Body_Bundle b) = inner_refund_config b"

fun inner_hash_slow :: "hash_lib \<Rightarrow> ShareBundleInner \<Rightarrow> B256" and body_hash :: "hash_lib \<Rightarrow> ShareBundleBody \<Rightarrow> B256" where
  "inner_hash_slow lib (ShareBundleInner body _ _ _ _) =
     (let hashes = map (body_hash lib) body in
      case hashes of [h] \<Rightarrow> h | _ \<Rightarrow> keccak256 lib (concat (map (be_bytes 32) hashes)))"
| "body_hash lib (Body_Tx t) = tx_hash (sbt_tx t)"
| "body_hash lib (Body_Bundle b) = inner_hash_slow lib b"

datatype MempoolTx = MempoolTx (tx_with_blobs: TransactionSignedEcRecoveredWithBlobs)

text \<open>\<^verbatim>\<open>RawTx::decode\<close> of \<^verbatim>\<open>serialize.rs\<close>.\<close>

definition RawTx_decode ::
  "'r tx_codec \<Rightarrow> timestamp \<Rightarrow> TxEncoding \<Rightarrow> u8 list \<Rightarrow> (MempoolTx, 'r TxWithBlobsCreateError) result" where
  "RawTx_decode lib now enc bytes =
     (case TxEncoding_decode lib now enc bytes of Err e \<Rightarrow> Err e | Ok t \<Rightarrow> Ok (MempoolTx t))"

datatype ShareBundle =
    ShareBundle
      (sb_hash: B256)
      (sb_block: u64)
      (sb_max_block: u64)
      (sb_inner_bundle: ShareBundleInner)
      (sb_list_txs_len: nat)
      (sb_signer: "address option")
      (sb_replacement_data: "ShareBundleReplacementKey ReplacementData option")
      (sb_original_orders: "Order list")
      (sb_metadata: Metadata)
and Order =
    Order_Bundle Bundle
  | Order_Tx MempoolTx
  | Order_ShareBundle ShareBundle

definition ShareBundle_new_with_fake_hash ::
  "B256 \<Rightarrow> u64 \<Rightarrow> u64 \<Rightarrow> ShareBundleInner \<Rightarrow> address option
     \<Rightarrow> ShareBundleReplacementKey ReplacementData option \<Rightarrow> Order list \<Rightarrow> Metadata \<Rightarrow> ShareBundle" where
  "ShareBundle_new_with_fake_hash h block max_block inner signer rd originals md =
     ShareBundle h block max_block inner (inner_list_txs_len inner) signer rd originals md"

fun ShareBundle_hash_slow :: "hash_lib \<Rightarrow> ShareBundle \<Rightarrow> ShareBundle" where
  "ShareBundle_hash_slow lib (ShareBundle h bl mb inner len signer rd originals md) =
     ShareBundle (inner_hash_slow lib inner) bl mb inner len signer rd originals md"

definition ShareBundle_new ::
  "hash_lib \<Rightarrow> u64 \<Rightarrow> u64 \<Rightarrow> ShareBundleInner \<Rightarrow> address option
     \<Rightarrow> ShareBundleReplacementKey ReplacementData option \<Rightarrow> Order list \<Rightarrow> Metadata \<Rightarrow> ShareBundle" where
  "ShareBundle_new lib block max_block inner signer rd originals md =
     ShareBundle_hash_slow lib
       (ShareBundle 0 block max_block inner (inner_list_txs_len inner) signer rd originals md)"

definition ShareBundle_with_inner_bundle :: "hash_lib \<Rightarrow> ShareBundle \<Rightarrow> ShareBundleInner \<Rightarrow> ShareBundle" where
  "ShareBundle_with_inner_bundle lib sb inner =
     ShareBundle_new lib (sb_block sb) (sb_max_block sb) inner (sb_signer sb)
       (sb_replacement_data sb) (sb_original_orders sb) (sb_metadata sb)"

definition ShareBundle_list_txs :: "ShareBundle \<Rightarrow> txs_opt" where
  "ShareBundle_list_txs sb = inner_list_txs (sb_inner_bundle sb)"

definition ShareBundle_list_txs_revert :: "ShareBundle \<Rightarrow> txs_revert" where
  "ShareBundle_list_txs_revert sb = inner_list_txs_revert (sb_inner_bundle sb)"

definition ShareBundle_can_execute_with_block_base_fee :: "ShareBundle \<Rightarrow> u128 \<Rightarrow> bool" where
  "ShareBundle_can_execute_with_block_base_fee sb fee =
     can_execute_with_block_base_fee (ShareBundle_list_txs sb) fee"

definition ShareBundle_nonces :: "ShareBundle \<Rightarrow> Nonce list" where
  "ShareBundle_nonces sb = bundle_nonces (inner_list_txs (sb_inner_bundle sb))"

definition is_merged_order :: "ShareBundle \<Rightarrow> bool" where
  "is_merged_order sb \<longleftrightarrow> sb_original_orders sb \<noteq> []"

section \<open>Orders\<close>

fun Order_can_execute_with_block_base_fee :: "Order \<Rightarrow> u128 \<Rightarrow> bool" where
  "Order_can_execute_with_block_base_fee (Order_Bundle b) fee = Bundle_can_execute_with_block_base_fee b fee"
| "Order_can_execute_with_block_base_fee (Order_Tx t) fee = (fee \<le> max_fee_per_gas (tx_with_blobs t))"
| "Order_can_execute_with_block_base_fee (Order_ShareBundle sb) fee =
     ShareBundle_can_execute_with_block_base_fee sb fee"

fun original_orders :: "Order \<Rightarrow> Order list" where
  "original_orders (Order_Bundle b) = [Order_Bundle b]"
| "original_orders (Order_Tx t) = [Order_Tx t]"
| "original_orders (Order_ShareBundle sb) =
     (if sb_original_orders sb = [] then [Order_ShareBundle sb] else sb_original_orders sb)"

fun order_nonces :: "Order \<Rightarrow> Nonce list" where
  "order_nonces (Order_Bundle b) = Bundle_nonces b"
| "order_nonces (Order_Tx t) =
     [\<lparr>n_nonce = tx_nonce (tx_with_blobs t), n_address = tx_signer (tx_with_blobs t), n_optional = False\<rparr>]"
| "order_nonces (Order_ShareBundle sb) = ShareBundle_nonces sb"

fun order_id :: "Order \<Rightarrow> OrderId" where
  "order_id (Order_Bundle b) = OrderId_Bundle (b_uuid b)"
| "order_id (Order_Tx t) = OrderId_Tx (tx_hash (tx_with_blobs t))"
| "order_id (Order_ShareBundle sb) = OrderId_ShareBundle (sb_hash sb)"

fun external_bundle_hash :: "Order \<Rightarrow> B256 option" where
  "external_bundle_hash (Order_Bundle b) = b_external_hash b"
| "external_bundle_hash _ = None"

fun is_tx :: "Order \<Rightarrow> bool" where
  "is_tx (Order_Tx _) = True"
| "is_tx _ = False"

fun list_txs :: "Order \<Rightarrow> txs_opt" where
  "list_txs (Order_Bundle b) = Bundle_list_txs b"
| "list_txs (Order_Tx t) = [(tx_with_blobs t, True)]"
| "list_txs (Order_ShareBundle sb) = ShareBundle_list_txs sb"

fun list_txs_revert :: "Order \<Rightarrow> txs_revert" where
  "list_txs_revert (Order_Bundle b) = Bundle_list_txs_revert b"
| "list_txs_revert (Order_Tx t) = [(tx_with_blobs t, AllowedIncluded)]"
| "list_txs_revert (Order_ShareBundle sb) = ShareBundle_list_txs_revert sb"

fun list_txs_len :: "Order \<Rightarrow> nat" where
  "list_txs_len (Order_Bundle b) = Bundle_list_txs_len b"
| "list_txs_len (Order_Tx t) = 1"
| "list_txs_len (Order_ShareBundle sb) = sb_list_txs_len sb"

fun replacement_key_and_sequence_number :: "Order \<Rightarrow> (OrderReplacementKey \<times> u64) option" where
  "replacement_key_and_sequence_number (Order_Bundle b) =
     map_option (\<lambda>r. (ORK_Bundle (rd_key r), rd_sequence_number r)) (b_replacement_data b)"
| "replacement_key_and_sequence_number (Order_Tx t) = None"
| "replacement_key_and_sequence_number (Order_ShareBundle sb) =
     map_option (\<lambda>r. (ORK_ShareBundle (rd_key r), rd_sequence_number r)) (sb_replacement_data sb)"

definition replacement_key :: "Order \<Rightarrow> OrderReplacementKey option" where
  "replacement_key od = map_option fst (replacement_key_and_sequence_number od)"

definition has_blobs :: "Order \<Rightarrow> bool" where
  "has_blobs od = list_ex (\<lambda>(tx, _). 0 < blobs_len tx) (list_txs od)"

fun target_block :: "Order \<Rightarrow> u64 option" where
  "target_block (Order_Bundle b) = b_block b"
| "target_block (Order_Tx t) = None"
| "target_block (Order_ShareBundle sb) = Some (sb_block sb)"

fun order_signer :: "Order \<Rightarrow> address option" where
  "order_signer (Order_Bundle b) = b_signer b"
| "order_signer (Order_ShareBundle sb) = sb_signer sb"
| "order_signer (Order_Tx t) = None"

fun order_metadata :: "Order \<Rightarrow> Metadata" where
  "order_metadata (Order_Bundle b) = b_metadata b"
| "order_metadata (Order_Tx t) = tx_metadata (tx_with_blobs t)"
| "order_metadata (Order_ShareBundle sb) = sb_metadata sb"

section \<open>Simulation values\<close>

record ProfitInfo =
  pi_coinbase_profit :: U256
  pi_mev_gas_price :: U256

definition ProfitInfo_new :: "U256 \<Rightarrow> u64 \<Rightarrow> ProfitInfo" where
  "ProfitInfo_new profit gas_used =
     \<lparr>pi_coinbase_profit = profit,
      pi_mev_gas_price = (if gas_used \<noteq> 0 then profit div ucast gas_used else 0)\<rparr>"

record SimValue =
  full_profit_info :: ProfitInfo
  non_mempool_profit_info :: ProfitInfo
  sv_space_used :: BlockSpace
  sv_paid_kickbacks :: "(address \<times> U256) list"

definition SimValue_new :: "U256 \<Rightarrow> U256 \<Rightarrow> BlockSpace \<Rightarrow> (address \<times> U256) list \<Rightarrow> SimValue" where
  "SimValue_new full_coinbase_profit non_mempool_coinbase_profit space kickbacks =
     \<lparr>full_profit_info = ProfitInfo_new full_coinbase_profit (gas space),
      non_mempool_profit_info = ProfitInfo_new non_mempool_coinbase_profit (gas space),
      sv_space_used = space,
      sv_paid_kickbacks = kickbacks\<rparr>"

definition SimValue_gas_used :: "SimValue \<Rightarrow> u64" where
  "SimValue_gas_used v = gas (sv_space_used v)"

definition SimValue_blob_gas_used :: "SimValue \<Rightarrow> u64" where
  "SimValue_blob_gas_used v = blob_gas (sv_space_used v)"

definition SimValue_with_kickbacks :: "SimValue \<Rightarrow> (address \<times> U256) list \<Rightarrow> SimValue" where
  "SimValue_with_kickbacks v k = v\<lparr>sv_paid_kickbacks := k\<rparr>"

end
