(* ===== verification/State_Trace.thy ===== *)
theory State_Trace
  imports Prelude
begin

text \<open>
  The state an order was seen to use (\<^verbatim>\<open>UsedStateTrace\<close> of \<^verbatim>\<open>rbuilder-primitives/src/evm_inspector.rs\<close>).
  Hash maps that are iterated are association lists with distinct keys, in any order; a statement
  over all such lists holds for every iteration order.  The EVM hooks that fill a trace are not
  modelled.
\<close>

record SlotKey =
  sk_address :: address
  sk_key :: B256

record UsedStateTrace =
  read_slot_values :: "(SlotKey \<times> B256) list"
  written_slot_values :: "(SlotKey \<times> B256) list"
  read_balances :: "(address \<times> U256) list"
  received_amount :: "(address \<times> U256) list"
  sent_amount :: "(address \<times> U256) list"
  created_contracts :: "address list"
  destructed_contracts :: "address list"

definition empty_trace :: UsedStateTrace where
  "empty_trace = \<lparr>read_slot_values = [], written_slot_values = [], read_balances = [],
     received_amount = [], sent_amount = [], created_contracts = [], destructed_contracts = []\<rparr>"

text \<open>The three kinds of loops of \<^verbatim>\<open>append_trace\<close>: keep the first value, keep the last, add up.\<close>

definition insert_if_absent :: "('k \<times> 'v) list \<Rightarrow> 'k \<times> 'v \<Rightarrow> ('k \<times> 'v) list" where
  "insert_if_absent m kv =
     (if map_of m (fst kv) \<noteq> None then m else alist_update (fst kv) (snd kv) m)"

definition insert_replace :: "('k \<times> 'v) list \<Rightarrow> 'k \<times> 'v \<Rightarrow> ('k \<times> 'v) list" where
  "insert_replace m kv = alist_update (fst kv) (snd kv) m"

definition insert_sum :: "('k \<times> U256) list \<Rightarrow> 'k \<times> U256 \<Rightarrow> ('k \<times> U256) list" where
  "insert_sum m kv =
     alist_modify (fst kv) (\<lambda>e. (case e of None \<Rightarrow> 0 | Some v \<Rightarrow> v) + snd kv) m"

definition push_if_absent :: "'a list \<Rightarrow> 'a \<Rightarrow> 'a list" where
  "push_if_absent xs x = (if x \<in> set xs then xs else xs @ [x])"

definition append_trace :: "UsedStateTrace \<Rightarrow> UsedStateTrace \<Rightarrow> UsedStateTrace" where
  "append_trace self other =
     \<lparr>read_slot_values = foldl insert_if_absent (read_slot_values self) (read_slot_values other),
      written_slot_values = foldl insert_replace (written_slot_values self) (written_slot_values other),
      read_balances = foldl insert_if_absent (read_balances self) (read_balances other),
      received_amount = foldl insert_sum (received_amount self) (received_amount other),
      sent_amount = foldl insert_sum (sent_amount self) (sent_amount other),
      created_contracts = created_contracts self @ created_contracts other,
      destructed_contracts = foldl push_if_absent (destructed_contracts self) (destructed_contracts other)\<rparr>"

definition clear_trace :: "UsedStateTrace \<Rightarrow> UsedStateTrace" where
  "clear_trace t = empty_trace"

section \<open>First read, last write, summed transfers\<close>

definition wf_trace :: "UsedStateTrace \<Rightarrow> bool" where
  "wf_trace t \<longleftrightarrow> distinct (map fst (read_slot_values t)) \<and>
     distinct (map fst (written_slot_values t)) \<and> distinct (map fst (read_balances t)) \<and>
     distinct (map fst (received_amount t)) \<and> distinct (map fst (sent_amount t))"

lemma map_of_insert_if_absent:
  "map_of (foldl insert_if_absent m kvs) k = (case map_of m k of Some v \<Rightarrow> Some v | None \<Rightarrow> map_of kvs k)"
  by (induction kvs arbitrary: m) (auto simp: insert_if_absent_def split: option.splits)

lemma map_of_insert_replace:
  "distinct (map fst kvs) \<Longrightarrow>
   map_of (foldl insert_replace m kvs) k = (case map_of kvs k of Some v \<Rightarrow> Some v | None \<Rightarrow> map_of m k)"
proof (induction kvs arbitrary: m)
  case Nil
  then show ?case by simp
next
  case (Cons kv kvs)
  then show ?case
    by (auto simp: insert_replace_def map_of_eq_None_iff split: option.splits dest: map_of_SomeD
        intro: rev_image_eqI)
qed

definition amount_of :: "('k \<times> U256) list \<Rightarrow> 'k \<Rightarrow> U256" where
  "amount_of m k = (case map_of m k of None \<Rightarrow> 0 | Some v \<Rightarrow> v)"

lemma amount_of_insert_sum_single:
  "amount_of (insert_sum m kv) k = amount_of m k + (if k = fst kv then snd kv else 0)"
  by (auto simp: amount_of_def insert_sum_def split: option.splits)

lemma amount_of_insert_sum:
  "distinct (map fst kvs) \<Longrightarrow> amount_of (foldl insert_sum m kvs) k = amount_of m k + amount_of kvs k"
proof (induction kvs arbitrary: m)
  case Nil
  then show ?case by (simp add: amount_of_def)
next
  case (Cons kv kvs)
  then have "amount_of (foldl insert_sum (insert_sum m kv) kvs) k
      = amount_of m k + (if k = fst kv then snd kv else 0) + amount_of kvs k"
    by (simp add: amount_of_insert_sum_single)
  moreover have "fst kv \<notin> fst ` set kvs" using Cons.prems by simp
  then have "map_of kvs (fst kv) = None" by (simp add: map_of_eq_None_iff)
  ultimately show ?case by (cases kv) (auto simp: amount_of_def)
qed

lemma distinct_foldl_alist:
  assumes "\<And>m kv. distinct (map fst m) \<Longrightarrow> distinct (map fst (f m kv))"
    and "distinct (map fst m)"
  shows "distinct (map fst (foldl f m kvs))"
  using assms(2) by (induction kvs arbitrary: m) (auto intro: assms(1))

lemma wf_append_trace [step_invs]: "wf_trace a \<Longrightarrow> wf_trace (append_trace a b)"
  unfolding wf_trace_def append_trace_def
  by (auto intro!: distinct_foldl_alist
      simp: insert_if_absent_def insert_replace_def insert_sum_def)

lemma distinct_push_if_absent: "distinct xs \<Longrightarrow> distinct (foldl push_if_absent xs ys)"
  by (induction ys arbitrary: xs) (auto simp: push_if_absent_def)

end
