(* ===== verification/Order_Laws.thy ===== *)
theory Order_Laws
  imports Order_Types State_Trace
begin

text \<open>
  Laws of the order types: the identifiers are linearly ordered and survive printing, the nonces
  of a bundle are the lowest ones of its signers, the base-fee test, the transaction lists of an
  order agree with one another, bundle hashes do not depend on the order of the hash lists.
\<close>

section \<open>Identifiers are linearly ordered\<close>

lemma push_ucast_inject:
  "push_bit 128 (ucast a :: B256) = push_bit 128 (ucast b) \<longleftrightarrow> a = b" for a b :: Uuid
proof
  assume eq: "push_bit 128 (ucast a :: B256) = push_bit 128 (ucast b)"
  have "drop_bit 128 (push_bit 128 (ucast w :: B256)) = ucast w" for w :: Uuid
    by (rule bit_word_eqI) (auto simp: bit_simps dest: bit_imp_le_length)
  with eq have "(ucast a :: B256) = ucast b" by metis
  moreover have "(ucast (ucast w :: B256) :: Uuid) = w" for w :: Uuid
    by (rule bit_word_eqI) (auto simp: bit_simps)
  ultimately show "a = b" by metis
qed simp

lemma OrderId_eqI: "fixed_bytes a = fixed_bytes b \<Longrightarrow> OrderId_rank a = OrderId_rank b \<Longrightarrow> a = b"
  by (cases a; cases b) (auto simp: push_ucast_inject)

interpretation order_id_cmp: comparison OrderId_cmp
proof -
  have "comparison (\<lambda>a b. then_with (cmp (fixed_bytes a) (fixed_bytes b))
      (cmp (OrderId_rank a) (OrderId_rank b)))"
    by (intro comparison_then_with cmp_key.comparison_axioms)
  then show "comparison OrderId_cmp" by (simp add: OrderId_cmp_def [abs_def])
qed

lemma OrderId_cmp_Equal [simp]: "OrderId_cmp a b = Equal \<longleftrightarrow> a = b"
  by (auto simp: OrderId_cmp_def intro: OrderId_eqI)

instantiation OrderId :: linorder
begin

definition less_OrderId :: "OrderId \<Rightarrow> OrderId \<Rightarrow> bool" where
  "less_OrderId a b \<longleftrightarrow> OrderId_cmp a b = Less"

definition less_eq_OrderId :: "OrderId \<Rightarrow> OrderId \<Rightarrow> bool" where
  "less_eq_OrderId a b \<longleftrightarrow> OrderId_cmp a b \<noteq> Greater"

instance
proof
  fix a b c :: OrderId
  show "a < b \<longleftrightarrow> a \<le> b \<and> \<not> b \<le> a"
    unfolding less_OrderId_def less_eq_OrderId_def
    using order_id_cmp.c_greater_iff [of b a] by auto
  show "a \<le> a" by (simp add: less_eq_OrderId_def)
  show "a \<le> b \<Longrightarrow> b \<le> c \<Longrightarrow> a \<le> c"
    unfolding less_eq_OrderId_def by (rule order_id_cmp.c_le_trans)
  show "a \<le> b \<Longrightarrow> b \<le> a \<Longrightarrow> a = b"
    unfolding less_eq_OrderId_def
    using order_id_cmp.c_greater_iff [of b a] by (cases "OrderId_cmp a b") auto
  show "a \<le> b \<or> b \<le> a"
    unfolding less_eq_OrderId_def using order_id_cmp.c_greater_iff [of a b] by auto
qed

end

lemma cmp_OrderId: "cmp a b = OrderId_cmp a b" for a b :: OrderId
  by (cases "OrderId_cmp a b") (auto simp: cmp_def less_OrderId_def)

section \<open>Printing and parsing identifiers\<close>

lemma strip_prefix_append [simp]: "strip_prefix p (p @ s) = Some s"
  by (induction p) auto

definition id_codec_law :: "'e id_codec \<Rightarrow> bool" where
  "id_codec_law lib \<longleftrightarrow> (\<forall>h. B256_from_str lib (B256_debug lib h) = Ok h) \<and>
     (\<forall>u. Uuid_from_str lib (Uuid_debug lib u) = Ok u)"

lemma from_str_display:
  "id_codec_law lib \<Longrightarrow> OrderId_from_str lib (OrderId_display lib i) = Ok i"
  by (cases i) (simp_all add: OrderId_from_str_def id_codec_law_def)

lemma display_inject:
  "id_codec_law lib \<Longrightarrow> OrderId_display lib i = OrderId_display lib j \<longleftrightarrow> i = j"
  by (metis from_str_display sum.inject(2))

text \<open>Binary digits are one text form that the laws admit.\<close>

definition bin_digits :: "'a::len word \<Rightarrow> string" where
  "bin_digits w = map (\<lambda>n. if bit w n then CHR ''1'' else CHR ''0'') [0..<LENGTH('a)]"

definition bin_value :: "string \<Rightarrow> ('a::len word, unit) result" where
  "bin_value s = Ok (horner_sum of_bool 2 (map (\<lambda>c. c = CHR ''1'') s))"

lemma bin_value_digits: "bin_value (bin_digits w) = Ok w" for w :: "'a::len word"
proof -
  have "map (\<lambda>c. c = CHR ''1'') (bin_digits w) = map (bit w) [0..<LENGTH('a)]"
    by (simp add: bin_digits_def)
  then show ?thesis
    by (simp add: bin_value_def horner_sum_bit_eq_take_bit)
qed

definition bin_codec :: "unit id_codec" where
  "bin_codec = \<lparr>B256_from_str = bin_value, B256_debug = bin_digits,
                Uuid_from_str = bin_value, Uuid_debug = bin_digits\<rparr>"

lemma bin_codec_law: "id_codec_law bin_codec"
  by (simp add: id_codec_law_def bin_codec_def bin_value_digits)

section \<open>The nonces of a bundle\<close>

definition lowest_nonce_tx ::
  "txs_opt \<Rightarrow> address \<Rightarrow> (TransactionSignedEcRecoveredWithBlobs \<times> bool) option" where
  "lowest_nonce_tx txs a =
     find (\<lambda>(t, _). tx_signer t = a \<and>
             list_all (\<lambda>(u, _). tx_signer u = a \<longrightarrow> tx_nonce t \<le> tx_nonce u) txs) txs"

definition nonce_of_tx :: "TransactionSignedEcRecoveredWithBlobs \<times> bool \<Rightarrow> Nonce" where
  "nonce_of_tx p = \<lparr>n_nonce = tx_nonce (fst p), n_address = tx_signer (fst p), n_optional = snd p\<rparr>"

lemma find_append: "find P (xs @ ys) = (case find P xs of Some x \<Rightarrow> Some x | None \<Rightarrow> find P ys)"
  by (induction xs) auto

lemma find_SomeD: "find P xs = Some x \<Longrightarrow> x \<in> set xs \<and> P x"
  by (induction xs) (auto split: if_splits)

lemma lowest_nonce_tx_Some:
  assumes "lowest_nonce_tx txs a = Some p"
  shows "p \<in> set txs" "tx_signer (fst p) = a"
    "\<And>q. q \<in> set txs \<Longrightarrow> tx_signer (fst q) = a \<Longrightarrow> tx_nonce (fst p) \<le> tx_nonce (fst q)"
  using find_SomeD [OF assms [unfolded lowest_nonce_tx_def]]
  by (simp_all add: list_all_iff case_prod_beta)

lemma lowest_nonce_tx_None: "lowest_nonce_tx txs a = None \<longleftrightarrow> (\<forall>p \<in> set txs. tx_signer (fst p) \<noteq> a)"
proof
  assume none: "lowest_nonce_tx txs a = None"
  show "\<forall>p \<in> set txs. tx_signer (fst p) \<noteq> a"
  proof (rule ccontr)
    assume "\<not> (\<forall>p \<in> set txs. tx_signer (fst p) \<noteq> a)"
    then have "\<exists>p. p \<in> set txs \<and> tx_signer (fst p) = a" by blast
    then obtain p where "p \<in> set txs \<and> tx_signer (fst p) = a"
      and "\<forall>q. q \<in> set txs \<and> tx_signer (fst q) = a \<longrightarrow> unat (tx_nonce (fst p)) \<le> unat (tx_nonce (fst q))"
      using ex_has_least_nat [where P = "\<lambda>p. p \<in> set txs \<and> tx_signer (fst p) = a"
          and m = "\<lambda>p. unat (tx_nonce (fst p))"] by metis
    with none show False
      unfolding lowest_nonce_tx_def find_None_iff list_all_iff
      by (cases p) (auto simp: word_le_nat_alt)
  qed
qed (auto simp: lowest_nonce_tx_def find_None_iff)

lemma lowest_nonce_txI:
  assumes "txs = xs @ p # ys" and "tx_signer (fst p) = a"
    and "\<And>q. q \<in> set xs \<Longrightarrow> tx_signer (fst q) = a \<Longrightarrow> tx_nonce (fst p) < tx_nonce (fst q)"
    and "\<And>q. q \<in> set ys \<Longrightarrow> tx_signer (fst q) = a \<Longrightarrow> tx_nonce (fst p) \<le> tx_nonce (fst q)"
  shows "lowest_nonce_tx txs a = Some p"
proof -
  let ?P = "\<lambda>(t, _). tx_signer t = a \<and>
    list_all (\<lambda>(u, _). tx_signer u = a \<longrightarrow> tx_nonce t \<le> tx_nonce u) txs"
  have "\<not> ?P q" if "q \<in> set xs" for q
    using assms(3) [OF that] assms(1,2) by (cases q) (auto simp: list_all_iff case_prod_beta)
  then have "find ?P xs = None" by (auto simp: find_None_iff)
  moreover have "?P p"
    using assms by (cases p) (auto simp: list_all_iff case_prod_beta intro: less_imp_le)
  ultimately show ?thesis by (simp add: lowest_nonce_tx_def assms(1) find_append)
qed

lemma lowest_nonce_txE:
  assumes "lowest_nonce_tx txs a = Some p"
  obtains xs ys where "txs = xs @ p # ys" and "tx_signer (fst p) = a"
    and "\<And>q. q \<in> set xs \<Longrightarrow> tx_signer (fst q) = a \<Longrightarrow> tx_nonce (fst p) < tx_nonce (fst q)"
    and "\<And>q. q \<in> set ys \<Longrightarrow> tx_signer (fst q) = a \<Longrightarrow> tx_nonce (fst p) \<le> tx_nonce (fst q)"
proof -
  let ?P = "\<lambda>(t, _). tx_signer t = a \<and>
    list_all (\<lambda>(u, _). tx_signer u = a \<longrightarrow> tx_nonce t \<le> tx_nonce u) txs"
  note min = lowest_nonce_tx_Some [OF assms]
  have "\<exists>i<length txs. ?P (txs ! i) \<and> p = txs ! i \<and> (\<forall>j<i. \<not> ?P (txs ! j))"
    using assms unfolding lowest_nonce_tx_def by (simp only: find_Some_iff)
  then obtain i where i: "i < length txs" "p = txs ! i" "\<forall>j < i. \<not> ?P (txs ! j)"
    by (elim exE conjE)
  have before: "tx_nonce (fst p) < tx_nonce (fst q)"
    if q: "q \<in> set (take i txs)" "tx_signer (fst q) = a" for q
  proof -
    from q(1) obtain j where j: "j < i" "q = txs ! j"
      using i(1) by (fastforce simp: in_set_conv_nth)
    have "\<not> ?P q" unfolding j(2) by (rule i(3) [rule_format, OF j(1)])
    then obtain u where "u \<in> set txs" "tx_signer (fst u) = a" "tx_nonce (fst u) < tx_nonce (fst q)"
      using q(2) by (cases q) (auto simp: list_all_iff case_prod_beta not_le)
    with min(3) [of u] show ?thesis by simp
  qed
  have after: "tx_nonce (fst p) \<le> tx_nonce (fst q)"
    if "q \<in> set (drop (Suc i) txs)" "tx_signer (fst q) = a" for q
    using that min(3) in_set_dropD by metis
  show ?thesis
    by (rule that [OF _ min(2) before after]) (simp_all add: i id_take_nth_drop [symmetric])
qed

lemma lowest_nonce_tx_snoc:
  "lowest_nonce_tx (txs @ [p]) a =
     (if tx_signer (fst p) \<noteq> a then lowest_nonce_tx txs a
      else case lowest_nonce_tx txs a of
             None \<Rightarrow> Some p
           | Some q \<Rightarrow> if tx_nonce (fst p) < tx_nonce (fst q) then Some p else Some q)"
proof (cases "lowest_nonce_tx txs a")
  case None
  then have no: "\<forall>q \<in> set txs. tx_signer (fst q) \<noteq> a" by (simp add: lowest_nonce_tx_None)
  then have "lowest_nonce_tx (txs @ [p]) a = (if tx_signer (fst p) = a then Some p else None)"
    by (auto simp: lowest_nonce_tx_None intro!: lowest_nonce_txI [where ys = "[]"])
  with None show ?thesis by simp
next
  case (Some q)
  from Some obtain xs ys where txs: "txs = xs @ q # ys" and q: "tx_signer (fst q) = a"
    and before: "\<And>r. r \<in> set xs \<Longrightarrow> tx_signer (fst r) = a \<Longrightarrow> tx_nonce (fst q) < tx_nonce (fst r)"
    and after: "\<And>r. r \<in> set ys \<Longrightarrow> tx_signer (fst r) = a \<Longrightarrow> tx_nonce (fst q) \<le> tx_nonce (fst r)"
    by (rule lowest_nonce_txE) blast
  have keep: "lowest_nonce_tx (txs @ [p]) a = Some q"
    if "tx_signer (fst p) = a \<Longrightarrow> tx_nonce (fst q) \<le> tx_nonce (fst p)"
    using that txs q before after by (intro lowest_nonce_txI [where ys = "ys @ [p]"]) auto
  have new: "lowest_nonce_tx (txs @ [p]) a = Some p"
    if "tx_signer (fst p) = a" "tx_nonce (fst p) < tx_nonce (fst q)"
    using that lowest_nonce_tx_Some(3) [OF Some]
    by (intro lowest_nonce_txI [where ys = "[]"]) (auto intro: less_le_trans)
  show ?thesis using keep new Some by (simp add: not_less)
qed

lemma foldl_bundle_nonces:
  "map_of (foldl bundle_nonces_step [] txs) a = map_option nonce_of_tx (lowest_nonce_tx txs a)"
proof (induction txs rule: rev_induct)
  case Nil
  then show ?case by (simp add: lowest_nonce_tx_def)
next
  case (snoc p txs)
  then show ?case
    using lowest_nonce_tx_Some(2) [of txs a]
    by (cases p) (auto simp: bundle_nonces_step_def lowest_nonce_tx_snoc nonce_of_tx_def
        split: option.splits)
qed

lemma distinct_bundle_nonces_keys: "distinct (map fst (foldl bundle_nonces_step [] txs))"
  by (induction txs rule: rev_induct) (auto simp: bundle_nonces_step_def split: prod.splits)

lemma bundle_nonces_keys:
  assumes "(a, n) \<in> set (foldl bundle_nonces_step [] txs)"
  shows "n_address n = a"
proof -
  from assms have "map_of (foldl bundle_nonces_step [] txs) a = Some n"
    by (simp add: distinct_bundle_nonces_keys)
  then show ?thesis
    using lowest_nonce_tx_Some(2) [of txs a] by (auto simp: foldl_bundle_nonces nonce_of_tx_def)
qed

lemma bundle_nonces_addresses:
  "map n_address (map snd (foldl bundle_nonces_step [] txs)) = map fst (foldl bundle_nonces_step [] txs)"
  using bundle_nonces_keys by fastforce

lemma distinct_bundle_nonces: "distinct (map n_address (map snd (foldl bundle_nonces_step [] txs)))"
  unfolding bundle_nonces_addresses by (rule distinct_bundle_nonces_keys)

lemma sorted_wrt_bundle_nonces: "sorted_wrt (<) (map n_address (bundle_nonces txs))"
proof -
  have "sorted (map n_address (bundle_nonces txs))"
    by (simp add: bundle_nonces_def)
  moreover have "mset (bundle_nonces txs) = mset (map snd (foldl bundle_nonces_step [] txs))"
    by (simp add: bundle_nonces_def)
  then have "distinct (map n_address (bundle_nonces txs))"
    using distinct_bundle_nonces [of txs] by (metis mset_eq_imp_distinct_iff mset_map)
  ultimately show ?thesis by (simp add: strict_sorted_iff)
qed

lemma set_bundle_nonces:
  "n \<in> set (bundle_nonces txs) \<longleftrightarrow> lowest_nonce_tx txs (n_address n) \<noteq> None \<and>
     n = nonce_of_tx (the (lowest_nonce_tx txs (n_address n)))"
proof -
  have "n \<in> set (bundle_nonces txs) \<longleftrightarrow> n \<in> snd ` set (foldl bundle_nonces_step [] txs)"
    by (simp add: bundle_nonces_def)
  also have "\<dots> \<longleftrightarrow> (n_address n, n) \<in> set (foldl bundle_nonces_step [] txs)"
    using bundle_nonces_keys by force
  also have "\<dots> \<longleftrightarrow> map_of (foldl bundle_nonces_step [] txs) (n_address n) = Some n"
    by (simp add: distinct_bundle_nonces_keys)
  also have "\<dots> \<longleftrightarrow> lowest_nonce_tx txs (n_address n) \<noteq> None \<and>
     n = nonce_of_tx (the (lowest_nonce_tx txs (n_address n)))"
    by (auto simp: foldl_bundle_nonces)
  finally show ?thesis .
qed

text \<open>The table the nonces are collected in is a hash map; its iteration order is lost in the sort.\<close>

lemma filter_eq_single: "distinct ys \<Longrightarrow> x \<in> set ys \<Longrightarrow> filter (\<lambda>y. y = x) ys = [x]"
  by (induction ys) (auto simp: filter_empty_conv)

lemma filter_key_single:
  assumes "distinct (map k ys)" and "x \<in> set ys"
  shows "filter (\<lambda>y. k x = k y) ys = [x]"
proof -
  have "filter (\<lambda>y. k x = k y) ys = filter (\<lambda>y. y = x) ys"
  proof (rule filter_cong)
    have "inj_on k (set ys)" using assms(1) by (simp add: distinct_map)
    then show "(k x = k y) = (y = x)" if "y \<in> set ys" for y
      using that assms(2) inj_on_eq_iff by metis
  qed simp
  also have "\<dots> = [x]"
    using assms by (intro filter_eq_single) (simp_all add: distinct_map)
  finally show ?thesis .
qed

lemma sort_key_arrangement:
  assumes "arrangement ord" and d: "distinct (map k xs)"
  shows "sort_key k (ord xs) = sort_key k xs"
proof (rule properties_for_sort_key)
  have ms: "mset (ord xs) = mset xs" using assms(1) by (simp add: arrangement_def)
  then have d': "distinct (map k (ord xs))"
    using d by (metis mset_eq_imp_distinct_iff mset_map)
  show "mset (sort_key k xs) = mset (ord xs)" by (simp add: ms)
  show "filter (\<lambda>y. k x = k y) (sort_key k xs) = filter (\<lambda>y. k x = k y) (ord xs)"
    if "x \<in> set (sort_key k xs)" for x
  proof -
    from that ms have "x \<in> set xs" "x \<in> set (ord xs)" by (auto dest: mset_eq_setD)
    then show ?thesis
      by (simp add: filter_sort filter_key_single [OF d] filter_key_single [OF d'])
  qed
qed simp

section \<open>Base fee\<close>

lemma can_execute_loop_iff:
  assumes "unat n + length txs < 2 ^ 32"
  shows "can_execute_loop n txs fee \<longleftrightarrow>
    (\<forall>(tx, opt) \<in> set txs. fee \<le> max_fee_per_gas tx \<or> opt) \<and>
    (0 < n \<or> (\<exists>(tx, opt) \<in> set txs. fee \<le> max_fee_per_gas tx))"
  using assms
proof (induction n txs fee rule: can_execute_loop.induct)
  case (1 n fee)
  then show ?case by simp
next
  case (2 n tx opt txs fee)
  show ?case
  proof (cases "fee \<le> max_fee_per_gas tx")
    case True
    have "unat (n + 1) = unat n + 1"
      using "2.prems" by (subst unat_add_noof) auto
    moreover from this have "0 < n + 1" by (simp add: word_less_nat_alt)
    ultimately show ?thesis using 2 True by auto
  next
    case False
    with 2 show ?thesis by auto
  qed
qed

section \<open>The transaction lists of an order\<close>

lemma inner_list_txs_revert_map:
  "inner_list_txs sb = map (map_prod id can_revert) (inner_list_txs_revert sb)"
  "body_list_txs bo = map (map_prod id can_revert) (body_list_txs_revert bo)"
  by (induction sb and bo rule: inner_list_txs_body_list_txs.induct)
    (auto simp: map_concat comp_def intro!: arg_cong [where f = concat])

lemma Bundle_list_txs_revert_map:
  "Bundle_list_txs b = map (map_prod id can_revert) (Bundle_list_txs_revert b)"
  by (auto simp: Bundle_list_txs_def Bundle_list_txs_revert_def is_tx_optional_def)

lemma inner_list_txs_len_eq:
  "inner_list_txs_len sb = length (inner_list_txs sb)" "body_list_txs_len bo = length (body_list_txs bo)"
  by (induction sb and bo rule: inner_list_txs_body_list_txs.induct)
    (auto simp: length_concat comp_def intro!: arg_cong [where f = sum_list])

text \<open>The cached length of a mev-share bundle is right for bundles made by the constructors.\<close>

fun cached_len_ok :: "Order \<Rightarrow> bool" where
  "cached_len_ok (Order_ShareBundle sb) = (sb_list_txs_len sb = inner_list_txs_len (sb_inner_bundle sb))"
| "cached_len_ok _ = True"

lemma cached_len_ok_new [simp]:
  "cached_len_ok (Order_ShareBundle (ShareBundle_new lib bl mb inner signer rd originals md))"
  "cached_len_ok (Order_ShareBundle (ShareBundle_new_with_fake_hash h bl mb inner signer rd originals md))"
  "cached_len_ok (Order_ShareBundle (ShareBundle_with_inner_bundle lib sb inner))"
  by (simp_all add: ShareBundle_new_def ShareBundle_new_with_fake_hash_def
      ShareBundle_with_inner_bundle_def)

section \<open>Bundle hashes\<close>

lemma sort_perm: "mset xs = mset ys \<Longrightarrow> sort xs = sort ys" for xs :: "'a::linorder list"
  by (metis properties_for_sort mset_sort sorted_sort)

lemma hash_slow_perm:
  assumes "mset rev' = mset (b_reverting_tx_hashes b)" and "mset drop' = mset (b_dropping_tx_hashes b)"
  shows "b_uuid (Bundle_hash_slow lib (b\<lparr>b_reverting_tx_hashes := rev', b_dropping_tx_hashes := drop'\<rparr>))
       = b_uuid (Bundle_hash_slow lib b)"
proof -
  note eqs = sort_perm [OF assms(1)] sort_perm [OF assms(2)]
    mset_eq_length [OF assms(1)] mset_eq_length [OF assms(2)]
  show ?thesis
    by (cases "b_version b")
      (simp_all add: Bundle_hash_slow_def uuid_v1_def uuid_v2_def Let_def eqs)
qed

lemma hash_slow_idem: "Bundle_hash_slow lib (Bundle_hash_slow lib b) = Bundle_hash_slow lib b"
  by (cases "b_version b")
    (simp_all add: Bundle_hash_slow_def uuid_v1_def uuid_v2_def Let_def sort_key_id_if_sorted)

section \<open>Simulated orders\<close>

record SimulatedOrder =
  so_order :: Order
  so_sim_value :: SimValue
  so_used_state_trace :: "UsedStateTrace option"

definition so_id :: "SimulatedOrder \<Rightarrow> OrderId" where
  "so_id s = order_id (so_order s)"

definition so_nonces :: "SimulatedOrder \<Rightarrow> Nonce list" where
  "so_nonces s = order_nonces (so_order s)"

lemma distinct_order_nonces: "distinct (map n_address (order_nonces od))"
proof -
  have "distinct (map n_address (bundle_nonces txs))" for txs
    using sorted_wrt_bundle_nonces [of txs] by (simp add: strict_sorted_iff)
  then show ?thesis
    by (cases od) (simp_all add: Bundle_nonces_def ShareBundle_nonces_def)
qed

lemma mev_gas_price_bounds:
  assumes "gas_used \<noteq> 0"
  shows "unat (pi_mev_gas_price (ProfitInfo_new p gas_used)) * unat gas_used \<le> unat p"
    and "unat p < (unat (pi_mev_gas_price (ProfitInfo_new p gas_used)) + 1) * unat gas_used"
proof -
  have u: "unat (ucast gas_used :: U256) = unat gas_used"
    by transfer (simp add: take_bit_take_bit)
  from assms have pos: "0 < unat gas_used" by (simp add: unat_gt_0)
  have eq: "unat (pi_mev_gas_price (ProfitInfo_new p gas_used)) = unat p div unat gas_used"
    using assms by (simp add: ProfitInfo_new_def unat_div u)
  show "unat (pi_mev_gas_price (ProfitInfo_new p gas_used)) * unat gas_used \<le> unat p"
    unfolding eq by simp
  show "unat p < (unat (pi_mev_gas_price (ProfitInfo_new p gas_used)) + 1) * unat gas_used"
    unfolding eq using pos by (metis add.commute dividend_less_times_div mult.commute mult_Suc plus_1_eq_Suc)
qed

section \<open>Order statistics\<close>

text \<open>\<^verbatim>\<open>rbuilder-primitives/src/order_statistics.rs\<close>: \<^verbatim>\<open>i32\<close> counters; \<^verbatim>\<open>as u64\<close> extends the sign.\<close>

record OrderStatistics =
  tx_count :: "32 word"
  bundle_count :: "32 word"
  sbundle_count :: "32 word"

definition OrderStatistics_new :: OrderStatistics where
  "OrderStatistics_new = \<lparr>tx_count = 0, bundle_count = 0, sbundle_count = 0\<rparr>"

fun stats_add :: "OrderStatistics \<Rightarrow> Order \<Rightarrow> OrderStatistics" where
  "stats_add s (Order_Bundle _) = s\<lparr>bundle_count := bundle_count s + 1\<rparr>"
| "stats_add s (Order_Tx _) = s\<lparr>tx_count := tx_count s + 1\<rparr>"
| "stats_add s (Order_ShareBundle _) = s\<lparr>sbundle_count := sbundle_count s + 1\<rparr>"

fun stats_remove :: "OrderStatistics \<Rightarrow> Order \<Rightarrow> OrderStatistics" where
  "stats_remove s (Order_Bundle _) = s\<lparr>bundle_count := bundle_count s - 1\<rparr>"
| "stats_remove s (Order_Tx _) = s\<lparr>tx_count := tx_count s - 1\<rparr>"
| "stats_remove s (Order_ShareBundle _) = s\<lparr>sbundle_count := sbundle_count s - 1\<rparr>"

definition stats_total :: "OrderStatistics \<Rightarrow> u64" where
  "stats_total s = scast (tx_count s) + scast (bundle_count s) + scast (sbundle_count s)"

definition stats_plus :: "OrderStatistics \<Rightarrow> OrderStatistics \<Rightarrow> OrderStatistics" where
  "stats_plus s t = \<lparr>tx_count = tx_count s + tx_count t, bundle_count = bundle_count s + bundle_count t,
     sbundle_count = sbundle_count s + sbundle_count t\<rparr>"

definition stats_minus :: "OrderStatistics \<Rightarrow> OrderStatistics \<Rightarrow> OrderStatistics" where
  "stats_minus s t = \<lparr>tx_count = tx_count s - tx_count t, bundle_count = bundle_count s - bundle_count t,
     sbundle_count = sbundle_count s - sbundle_count t\<rparr>"

lemma stats_remove_add [simp]: "stats_remove (stats_add s od) od = s"
  and stats_add_remove [simp]: "stats_add (stats_remove s od) od = s"
  by (cases od; simp)+

section \<open>Properties\<close>

text \<open>
  C33: The nonces of a bundle.  \<^verbatim>\<open>bundle_nonces\<close> returns one entry per signer, strictly sorted by
  address; the entry of a signer is the nonce and the optional flag of the first transaction of
  that signer with the lowest nonce.  The order in which the hash table is drained plays no role.
\<close>

theorem bundle_nonces_lowest:
  "sorted_wrt (<) (map n_address (bundle_nonces txs)) \<and>
   (\<forall>n. n \<in> set (bundle_nonces txs) \<longleftrightarrow>
      lowest_nonce_tx txs (n_address n) \<noteq> None \<and>
      n = nonce_of_tx (the (lowest_nonce_tx txs (n_address n)))) \<and>
   (arrangement ord \<longrightarrow>
      sort_key n_address (ord (map snd (foldl bundle_nonces_step [] txs))) = bundle_nonces txs)"
  using sorted_wrt_bundle_nonces set_bundle_nonces
    sort_key_arrangement [OF _ distinct_bundle_nonces [of txs]]
  by (simp add: bundle_nonces_def)

definition sample_tx :: "B256 \<Rightarrow> address \<Rightarrow> u64 \<Rightarrow> TransactionSignedEcRecoveredWithBlobs" where
  "sample_tx h signer nonce =
     \<lparr>tx_inner = \<lparr>rec_inner = \<lparr>ts_hash = h, ts_nonce = nonce, ts_gas_limit = 21000,
        ts_max_fee_per_gas = 10, ts_to = None, ts_value = 0, ts_length = 110,
        ts_blob_versioned_hashes = None\<rparr>, rec_signer = signer\<rparr>,
      blobs_sidecar = default_blob_sidecar, tx_metadata = Metadata_new 0\<rparr>"

lemma sample_tx_simps [simp]:
  "tx_hash (sample_tx h a n) = h" "tx_signer (sample_tx h a n) = a" "tx_nonce (sample_tx h a n) = n"
  "max_fee_per_gas (sample_tx h a n) = 10" "blobs_len (sample_tx h a n) = 0"
  "tx_gas_limit (sample_tx h a n) = 21000" "length_eip7934 (sample_tx h a n) = 110"
  by (simp_all add: sample_tx_def tx_hash_def tx_signer_def tx_nonce_def max_fee_per_gas_def
      blobs_len_def default_blob_sidecar_def empty_sidecar_def tx_gas_limit_def length_eip7934_def)

theorem bundle_nonces_lowest_witness:
  "arrangement rev \<and>
   sort_key n_address (rev (map snd (foldl bundle_nonces_step []
      [(sample_tx 1 7 5, False), (sample_tx 2 9 0, True), (sample_tx 3 7 4, True)]))) =
   [\<lparr>n_nonce = 4, n_address = 7, n_optional = True\<rparr>, \<lparr>n_nonce = 0, n_address = 9, n_optional = True\<rparr>]"
proof -
  let ?txs = "[(sample_tx 1 7 5, False), (sample_tx 2 9 0, True), (sample_tx 3 7 4, True)]"
  have "bundle_nonces ?txs =
    [\<lparr>n_nonce = 4, n_address = 7, n_optional = True\<rparr>, \<lparr>n_nonce = 0, n_address = 9, n_optional = True\<rparr>]"
    by (simp add: bundle_nonces_def bundle_nonces_step_def alist_modify_def)
  then show ?thesis using bundle_nonces_lowest [of ?txs rev] by simp
qed

text \<open>
  The base-fee test.  \<^verbatim>\<open>can_execute_with_block_base_fee\<close> accepts exactly when every mandatory
  transaction pays the base fee and at least one transaction does, for lists short enough not to
  wrap the 32-bit counter.
\<close>

theorem can_execute_with_block_base_fee_iff:
  assumes "length txs < 2 ^ 32"
  shows "can_execute_with_block_base_fee txs fee \<longleftrightarrow>
    (\<forall>(tx, opt) \<in> set txs. fee \<le> max_fee_per_gas tx \<or> opt) \<and>
    (\<exists>(tx, opt) \<in> set txs. fee \<le> max_fee_per_gas tx)"
  using can_execute_loop_iff [of 0 txs fee] assms by (simp add: can_execute_with_block_base_fee_def)

theorem can_execute_with_block_base_fee_iff_witness:
  "can_execute_with_block_base_fee [(sample_tx 1 7 5, False)] 10 \<and>
   \<not> can_execute_with_block_base_fee [(sample_tx 1 7 5, True)] 11"
  using can_execute_with_block_base_fee_iff [of "[(sample_tx 1 7 5, False)]" 10]
    can_execute_with_block_base_fee_iff [of "[(sample_tx 1 7 5, True)]" 11]
  by simp

text \<open>
  C34: Order identifiers survive the text form used for serialisation: parsing what
  \<^verbatim>\<open>Display\<close> printed gives the identifier back, for any printers and parsers of hashes and uuids that
  invert one another.
\<close>

theorem order_id_text_roundtrip:
  assumes "id_codec_law lib"
  shows "OrderId_from_str lib (OrderId_display lib i) = Ok i \<and>
    (OrderId_display lib i = OrderId_display lib j \<longleftrightarrow> i = j)"
  using from_str_display [OF assms] display_inject [OF assms] by blast

theorem order_id_text_roundtrip_witness:
  "OrderId_from_str bin_codec (OrderId_display bin_codec (OrderId_ShareBundle 5)) = Ok (OrderId_ShareBundle 5)"
  using order_id_text_roundtrip [OF bin_codec_law] by blast

text \<open>
  C35: Bundle identity.  Recomputing hash and uuid twice changes nothing more, and the uuid does
  not depend on the order in which reverting and dropping hashes were listed.
\<close>

theorem bundle_uuid_canonical:
  "Bundle_hash_slow lib (Bundle_hash_slow lib b) = Bundle_hash_slow lib b \<and>
   (mset rev' = mset (b_reverting_tx_hashes b) \<and> mset drop' = mset (b_dropping_tx_hashes b) \<longrightarrow>
    b_uuid (Bundle_hash_slow lib (b\<lparr>b_reverting_tx_hashes := rev', b_dropping_tx_hashes := drop'\<rparr>)) =
    b_uuid (Bundle_hash_slow lib b))"
  using hash_slow_idem hash_slow_perm by blast

definition sample_bundle :: "TransactionSignedEcRecoveredWithBlobs list \<Rightarrow> B256 list \<Rightarrow> Bundle" where
  "sample_bundle txs rev_hashes =
     \<lparr>b_version = V2, b_block = Some 100, b_min_timestamp = None, b_max_timestamp = None, b_txs = txs,
      b_reverting_tx_hashes = rev_hashes, b_dropping_tx_hashes = [], b_hash = 0, b_uuid = 0,
      b_replacement_data = None, b_signer = None, b_refund_identity = None, b_metadata = Metadata_new 0,
      b_refund = None, b_external_hash = None\<rparr>"

definition sample_hash_lib :: hash_lib where
  "sample_hash_lib = \<lparr>keccak256 = (\<lambda>bs. of_nat (length bs)), sha256 = (\<lambda>bs. drop 80 bs),
     encode_var_u64 = (\<lambda>w. [ucast w]), encode_var_i64 = (\<lambda>w. [ucast w]),
     uuid_from_sha1_bytes = (\<lambda>bs. of_nat (sum_list (map unat bs)))\<rparr>"

theorem bundle_uuid_canonical_witness:
  "b_uuid (Bundle_hash_slow sample_hash_lib ((sample_bundle [] [3, 9])\<lparr>b_reverting_tx_hashes := [9, 3],
      b_dropping_tx_hashes := []\<rparr>)) = b_uuid (Bundle_hash_slow sample_hash_lib (sample_bundle [] [3, 9]))"
proof -
  have "mset [9, 3] = mset (b_reverting_tx_hashes (sample_bundle [] [3, 9])) \<and>
      mset [] = mset (b_dropping_tx_hashes (sample_bundle [] [3, 9]))"
    by (simp add: sample_bundle_def)
  then show ?thesis
    using bundle_uuid_canonical [of sample_hash_lib "sample_bundle [] [3, 9]" "[9, 3]" "[]"] by simp
qed

text \<open>
  The views of an order agree: the list with revert flags is the list with revert
  behaviours seen through \<^verbatim>\<open>can_revert\<close>, and \<^verbatim>\<open>list_txs_len\<close> is its length whenever the cached length of a
  mev-share bundle is the one its constructors compute.
\<close>

theorem order_tx_lists_agree:
  "list_txs od = map (map_prod id can_revert) (list_txs_revert od) \<and>
   (cached_len_ok od \<longrightarrow> list_txs_len od = length (list_txs od))"
proof (cases od)
  case (Order_Bundle b)
  then show ?thesis
    using Bundle_list_txs_revert_map [of b]
    by (simp add: Bundle_list_txs_len_def) (simp add: Bundle_list_txs_revert_def)
next
  case (Order_Tx t)
  then show ?thesis by simp
next
  case (Order_ShareBundle sb)
  then show ?thesis
    by (simp add: ShareBundle_list_txs_def ShareBundle_list_txs_revert_def
        inner_list_txs_revert_map(1) [symmetric] inner_list_txs_len_eq)
qed

theorem order_tx_lists_agree_witness:
  "list_txs_len (Order_ShareBundle (ShareBundle_new sample_hash_lib 1 2
     (ShareBundleInner [Body_Tx \<lparr>sbt_tx = sample_tx 1 7 5, sbt_revert_behavior = NotAllowed\<rparr>] [] [] False None)
     None None [] (Metadata_new 0))) = 1"
proof -
  let ?inner = "ShareBundleInner [Body_Tx \<lparr>sbt_tx = sample_tx 1 7 5, sbt_revert_behavior = NotAllowed\<rparr>]
    [] [] False None"
  let ?sb = "Order_ShareBundle (ShareBundle_new sample_hash_lib 1 2 ?inner None None [] (Metadata_new 0))"
  have "cached_len_ok ?sb" by (rule cached_len_ok_new)
  moreover have "length (list_txs ?sb) = 1" by (simp add: ShareBundle_list_txs_def ShareBundle_new_def)
  ultimately show ?thesis using order_tx_lists_agree [of ?sb] by simp
qed

text \<open>
  Blob space.  A decoded transaction carries exactly one blob per versioned hash, so
  its blob gas is the number of its versioned hashes times the gas of a blob; with blob data this
  rests on the decoder returning matching sidecars, without it the sidecar is made up to match.
\<close>

theorem decoded_blob_gas:
  assumes "\<forall>bytes p. decode_pooled lib bytes = Ok p \<longrightarrow> pooled_consistent p"
    and "decode_enveloped lib now r = Ok t"
  shows "blob_gas (tx_space_needed t) =
    of_nat (case ts_blob_versioned_hashes (rec_inner (tx_inner t)) of None \<Rightarrow> 0 | Some hs \<Rightarrow> length hs)
      * DATA_GAS_PER_BLOB"
  using decode_enveloped_consistent [OF assms]
  by (simp add: tx_space_needed_def blobs_gas_used_def blobs_consistent_def)

definition sample_codec :: "unit tx_codec" where
  "sample_codec =
     \<lparr>decode_pooled = (\<lambda>_. Err (UnexpectedType 0)),
      decode_signed = (\<lambda>_. Ok ((rec_inner (tx_inner (sample_tx 1 7 5)))\<lparr>ts_blob_versioned_hashes := Some [8, 9]\<rparr>)),
      recover_pooled = (\<lambda>_. None), recover_signed = (\<lambda>_. Some 7), rlp_header_decode = (\<lambda>_. None)\<rparr>"

theorem decoded_blob_gas_witness:
  "\<exists>t. decode_enveloped sample_codec 0 \<lparr>raw = [], encoding = NoBlobData, signer_lookup = None\<rparr> = Ok t \<and>
       blob_gas (tx_space_needed t) = 262144"
proof -
  let ?r = "\<lparr>raw = [], encoding = NoBlobData, signer_lookup = None\<rparr>"
  obtain t where t: "decode_enveloped sample_codec 0 ?r = Ok t"
    and hs: "ts_blob_versioned_hashes (rec_inner (tx_inner t)) = Some [8, 9]"
    by (simp add: decode_enveloped_def decode_enveloped_with_fake_blobs_def sample_codec_def
        lookup_or_recover_def Let_def)
  moreover have "\<forall>bytes p. decode_pooled sample_codec bytes = Ok p \<longrightarrow> pooled_consistent p"
    by (simp add: sample_codec_def)
  ultimately show ?thesis
    using decoded_blob_gas [of sample_codec 0 ?r t] by (simp add: DATA_GAS_PER_BLOB_def)
qed

text \<open>
  Appending execution traces keeps the first value read and the last value written of every
  slot, keeps the first balance read, adds up the amounts sent and received, and lists every
  destroyed contract once.
\<close>

theorem append_trace_first_read_last_write:
  assumes "wf_trace b" and "distinct (destructed_contracts a)"
  shows "map_of (read_slot_values (append_trace a b)) k =
      (case map_of (read_slot_values a) k of Some v \<Rightarrow> Some v | None \<Rightarrow> map_of (read_slot_values b) k) \<and>
    map_of (written_slot_values (append_trace a b)) k =
      (case map_of (written_slot_values b) k of Some v \<Rightarrow> Some v | None \<Rightarrow> map_of (written_slot_values a) k) \<and>
    map_of (read_balances (append_trace a b)) x =
      (case map_of (read_balances a) x of Some v \<Rightarrow> Some v | None \<Rightarrow> map_of (read_balances b) x) \<and>
    amount_of (received_amount (append_trace a b)) x =
      amount_of (received_amount a) x + amount_of (received_amount b) x \<and>
    amount_of (sent_amount (append_trace a b)) x =
      amount_of (sent_amount a) x + amount_of (sent_amount b) x \<and>
    distinct (destructed_contracts (append_trace a b))"
  using assms
  by (simp add: wf_trace_def append_trace_def map_of_insert_if_absent map_of_insert_replace
      amount_of_insert_sum distinct_push_if_absent)

theorem append_trace_first_read_last_write_witness:
  "map_of (read_slot_values (append_trace
      (empty_trace\<lparr>read_slot_values := [(\<lparr>sk_address = 1, sk_key = 2\<rparr>, 5)]\<rparr>)
      (empty_trace\<lparr>read_slot_values := [(\<lparr>sk_address = 1, sk_key = 2\<rparr>, 6)]\<rparr>)))
    \<lparr>sk_address = 1, sk_key = 2\<rparr> = Some 5"
  using append_trace_first_read_last_write
    [of "empty_trace\<lparr>read_slot_values := [(\<lparr>sk_address = 1, sk_key = 2\<rparr>, 6)]\<rparr>"
        "empty_trace\<lparr>read_slot_values := [(\<lparr>sk_address = 1, sk_key = 2\<rparr>, 5)]\<rparr>"
        "\<lparr>sk_address = 1, sk_key = 2\<rparr>"]
  by (simp add: wf_trace_def empty_trace_def)

end
