(* ===== verification/Interfaces.thy ===== *)
theory Interfaces
  imports Prelude
begin

text \<open>
  Library code that several components call, as arguments with documented behaviour: the \<^verbatim>\<open>lru\<close>
  cache of the two pools and the unbounded channels of \<^verbatim>\<open>tokio\<close>.
\<close>

section \<open>Least-recently-used caches\<close>

record ('c, 'k) lru_ops =
  lru_new :: "nat \<Rightarrow> 'c"
  lru_contains :: "'c \<Rightarrow> 'k \<Rightarrow> bool"
  lru_put :: "'c \<Rightarrow> 'k \<Rightarrow> 'c"

text \<open>
  A new cache is empty; a key that was just put is in the cache; nothing enters but by a put; as
  long as no more distinct keys than the capacity were put, none was evicted.
\<close>

definition lru_law :: "('c, 'k) lru_ops \<Rightarrow> bool" where
  "lru_law ops \<longleftrightarrow>
     (\<forall>n k. \<not> lru_contains ops (lru_new ops n) k) \<and>
     (\<forall>c k k'. lru_contains ops (lru_put ops c k) k' \<longrightarrow> k' = k \<or> lru_contains ops c k') \<and>
     (\<forall>n ks k. card (set ks) \<le> n \<longrightarrow> k \<in> set ks \<longrightarrow>
        lru_contains ops (foldl (lru_put ops) (lru_new ops n) ks) k)"

lemma lru_new_empty: "lru_law ops \<Longrightarrow> \<not> lru_contains ops (lru_new ops n) k"
  unfolding lru_law_def by blast

lemma lru_contains_foldl:
  "lru_law ops \<Longrightarrow> lru_contains ops (foldl (lru_put ops) (lru_new ops n) ks) k \<Longrightarrow> k \<in> set ks"
proof (induction ks rule: rev_induct)
  case Nil
  then show ?case by (simp add: lru_law_def)
next
  case (snoc x ks)
  then have "k = x \<or> lru_contains ops (foldl (lru_put ops) (lru_new ops n) ks) k"
    by (auto simp: lru_law_def)
  with snoc show ?case by auto
qed

lemma lru_contains_iff:
  assumes "lru_law ops" and "card (set ks) \<le> n"
  shows "lru_contains ops (foldl (lru_put ops) (lru_new ops n) ks) k \<longleftrightarrow> k \<in> set ks"
  using assms lru_contains_foldl [OF assms(1)] by (auto simp: lru_law_def)

text \<open>A list with the most recent key first satisfies the law.\<close>

definition list_lru :: "(nat \<times> 'k list, 'k) lru_ops" where
  "list_lru = \<lparr>lru_new = (\<lambda>n. (n, [])), lru_contains = (\<lambda>c k. k \<in> set (snd c)),
     lru_put = (\<lambda>c k. (fst c, take (fst c) (k # filter (\<lambda>x. x \<noteq> k) (snd c))))\<rparr>"

lemma list_lru_foldl:
  assumes "card (set ks) \<le> n"
  shows "fst (foldl (lru_put list_lru) (lru_new list_lru n) ks) = n \<and>
    distinct (snd (foldl (lru_put list_lru) (lru_new list_lru n) ks)) \<and>
    set (snd (foldl (lru_put list_lru) (lru_new list_lru n) ks)) = set ks"
  using assms
proof (induction ks rule: rev_induct)
  case Nil
  then show ?case by (simp add: list_lru_def)
next
  case (snoc k ks)
  let ?c = "foldl (lru_put list_lru) (lru_new list_lru n) ks"
  have "card (set ks) \<le> card (set (ks @ [k]))" by (rule card_mono) auto
  with snoc have IH: "fst ?c = n" "distinct (snd ?c)" "set (snd ?c) = set ks" by auto
  let ?xs = "k # filter (\<lambda>x. x \<noteq> k) (snd ?c)"
  have d: "distinct ?xs" and s: "set ?xs = set (ks @ [k])" using IH by auto
  then have "length ?xs = card (set (ks @ [k]))" by (metis distinct_card)
  with snoc.prems have "take n ?xs = ?xs" by simp
  then show ?case using IH d s by (simp add: list_lru_def)
qed

lemma list_lru_law: "lru_law list_lru"
proof -
  have "k' = k \<or> lru_contains list_lru c k'"
    if "lru_contains list_lru (lru_put list_lru c k) k'" for c :: "nat \<times> 'a list" and k k'
    using that set_take_subset by (fastforce simp: list_lru_def)
  moreover have "lru_contains list_lru (foldl (lru_put list_lru) (lru_new list_lru n) ks) k"
    if "card (set ks) \<le> n" "k \<in> set ks" for n ks and k :: 'a
    using list_lru_foldl [OF that(1)] that(2) by (simp add: list_lru_def)
  ultimately show ?thesis by (auto simp: lru_law_def) (simp add: list_lru_def)
qed

section \<open>Unbounded channels\<close>

record ('ch, 'm) channel_ops =
  ch_send :: "'ch \<Rightarrow> 'm \<Rightarrow> bool \<times> 'ch"
  ch_is_closed :: "'ch \<Rightarrow> bool"

text \<open>Sending succeeds exactly while the receiver is there, and then appends to the queue.\<close>

definition channel_law :: "('ch, 'm) channel_ops \<Rightarrow> ('ch \<Rightarrow> 'm list) \<Rightarrow> bool" where
  "channel_law ch queue \<longleftrightarrow> (\<forall>s m.
     fst (ch_send ch s m) = (\<not> ch_is_closed ch s) \<and>
     ch_is_closed ch (snd (ch_send ch s m)) = ch_is_closed ch s \<and>
     (\<not> ch_is_closed ch s \<longrightarrow> queue (snd (ch_send ch s m)) = queue s @ [m]))"

lemma channel_send_ok: "channel_law ch queue \<Longrightarrow> ch_send ch s m = (True, s') \<Longrightarrow> queue s' = queue s @ [m]"
  unfolding channel_law_def by (metis fst_conv snd_conv)

end
