(* ===== verification/Constraint_Pool.thy ===== *)
theory Constraint_Pool
  imports Order_Laws Interfaces
begin

text \<open>
  Inclusion constraints and their pool (\<^verbatim>\<open>rbuilder-primitives/src/constraints.rs\<close>,
  \<^verbatim>\<open>rbuilder/src/live_builder/constraint_input/\<close>): the pool stores constraints per target block without
  repetitions, replays them to new subscribers and forwards commands to them; the RPC handler turns
  every constrained transaction into a bundle and hands the constraint to the pool; the live builder
  reserves gas for the transactions of the constraints of a block.

  SSZ serialisation, Keccak, the channels and the LRU cache are library code and are arguments.
\<close>

section \<open>Constraints\<close>

record ConstraintsMessage =
  cm_block :: u64
  cm_transactions :: "u8 list list"

record Constraints =
  message :: ConstraintsMessage

record constraint_lib =
  ssz_serialize :: "Constraints \<Rightarrow> u8 list"
  ssz_keccak256 :: "u8 list \<Rightarrow> B256"

type_synonym ConstraintId = B256

definition Constraints_id :: "constraint_lib \<Rightarrow> Constraints \<Rightarrow> ConstraintId" where
  "Constraints_id lib c = ssz_keccak256 lib (ssz_serialize lib c)"

definition Constraints_hash :: "constraint_lib \<Rightarrow> Constraints \<Rightarrow> B256" where
  "Constraints_hash lib c = Constraints_id lib c"

abbreviation constraint_block :: "Constraints \<Rightarrow> u64" where
  "constraint_block c \<equiv> cm_block (message c)"

section \<open>Sinks\<close>

datatype ConstraintPoolCommand =
    CP_Insert Constraints
  | CP_RemoveBlock u64

record 's constraint_sink_ops =
  cs_insert_constraint :: "'s \<Rightarrow> Constraints \<Rightarrow> bool \<times> 's"
  cs_remove_constraints_for_block :: "'s \<Rightarrow> u64 \<Rightarrow> bool \<times> 's"
  cs_is_alive :: "'s \<Rightarrow> bool"

text \<open>
  The contract of the trait \<^verbatim>\<open>ConstraintSink\<close>: a sink that is alive after a call took the command, and
  a dead sink stays dead.  \<open>log\<close> is what a sink has taken so far.
\<close>

locale constraint_sink =
  fixes ops :: "'s constraint_sink_ops"
    and log :: "'s \<Rightarrow> ConstraintPoolCommand list"
  assumes insert_taken: "cs_is_alive ops (snd (cs_insert_constraint ops s c)) \<Longrightarrow>
      cs_is_alive ops s \<and> log (snd (cs_insert_constraint ops s c)) = log s @ [CP_Insert c]"
    and remove_taken: "cs_is_alive ops (snd (cs_remove_constraints_for_block ops s b)) \<Longrightarrow>
      cs_is_alive ops s \<and> log (snd (cs_remove_constraints_for_block ops s b)) = log s @ [CP_RemoveBlock b]"
begin

lemma replay_taken:
  "cs_is_alive ops (foldl (\<lambda>s c. snd (cs_insert_constraint ops s c)) s cs) \<Longrightarrow>
   cs_is_alive ops s \<and>
   log (foldl (\<lambda>s c. snd (cs_insert_constraint ops s c)) s cs) = log s @ map CP_Insert cs"
proof (induction cs arbitrary: s)
  case Nil
  then show ?case by simp
next
  case (Cons c cs)
  then have "cs_is_alive ops (snd (cs_insert_constraint ops s c)) \<and>
      log (foldl (\<lambda>s c. snd (cs_insert_constraint ops s c)) (snd (cs_insert_constraint ops s c)) cs)
        = log (snd (cs_insert_constraint ops s c)) @ map CP_Insert cs"
    by simp
  with insert_taken [of s c] show ?case by simp
qed

end

text \<open>The printing sink; its state is what it printed.\<close>

definition ConstraintPrinter :: "ConstraintPoolCommand list constraint_sink_ops" where
  "ConstraintPrinter =
     \<lparr>cs_insert_constraint = (\<lambda>printed c. (True, printed @ [CP_Insert c])),
      cs_remove_constraints_for_block = (\<lambda>printed b. (True, printed @ [CP_RemoveBlock b])),
      cs_is_alive = (\<lambda>_. True)\<rparr>"

interpretation printer: constraint_sink ConstraintPrinter "\<lambda>s. s"
  by unfold_locales (simp_all add: ConstraintPrinter_def)

text \<open>The sink over an unbounded channel; the channel is library code.\<close>

definition ConstraintSender2ConstraintSink ::
  "('ch, ConstraintPoolCommand) channel_ops \<Rightarrow> 'ch constraint_sink_ops" where
  "ConstraintSender2ConstraintSink ch =
     \<lparr>cs_insert_constraint = (\<lambda>sender c. ch_send ch sender (CP_Insert c)),
      cs_remove_constraints_for_block = (\<lambda>sender b. ch_send ch sender (CP_RemoveBlock b)),
      cs_is_alive = (\<lambda>sender. \<not> ch_is_closed ch sender)\<rparr>"

lemma sender_constraint_sink:
  "channel_law ch queue \<Longrightarrow> constraint_sink (ConstraintSender2ConstraintSink ch) queue"
  by unfold_locales (simp_all add: ConstraintSender2ConstraintSink_def channel_law_def)

section \<open>The pool\<close>

record 's SinkSubscription =
  sub_sink :: 's
  sub_block :: u64

type_synonym ConstraintPoolSubscriptionId = u64

record ('c, 's) ConstraintPool =
  constraints_by_block :: "u64 \<Rightarrow> Constraints list option"
  known_constraints :: 'c
  cp_sinks :: "(ConstraintPoolSubscriptionId \<times> 's SinkSubscription) list"
  cp_next_sink_id :: u64

record ('c, 's) pool_env =
  pe_constraints :: constraint_lib
  pe_lru :: "('c, ConstraintId \<times> u64) lru_ops"
  pe_sink :: "'s constraint_sink_ops"

definition ConstraintPool_new :: "('c, 's) pool_env \<Rightarrow> ('c, 's) ConstraintPool" where
  "ConstraintPool_new env =
     \<lparr>constraints_by_block = (\<lambda>_. None), known_constraints = lru_new (pe_lru env) 1000,
      cp_sinks = [], cp_next_sink_id = 0\<rparr>"

fun command_target_block :: "ConstraintPoolCommand \<Rightarrow> u64" where
  "command_target_block (CP_Insert c) = constraint_block c"
| "command_target_block (CP_RemoveBlock b) = b"

definition process_constraint ::
  "('c, 's) pool_env \<Rightarrow> Constraints \<Rightarrow> ('c, 's) ConstraintPool \<Rightarrow> ('c, 's) ConstraintPool" where
  "process_constraint env c p =
     (let block = constraint_block c; cid = Constraints_id (pe_constraints env) c in
      if lru_contains (pe_lru env) (known_constraints p) (cid, block) then p
      else p\<lparr>constraints_by_block := (constraints_by_block p)(block \<mapsto>
                (case constraints_by_block p block of None \<Rightarrow> [] | Some cs \<Rightarrow> cs) @ [c]),
             known_constraints := lru_put (pe_lru env) (known_constraints p) (cid, block)\<rparr>)"

definition process_remove_block :: "u64 \<Rightarrow> ('c, 's) ConstraintPool \<Rightarrow> ('c, 's) ConstraintPool" where
  "process_remove_block block p =
     p\<lparr>constraints_by_block := (constraints_by_block p)(block := None)\<rparr>"

text \<open>The closure of \<^verbatim>\<open>sinks.retain\<close> in \<^verbatim>\<open>process_command\<close>; \<open>None\<close> drops the subscription.\<close>

definition forward_command ::
  "'s constraint_sink_ops \<Rightarrow> ConstraintPoolCommand \<Rightarrow> 's SinkSubscription \<Rightarrow> 's SinkSubscription option" where
  "forward_command ops command sub =
     (if \<not> cs_is_alive ops (sub_sink sub) then None
      else if sub_block sub = command_target_block command then
        (let (ok, sink') = (case command of
             CP_Insert c \<Rightarrow> cs_insert_constraint ops (sub_sink sub) c
           | CP_RemoveBlock b \<Rightarrow> cs_remove_constraints_for_block ops (sub_sink sub) b)
         in if \<not> ok then None else Some (sub\<lparr>sub_sink := sink'\<rparr>))
      else Some sub)"

definition process_command ::
  "('c, 's) pool_env \<Rightarrow> ('c, 's) ConstraintPool \<Rightarrow> ConstraintPoolCommand \<Rightarrow> ('c, 's) ConstraintPool" where
  "process_command env p command =
     (let p1 = (case command of
          CP_Insert c \<Rightarrow> process_constraint env c p
        | CP_RemoveBlock block \<Rightarrow> process_remove_block block p)
      in p1\<lparr>cp_sinks := alist_retain (forward_command (pe_sink env) command) (cp_sinks p1)\<rparr>)"

definition process_commands ::
  "('c, 's) pool_env \<Rightarrow> ConstraintPoolCommand list \<Rightarrow> ('c, 's) ConstraintPool \<Rightarrow> ('c, 's) ConstraintPool" where
  "process_commands env commands p = foldl (process_command env) p commands"

definition cp_add_sink ::
  "('c, 's) pool_env \<Rightarrow> u64 \<Rightarrow> 's \<Rightarrow> ('c, 's) ConstraintPool
     \<Rightarrow> ConstraintPoolSubscriptionId \<times> ('c, 's) ConstraintPool" where
  "cp_add_sink env block sink p =
     (let sink' = (case constraints_by_block p block of
           None \<Rightarrow> sink
         | Some existing \<Rightarrow> foldl (\<lambda>s c. snd (cs_insert_constraint (pe_sink env) s c)) sink existing);
          i = cp_next_sink_id p
      in (i, p\<lparr>cp_next_sink_id := i + 1,
               cp_sinks := alist_update i \<lparr>sub_sink = sink', sub_block = block\<rparr> (cp_sinks p)\<rparr>))"

definition cp_remove_sink ::
  "ConstraintPoolSubscriptionId \<Rightarrow> ('c, 's) ConstraintPool \<Rightarrow> 's option \<times> ('c, 's) ConstraintPool" where
  "cp_remove_sink i p =
     (map_option sub_sink (map_of (cp_sinks p) i),
      p\<lparr>cp_sinks := filter (\<lambda>kv. fst kv \<noteq> i) (cp_sinks p)\<rparr>)"

definition cleanup_expired_constraints :: "u64 \<Rightarrow> ('c, 's) ConstraintPool \<Rightarrow> ('c, 's) ConstraintPool" where
  "cleanup_expired_constraints current_block p =
     p\<lparr>constraints_by_block := (\<lambda>b. if b < current_block then None else constraints_by_block p b)\<rparr>"

definition block_updated ::
  "('c, 's) pool_env \<Rightarrow> u64 \<Rightarrow> ('c, 's) ConstraintPool \<Rightarrow> ('c, 's) ConstraintPool" where
  "block_updated env current_block p =
     (let p1 = cleanup_expired_constraints current_block p in
      p1\<lparr>cp_sinks := filter (\<lambda>(_, sub). cs_is_alive (pe_sink env) (sub_sink sub) \<and>
                                        current_block \<le> sub_block sub) (cp_sinks p1)\<rparr>)"

definition get_constraints_for_block ::
  "u64 \<Rightarrow> ('c, 's) ConstraintPool \<Rightarrow> Constraints list \<times> ('c, 's) ConstraintPool" where
  "get_constraints_for_block block p =
     (let p1 = cleanup_expired_constraints block p in
      ((case constraints_by_block p1 block of None \<Rightarrow> [] | Some cs \<Rightarrow> cs), p1))"

section \<open>The pool as a state machine\<close>

datatype 's pool_event =
    Process_commands "ConstraintPoolCommand list"
  | Add_sink u64 's
  | Remove_sink ConstraintPoolSubscriptionId
  | Block_updated u64
  | Get_constraints u64

fun pool_step :: "('c, 's) pool_env \<Rightarrow> ('c, 's) ConstraintPool \<Rightarrow> 's pool_event \<Rightarrow> ('c, 's) ConstraintPool" where
  "pool_step env p (Process_commands cmds) = process_commands env cmds p"
| "pool_step env p (Add_sink block sink) = snd (cp_add_sink env block sink p)"
| "pool_step env p (Remove_sink i) = snd (cp_remove_sink i p)"
| "pool_step env p (Block_updated b) = block_updated env b p"
| "pool_step env p (Get_constraints b) = snd (get_constraints_for_block b p)"

definition pool_inv :: "('c, 's) ConstraintPool \<Rightarrow> bool" where
  "pool_inv p \<longleftrightarrow>
     (\<forall>b cs. constraints_by_block p b = Some cs \<longrightarrow> cs \<noteq> [] \<and> (\<forall>c \<in> set cs. constraint_block c = b)) \<and>
     distinct (map fst (cp_sinks p))"

lemma pool_inv_new: "pool_inv (ConstraintPool_new env)"
  by (simp add: pool_inv_def ConstraintPool_new_def)

lemma pool_inv_process_constraint: "pool_inv p \<Longrightarrow> pool_inv (process_constraint env c p)"
  unfolding pool_inv_def process_constraint_def
  by (cases "constraints_by_block p (constraint_block c)") (auto simp: Let_def)

lemma pool_inv_process_command [step_invs]: "pool_inv p \<Longrightarrow> pool_inv (process_command env p cmd)"
proof (cases cmd)
  case (CP_Insert c)
  assume "pool_inv p"
  then have "pool_inv (process_constraint env c p)" by (rule pool_inv_process_constraint)
  with CP_Insert show ?thesis by (simp add: pool_inv_def process_command_def Let_def)
qed (simp add: pool_inv_def process_command_def process_remove_block_def)

interpretation pool_commands: invariant_system "process_command env" pool_inv for env
  by unfold_locales (rule pool_inv_process_command)

lemma pool_inv_step [step_invs]: "pool_inv p \<Longrightarrow> pool_inv (pool_step env p e)"
proof (cases e)
  case (Process_commands cmds)
  then show "pool_inv p \<Longrightarrow> ?thesis"
    by (simp add: process_commands_def pool_commands.inv_run)
qed (auto simp: pool_inv_def cp_add_sink_def cp_remove_sink_def block_updated_def Let_def
      cleanup_expired_constraints_def get_constraints_for_block_def)

interpretation pool: invariant_system "pool_step env" pool_inv for env
  by unfold_locales (rule pool_inv_step)

section \<open>What the pool stores\<close>

text \<open>The first element of every class of equal keys, in order.\<close>

fun keep_first :: "('a \<Rightarrow> 'k) \<Rightarrow> 'k set \<Rightarrow> 'a list \<Rightarrow> 'a list" where
  "keep_first f seen [] = []"
| "keep_first f seen (x # xs) =
     (if f x \<in> seen then keep_first f seen xs else x # keep_first f (insert (f x) seen) xs)"

lemma keep_first_distinct:
  "distinct (map f (keep_first f seen xs)) \<and> f ` set (keep_first f seen xs) = f ` set xs - seen"
  by (induction f seen xs rule: keep_first.induct) auto

lemma keep_first_insert_irrelevant:
  "\<forall>x \<in> set xs. f x \<noteq> k \<Longrightarrow> keep_first f (insert k S) xs = keep_first f S xs"
  by (induction xs arbitrary: S) (auto simp: insert_commute)

definition stored :: "('c, 's) ConstraintPool \<Rightarrow> u64 \<Rightarrow> Constraints list" where
  "stored p b = (case constraints_by_block p b of None \<Rightarrow> [] | Some cs \<Rightarrow> cs)"

definition dedup_key :: "('c, 's) pool_env \<Rightarrow> Constraints \<Rightarrow> ConstraintId \<times> u64" where
  "dedup_key env c = (Constraints_id (pe_constraints env) c, constraint_block c)"

lemma stored_process_command_Insert:
  "stored (process_command env p (CP_Insert c)) b =
     (if lru_contains (pe_lru env) (known_constraints p) (dedup_key env c) \<or> constraint_block c \<noteq> b
      then stored p b else stored p b @ [c])"
  by (auto simp: stored_def process_command_def process_constraint_def dedup_key_def Let_def)

lemma known_process_command_Insert:
  "known_constraints (process_command env p (CP_Insert c)) =
     (if lru_contains (pe_lru env) (known_constraints p) (dedup_key env c) then known_constraints p
      else lru_put (pe_lru env) (known_constraints p) (dedup_key env c))"
  by (simp add: process_command_def process_constraint_def dedup_key_def Let_def)

lemma stored_inserts:
  assumes "lru_law (pe_lru env)"
    and "known_constraints p = foldl (lru_put (pe_lru env)) (lru_new (pe_lru env) n) ks"
    and "card (set ks \<union> dedup_key env ` set cs) \<le> n"
  shows "stored (foldl (process_command env) p (map CP_Insert cs)) b =
    stored p b @ keep_first (dedup_key env) (set ks) (filter (\<lambda>c. constraint_block c = b) cs)"
  using assms(2,3)
proof (induction cs arbitrary: p ks)
  case Nil
  then show ?case by simp
next
  case (Cons c cs)
  let ?p = "process_command env p (CP_Insert c)"
  have fin: "finite (set ks \<union> dedup_key env ` set (c # cs))" by simp
  have "card (set ks) \<le> n"
    by (rule le_trans [OF card_mono [OF fin Un_upper1] Cons.prems(2)])
  then have known: "lru_contains (pe_lru env) (known_constraints p) (dedup_key env c) \<longleftrightarrow>
      dedup_key env c \<in> set ks"
    using Cons.prems(1) lru_contains_iff [OF assms(1)] by simp
  show ?case
  proof (cases "dedup_key env c \<in> set ks")
    case True
    then have "known_constraints ?p = foldl (lru_put (pe_lru env)) (lru_new (pe_lru env) n) ks"
      using known Cons.prems(1) by (simp add: known_process_command_Insert)
    moreover have "card (set ks \<union> dedup_key env ` set cs) \<le> n"
      using Cons.prems(2) True by (simp add: insert_absorb)
    ultimately show ?thesis
      using Cons.IH [of ?p ks] True known by (simp add: stored_process_command_Insert)
  next
    case False
    then have "known_constraints ?p = foldl (lru_put (pe_lru env)) (lru_new (pe_lru env) n) (ks @ [dedup_key env c])"
      using known Cons.prems(1) by (simp add: known_process_command_Insert)
    then have IH: "stored (foldl (process_command env) ?p (map CP_Insert cs)) b = stored ?p b @
        keep_first (dedup_key env) (insert (dedup_key env c) (set ks)) (filter (\<lambda>c. constraint_block c = b) cs)"
      using Cons.IH [of ?p "ks @ [dedup_key env c]"] Cons.prems(2) by simp
    have other: "keep_first (dedup_key env) (insert (dedup_key env c) (set ks)) ds =
        keep_first (dedup_key env) (set ks) ds"
      if "\<forall>d \<in> set ds. constraint_block d \<noteq> constraint_block c" for ds
      using that by (intro keep_first_insert_irrelevant) (auto simp: dedup_key_def)
    show ?thesis
      using IH known False other [of "filter (\<lambda>c. constraint_block c = b) cs"]
      by (simp add: stored_process_command_Insert)
  qed
qed

section \<open>What a subscriber sees\<close>

fun commands_of :: "'s pool_event \<Rightarrow> ConstraintPoolCommand list" where
  "commands_of (Process_commands cmds) = cmds"
| "commands_of _ = []"

text \<open>The part of a subscription's history that a command adds.\<close>

definition relevant :: "u64 \<Rightarrow> ConstraintPoolCommand list \<Rightarrow> ConstraintPoolCommand list" where
  "relevant b cmds = filter (\<lambda>c. command_target_block c = b) cmds"

lemma relevant_simps [simp]:
  "relevant b [] = []" "relevant b (xs @ ys) = relevant b xs @ relevant b ys"
  by (simp_all add: relevant_def)

context constraint_sink
begin

text \<open>\<open>follows s cmds t\<close>: if sink \<open>t\<close> is alive, then \<open>s\<close> was, and took exactly the commands in between.\<close>

definition follows :: "'s SinkSubscription \<Rightarrow> ConstraintPoolCommand list \<Rightarrow> 's SinkSubscription \<Rightarrow> bool" where
  "follows s cmds t \<longleftrightarrow> sub_block t = sub_block s \<and>
     (cs_is_alive ops (sub_sink t) \<longrightarrow> cs_is_alive ops (sub_sink s) \<and>
        log (sub_sink t) = log (sub_sink s) @ relevant (sub_block s) cmds)"

lemma follows_refl: "follows s [] s"
  by (simp add: follows_def)

lemma follows_trans: "follows s xs t \<Longrightarrow> follows t ys u \<Longrightarrow> follows s (xs @ ys) u"
  by (auto simp: follows_def)

lemma follows_forward: "forward_command ops cmd s = Some t \<Longrightarrow> follows s [cmd] t"
  by (cases cmd)
    (auto simp: forward_command_def follows_def relevant_def dest: insert_taken remove_taken
      split: if_splits prod.splits, (metis insert_taken remove_taken snd_conv)+)

end

lemma cp_sinks_process_command:
  "cp_sinks (process_command env p cmd) = alist_retain (forward_command (pe_sink env) cmd) (cp_sinks p)"
  by (cases cmd) (simp_all add: process_command_def process_constraint_def process_remove_block_def Let_def)

lemma cp_next_process_commands [simp]:
  "cp_next_sink_id (process_commands env cmds p) = cp_next_sink_id p"
proof -
  have "cp_next_sink_id (process_command env q cmd) = cp_next_sink_id q" for q cmd
    by (cases cmd) (simp_all add: process_command_def process_constraint_def process_remove_block_def Let_def)
  then show ?thesis
    unfolding process_commands_def by (induction cmds arbitrary: p) simp_all
qed

lemma subscription_commands:
  assumes "constraint_sink (pe_sink env) log" and "pool_inv p"
    and "map_of (cp_sinks (process_commands env cmds p)) i = Some t"
  shows "\<exists>s. map_of (cp_sinks p) i = Some s \<and> constraint_sink.follows (pe_sink env) log s cmds t"
  using assms(2,3)
proof (induction cmds arbitrary: p)
  case Nil
  then show ?case
    using constraint_sink.follows_refl [OF assms(1)] by (auto simp: process_commands_def)
next
  case (Cons cmd cmds)
  let ?p = "process_command env p cmd"
  from Cons obtain s where s: "map_of (cp_sinks ?p) i = Some s"
    and st: "constraint_sink.follows (pe_sink env) log s cmds t"
    by (auto simp: process_commands_def dest: pool_inv_process_command)
  from s Cons.prems(1) obtain r where "map_of (cp_sinks p) i = Some r"
    and "forward_command (pe_sink env) cmd r = Some s"
    by (auto simp: cp_sinks_process_command pool_inv_def map_of_alist_retain Option.bind_eq_Some_conv)
  with constraint_sink.follows_forward [OF assms(1)] constraint_sink.follows_trans [OF assms(1) _ st]
  show ?case by fastforce
qed

lemma subscription_step:
  assumes "constraint_sink (pe_sink env) log" and "pool_inv p" and "i \<noteq> cp_next_sink_id p"
    and "map_of (cp_sinks (pool_step env p e)) i = Some t"
  shows "\<exists>s. map_of (cp_sinks p) i = Some s \<and>
    constraint_sink.follows (pe_sink env) log s (commands_of e) t"
proof (cases e)
  case (Process_commands cmds)
  with assms subscription_commands [OF assms(1,2)] show ?thesis by simp
next
  case (Add_sink b sink)
  with assms show ?thesis
    by (simp add: cp_add_sink_def Let_def constraint_sink.follows_refl)
next
  case (Remove_sink j)
  with assms show ?thesis
    by (simp add: cp_remove_sink_def map_of_filter_key [where P = "\<lambda>x. x \<noteq> j"]
        constraint_sink.follows_refl split: if_splits)
next
  case (Block_updated b)
  have "map_of (cp_sinks p) i = Some t"
    using assms(2,4) Block_updated
    by (auto simp: block_updated_def cleanup_expired_constraints_def Let_def pool_inv_def
        dest!: map_of_SomeD)
  then show ?thesis by (simp add: Block_updated constraint_sink.follows_refl [OF assms(1)])
next
  case (Get_constraints b)
  with assms show ?thesis
    by (simp add: get_constraints_for_block_def cleanup_expired_constraints_def Let_def
        constraint_sink.follows_refl)
qed

lemma cp_next_pool_step:
  "cp_next_sink_id (pool_step env p e) = cp_next_sink_id p \<or>
   cp_next_sink_id (pool_step env p e) = cp_next_sink_id p + 1"
  by (cases e) (simp_all add: cp_add_sink_def cp_remove_sink_def block_updated_def Let_def
      cleanup_expired_constraints_def get_constraints_for_block_def)

lemma unat_next_pool_step:
  assumes "unat (cp_next_sink_id p) + 1 < 2 ^ 64"
  shows "unat (cp_next_sink_id p) \<le> unat (cp_next_sink_id (pool_step env p e)) \<and>
    unat (cp_next_sink_id (pool_step env p e)) \<le> unat (cp_next_sink_id p) + 1"
proof -
  have "unat (cp_next_sink_id p + 1) = unat (cp_next_sink_id p) + 1"
    using assms by (subst unat_add_noof) simp_all
  then show ?thesis using cp_next_pool_step [of env p e] by auto
qed

lemma subscription_run:
  assumes "constraint_sink (pe_sink env) log"
    and "pool_inv p" and "unat i < unat (cp_next_sink_id p)"
    and "unat (cp_next_sink_id p) + length es < 2 ^ 64"
    and "map_of (cp_sinks (foldl (pool_step env) p es)) i = Some t"
  shows "\<exists>s. map_of (cp_sinks p) i = Some s \<and>
    constraint_sink.follows (pe_sink env) log s (concat (map commands_of es)) t"
  using assms(2-)
proof (induction es arbitrary: p)
  case Nil
  then show ?case using constraint_sink.follows_refl [OF assms(1)] by auto
next
  case (Cons e es)
  let ?p = "pool_step env p e"
  have n: "unat (cp_next_sink_id p) \<le> unat (cp_next_sink_id ?p)"
    "unat (cp_next_sink_id ?p) \<le> unat (cp_next_sink_id p) + 1"
    using unat_next_pool_step [of p env e] Cons.prems(3) by auto
  have "pool_inv ?p" using Cons.prems(1) by (rule pool_inv_step)
  moreover have "unat i < unat (cp_next_sink_id ?p)" using n Cons.prems(2) by simp
  moreover have "unat (cp_next_sink_id ?p) + length es < 2 ^ 64" using n Cons.prems(3) by simp
  ultimately obtain s where s: "map_of (cp_sinks ?p) i = Some s"
    and st: "constraint_sink.follows (pe_sink env) log s (concat (map commands_of es)) t"
    using Cons.IH Cons.prems(4) by auto
  from Cons.prems(2) have "i \<noteq> cp_next_sink_id p" by auto
  from subscription_step [OF assms(1) Cons.prems(1) this s]
  show ?case using constraint_sink.follows_trans [OF assms(1) _ st] by auto
qed

section \<open>The RPC handler\<close>

record 'r rpc_env =
  re_constraints :: constraint_lib
  re_codec :: "'r tx_codec"
  re_now :: timestamp
  re_new_uuid :: "nat \<Rightarrow> Uuid"

text \<open>
  \<^verbatim>\<open>constraint_to_individual_bundles\<close>; \<open>re_new_uuid n\<close> is the random uuid of the \<open>n\<close>-th bundle.  The first
  transaction that cannot be decoded makes the whole conversion fail.
\<close>

definition constraint_bundle ::
  "'r rpc_env \<Rightarrow> Constraints \<Rightarrow> nat \<Rightarrow> TransactionSignedEcRecoveredWithBlobs \<Rightarrow> Bundle" where
  "constraint_bundle env constraint n tx =
     \<lparr>b_version = V2, b_block = Some (constraint_block constraint),
      b_min_timestamp = None, b_max_timestamp = None, b_txs = [tx],
      b_reverting_tx_hashes = [], b_dropping_tx_hashes = [],
      b_hash = Constraints_hash (re_constraints env) constraint,
      b_uuid = re_new_uuid env n, b_replacement_data = None, b_signer = None,
      b_refund_identity = None, b_metadata = Metadata_new (re_now env),
      b_refund = None, b_external_hash = None\<rparr>"

fun individual_bundles_from ::
  "'r rpc_env \<Rightarrow> Constraints \<Rightarrow> nat \<Rightarrow> u8 list list \<Rightarrow> (Bundle list, 'r TxWithBlobsCreateError) result" where
  "individual_bundles_from env constraint n [] = Ok []"
| "individual_bundles_from env constraint n (raw_tx_bytes # rest) =
     (case RawTx_decode (re_codec env) (re_now env) NoBlobData raw_tx_bytes of
        Err e \<Rightarrow> Err e
      | Ok mempool_tx \<Rightarrow>
          (case individual_bundles_from env constraint (Suc n) rest of
             Err e \<Rightarrow> Err e
           | Ok bundles \<Rightarrow> Ok (constraint_bundle env constraint n (tx_with_blobs mempool_tx) # bundles)))"

definition constraint_to_individual_bundles ::
  "'r rpc_env \<Rightarrow> Constraints \<Rightarrow> (Bundle list, 'r TxWithBlobsCreateError) result" where
  "constraint_to_individual_bundles env constraint =
     individual_bundles_from env constraint 0 (cm_transactions (message constraint))"

datatype send_outcome = Sent | Timeout | Closed

fun dec_string :: "nat \<Rightarrow> string" where
  "dec_string n = (if n < 10 then [char_of (48 + n)] else dec_string (n div 10) @ [char_of (48 + n mod 10)])"

declare dec_string.simps [simp del]

record rpc_response =
  rpc_reply :: "(string, int) result"
  rpc_orders :: "Order list"
  rpc_constraints :: "Constraints list"

text \<open>
  The \<^verbatim>\<open>submitConstraints\<close> method: \<open>params\<close> is the parsed request, \<open>send_order n\<close> says whether the \<open>n\<close>-th
  bundle got into the order channel within the timeout, \<open>send\<close> how the constraint fared.  The
  response records what was delivered.
\<close>

definition submit_constraints ::
  "'r rpc_env \<Rightarrow> (Constraints, 'p) result \<Rightarrow> (nat \<Rightarrow> bool) \<Rightarrow> send_outcome \<Rightarrow> rpc_response" where
  "submit_constraints env params send_order send =
     (case params of
        Err _ \<Rightarrow> \<lparr>rpc_reply = Err (- 32602), rpc_orders = [], rpc_constraints = []\<rparr>
      | Ok constraints \<Rightarrow>
          let orders = (case constraint_to_individual_bundles env constraints of
                 Ok bundles \<Rightarrow> [Order_Bundle (bundles ! i). i \<leftarrow> [0..<length bundles], send_order i]
               | Err _ \<Rightarrow> [])
          in (case send of
                Timeout \<Rightarrow> \<lparr>rpc_reply = Err (- 32000), rpc_orders = orders, rpc_constraints = []\<rparr>
              | Closed \<Rightarrow> \<lparr>rpc_reply = Err (- 32603), rpc_orders = orders, rpc_constraints = []\<rparr>
              | Sent \<Rightarrow> \<lparr>rpc_reply = Ok (''block_'' @ dec_string (unat (constraint_block constraints))),
                         rpc_orders = orders, rpc_constraints = [constraints]\<rparr>))"

text \<open>A bundle that stands for one constrained transaction: it is mandatory and for the constraint's block.\<close>

definition mandatory_bundle :: "Constraints \<Rightarrow> TransactionSignedEcRecoveredWithBlobs \<Rightarrow> Bundle \<Rightarrow> bool" where
  "mandatory_bundle c t b \<longleftrightarrow> Bundle_list_txs_revert b = [(t, NotAllowed)] \<and>
     b_block b = Some (constraint_block c) \<and>
     Bundle_nonces b = [\<lparr>n_nonce = tx_nonce t, n_address = tx_signer t, n_optional = False\<rparr>]"

lemma mandatory_constraint_bundle: "mandatory_bundle c t (constraint_bundle env c n t)"
  by (simp add: mandatory_bundle_def constraint_bundle_def Bundle_list_txs_revert_def Bundle_nonces_def
      bundle_nonces_def bundle_nonces_step_def is_tx_optional_def alist_modify_def)

lemma individual_bundles_from_Ok:
  "individual_bundles_from env c n raws = Ok bs \<Longrightarrow>
   list_all2 (\<lambda>bytes b. \<exists>t. RawTx_decode (re_codec env) (re_now env) NoBlobData bytes = Ok (MempoolTx t) \<and>
      mandatory_bundle c t b) raws bs"
proof (induction env c n raws arbitrary: bs rule: individual_bundles_from.induct)
  case (2 env c n bytes raws)
  then obtain m rest where m: "RawTx_decode (re_codec env) (re_now env) NoBlobData bytes = Ok m"
    and r: "individual_bundles_from env c (Suc n) raws = Ok rest"
    and bs: "bs = constraint_bundle env c n (tx_with_blobs m) # rest"
    by (auto split: sum.splits)
  then show ?case
    using "2.IH" [OF m r] mandatory_constraint_bundle by (cases m) auto
qed simp

section \<open>Gas reserved for constraints\<close>

fun reservation_of_txs :: "'r tx_codec \<Rightarrow> timestamp \<Rightarrow> u64 \<Rightarrow> u8 list list \<Rightarrow> u64" where
  "reservation_of_txs codec now total_gas [] = total_gas"
| "reservation_of_txs codec now total_gas (bytes # raws) =
     (case RawTx_decode codec now NoBlobData bytes of
        Ok decoded \<Rightarrow>
          reservation_of_txs codec now (total_gas + gas (tx_space_needed (tx_with_blobs decoded))) raws
      | Err _ \<Rightarrow> reservation_of_txs codec now total_gas raws)"

definition calculate_constraint_gas_reservation :: "'r tx_codec \<Rightarrow> timestamp \<Rightarrow> Constraints list \<Rightarrow> u64" where
  "calculate_constraint_gas_reservation codec now constraints =
     foldl (\<lambda>total_gas c. reservation_of_txs codec now total_gas (cm_transactions (message c))) 0 constraints"

text \<open>The gas left to the builders (\<^verbatim>\<open>BlockBuildingContext::from_attributes\<close>).\<close>

definition gas_available_after_reservation :: "u64 \<Rightarrow> u64 \<Rightarrow> u64" where
  "gas_available_after_reservation gas_limit constraint_reserved_gas =
     saturating_sub gas_limit constraint_reserved_gas"

text \<open>The specification: the sum of the gas limits of the transactions that decode.\<close>

definition decodable_gas_limit :: "'r tx_codec \<Rightarrow> timestamp \<Rightarrow> u8 list \<Rightarrow> nat" where
  "decodable_gas_limit codec now bytes =
     (case RawTx_decode codec now NoBlobData bytes of
        Ok decoded \<Rightarrow> unat (tx_gas_limit (tx_with_blobs decoded)) | Err _ \<Rightarrow> 0)"

definition constrained_gas :: "'r tx_codec \<Rightarrow> timestamp \<Rightarrow> Constraints list \<Rightarrow> nat" where
  "constrained_gas codec now constraints =
     sum_list (map (decodable_gas_limit codec now) (concat (map (\<lambda>c. cm_transactions (message c)) constraints)))"

lemma reservation_of_txs_sum:
  "reservation_of_txs codec now tg raws =
     tg + of_nat (sum_list (map (decodable_gas_limit codec now) raws))"
  by (induction codec now tg raws rule: reservation_of_txs.induct)
    (auto simp: decodable_gas_limit_def tx_space_needed_def tx_gas_limit_def split: sum.splits)

lemma reservation_foldl:
  "foldl (\<lambda>total_gas c. reservation_of_txs codec now total_gas (cm_transactions (message c))) tg cs
     = tg + of_nat (constrained_gas codec now cs)"
  by (induction cs arbitrary: tg) (simp_all add: reservation_of_txs_sum constrained_gas_def)

lemma reservation_eq:
  "calculate_constraint_gas_reservation codec now cs = of_nat (constrained_gas codec now cs)"
  by (simp add: calculate_constraint_gas_reservation_def reservation_foldl)

section \<open>Properties\<close>

text \<open>
  C23: The pool stores without repetition.  After inserting any constraints into a new pool, reading
  a block returns, in order of arrival, the first of every group of constraints with the same
  identifier for that block, as long as the 1000 entries of the cache suffice.
\<close>

theorem pool_stores_first_occurrences:
  assumes "lru_law (pe_lru env)" and "card (dedup_key env ` set cs) \<le> 1000"
  shows "fst (get_constraints_for_block b (process_commands env (map CP_Insert cs) (ConstraintPool_new env))) =
    keep_first (dedup_key env) {} (filter (\<lambda>c. constraint_block c = b) cs)"
proof -
  let ?new = "ConstraintPool_new env"
  have "known_constraints ?new = foldl (lru_put (pe_lru env)) (lru_new (pe_lru env) 1000) []"
    by (simp add: ConstraintPool_new_def)
  moreover have "card (set [] \<union> dedup_key env ` set cs) \<le> 1000" using assms(2) by simp
  ultimately have "stored (foldl (process_command env) ?new (map CP_Insert cs)) b =
      stored ?new b @ keep_first (dedup_key env) (set []) (filter (\<lambda>c. constraint_block c = b) cs)"
    by (rule stored_inserts [OF assms(1)])
  moreover have "stored ?new b = []" by (simp add: stored_def ConstraintPool_new_def)
  moreover have "fst (get_constraints_for_block b p) = stored p b" for p :: "('a, 'b) ConstraintPool"
    by (simp add: get_constraints_for_block_def cleanup_expired_constraints_def Let_def stored_def)
  ultimately show ?thesis by (simp add: process_commands_def)
qed

definition sample_constraint :: "u64 \<Rightarrow> u8 list list \<Rightarrow> Constraints" where
  "sample_constraint b txs = \<lparr>message = \<lparr>cm_block = b, cm_transactions = txs\<rparr>\<rparr>"

definition sample_pool_env :: "(nat \<times> (ConstraintId \<times> u64) list, ConstraintPoolCommand list) pool_env" where
  "sample_pool_env =
     \<lparr>pe_constraints = \<lparr>ssz_serialize = (\<lambda>c. concat (cm_transactions (message c))),
                        ssz_keccak256 = (\<lambda>bs. of_nat (sum_list (map unat bs)))\<rparr>,
      pe_lru = list_lru, pe_sink = ConstraintPrinter\<rparr>"

theorem pool_stores_first_occurrences_witness:
  "fst (get_constraints_for_block 9 (process_commands sample_pool_env
      (map CP_Insert [sample_constraint 9 [[1]], sample_constraint 8 [[1]], sample_constraint 9 [[1]]])
      (ConstraintPool_new sample_pool_env))) = [sample_constraint 9 [[1]]]"
proof -
  let ?cs = "[sample_constraint 9 [[1]], sample_constraint 8 [[1]], sample_constraint 9 [[1]]]"
  have "card (dedup_key sample_pool_env ` set ?cs) \<le> card (set ?cs)" by (rule card_image_le) simp
  also have "\<dots> \<le> length ?cs" by (rule card_length)
  finally have "card (dedup_key sample_pool_env ` set ?cs) \<le> 1000" by simp
  moreover have "lru_law (pe_lru sample_pool_env)" by (simp add: sample_pool_env_def list_lru_law)
  ultimately show ?thesis
    using pool_stores_first_occurrences [of sample_pool_env ?cs 9] by (simp add: sample_constraint_def)
qed

text \<open>
  C17: A subscription misses nothing.  A sink that subscribes for a block and is still subscribed and
  alive after any further events has taken exactly the constraints stored for the block when it
  subscribed, followed by every later command for that block, in order; whatever the other
  subscribers, and whatever blocks come and go.  Subscription numbers must not have wrapped around.
\<close>

theorem subscription_complete:
  assumes "constraint_sink (pe_sink env) log" and "pool_inv p"
    and "cp_add_sink env block sink p = (i, p')"
    and "unat (cp_next_sink_id p) + 1 + length es < 2 ^ 64"
    and "map_of (cp_sinks (foldl (pool_step env) p' es)) i = Some sub"
    and "cs_is_alive (pe_sink env) (sub_sink sub)"
  shows "sub_block sub = block \<and>
    log (sub_sink sub) = log sink @ map CP_Insert (stored p block) @
      filter (\<lambda>c. command_target_block c = block) (concat (map commands_of es))"
proof -
  from assms(3) have i: "i = cp_next_sink_id p" and p': "p' = pool_step env p (Add_sink block sink)"
    by (auto simp: cp_add_sink_def Let_def)
  have next': "unat (cp_next_sink_id p') = unat (cp_next_sink_id p) + 1"
    using assms(3,4) by (auto simp: cp_add_sink_def Let_def unat_add_noof)
  have "pool_inv p'" unfolding p' using assms(2) by (rule pool_inv_step)
  from subscription_run [OF assms(1) this, of i es sub] next' assms(4,5)
  obtain s where s: "map_of (cp_sinks p') i = Some s"
    and f: "constraint_sink.follows (pe_sink env) log s (concat (map commands_of es)) sub"
    using i by auto
  let ?sink = "foldl (\<lambda>s c. snd (cs_insert_constraint (pe_sink env) s c)) sink (stored p block)"
  have s': "s = \<lparr>sub_sink = ?sink, sub_block = block\<rparr>"
    using s assms(3) by (auto simp: cp_add_sink_def Let_def stored_def split: option.splits)
  with f assms(6) have "cs_is_alive (pe_sink env) ?sink"
    and "sub_block sub = block"
    and "log (sub_sink sub) = log ?sink @ relevant block (concat (map commands_of es))"
    by (auto simp: constraint_sink.follows_def [OF assms(1)])
  with constraint_sink.replay_taken [OF assms(1)] show ?thesis
    by (simp add: relevant_def)
qed

theorem subscription_complete_witness:
  "\<exists>sub. map_of (cp_sinks (foldl (pool_step sample_pool_env)
        (snd (cp_add_sink sample_pool_env 9 [] (ConstraintPool_new sample_pool_env)))
        [Process_commands [CP_Insert (sample_constraint 9 []), CP_RemoveBlock 8]])) 0 = Some sub \<and>
     sub_sink sub = [CP_Insert (sample_constraint 9 [])]"
proof -
  let ?env = sample_pool_env and ?p = "ConstraintPool_new sample_pool_env"
  let ?es = "[Process_commands [CP_Insert (sample_constraint 9 []), CP_RemoveBlock 8]]"
  let ?p' = "snd (cp_add_sink ?env 9 [] ?p)"
  have sink: "constraint_sink (pe_sink ?env) (\<lambda>s. s)"
    by (simp add: sample_pool_env_def printer.constraint_sink_axioms)
  obtain sub where sub: "map_of (cp_sinks (foldl (pool_step ?env) ?p' ?es)) 0 = Some sub"
    by (simp add: cp_add_sink_def ConstraintPool_new_def process_commands_def cp_sinks_process_command
        forward_command_def sample_pool_env_def ConstraintPrinter_def sample_constraint_def Let_def)
  have add: "cp_add_sink ?env 9 [] ?p = (0, ?p')"
    by (simp add: cp_add_sink_def ConstraintPool_new_def Let_def)
  have "sub_sink sub = [] @ map CP_Insert (stored ?p 9) @
      filter (\<lambda>c. command_target_block c = 9) (concat (map commands_of ?es))"
    using subscription_complete [OF sink pool_inv_new add _ sub]
    by (simp add: ConstraintPool_new_def sample_pool_env_def ConstraintPrinter_def)
  then show ?thesis
    using sub by (simp add: stored_def ConstraintPool_new_def sample_constraint_def)
qed


text \<open>
  C28: The RPC handler.  A request that parses reaches the constraint channel unless the caller is
  told of a timeout or a closed channel, whether or not its transactions can be decoded; every
  bundle handed to the order pipeline holds exactly one transaction of the constraint, may not be
  dropped or revert, and targets the block of the constraint.
\<close>

theorem submit_constraints_delivers:
  "(rpc_constraints (submit_constraints env (Ok c :: (Constraints, 'p) result) send_order send) = [c] \<longleftrightarrow>
      is_ok (rpc_reply (submit_constraints env (Ok c :: (Constraints, 'p) result) send_order send))) \<and>
   (\<forall>od \<in> set (rpc_orders (submit_constraints env (Ok c :: (Constraints, 'p) result) send_order send)).
      \<exists>bytes \<in> set (cm_transactions (message c)). \<exists>t b. od = Order_Bundle b \<and> mandatory_bundle c t b \<and>
        RawTx_decode (re_codec env) (re_now env) NoBlobData bytes = Ok (MempoolTx t))"
proof (cases "constraint_to_individual_bundles env c")
  case (Inl e)
  then show ?thesis by (cases send) (simp_all add: submit_constraints_def)
next
  case (Inr bs)
  then have all: "list_all2 (\<lambda>bytes b. \<exists>t. RawTx_decode (re_codec env) (re_now env) NoBlobData bytes
      = Ok (MempoolTx t) \<and> mandatory_bundle c t b) (cm_transactions (message c)) bs"
    unfolding constraint_to_individual_bundles_def by (rule individual_bundles_from_Ok)
  have "\<exists>bytes \<in> set (cm_transactions (message c)). \<exists>t. mandatory_bundle c t (bs ! i) \<and>
        RawTx_decode (re_codec env) (re_now env) NoBlobData bytes = Ok (MempoolTx t)"
    if "i < length bs" for i
    using list_all2_nthD2 [OF all that] list_all2_lengthD [OF all] that nth_mem by fastforce
  then have "\<forall>od \<in> set [Order_Bundle (bs ! i). i \<leftarrow> [0..<length bs], send_order i].
      \<exists>bytes \<in> set (cm_transactions (message c)). \<exists>t b. od = Order_Bundle b \<and> mandatory_bundle c t b \<and>
        RawTx_decode (re_codec env) (re_now env) NoBlobData bytes = Ok (MempoolTx t)"
    by auto
  with Inr show ?thesis by (cases send) (simp_all add: submit_constraints_def)
qed

definition sample_rpc_env :: "unit rpc_env" where
  "sample_rpc_env =
     \<lparr>re_constraints = pe_constraints sample_pool_env, re_codec = sample_codec, re_now = 0, re_new_uuid = of_nat\<rparr>"

theorem submit_constraints_delivers_witness:
  "rpc_constraints (submit_constraints sample_rpc_env (Ok (sample_constraint 9 [[1]]) :: (Constraints, unit) result)
      (\<lambda>_. True) Sent) = [sample_constraint 9 [[1]]]"
proof -
  have "is_ok (rpc_reply (submit_constraints sample_rpc_env
      (Ok (sample_constraint 9 [[1]]) :: (Constraints, unit) result) (\<lambda>_. True) Sent))"
    by (simp add: submit_constraints_def Let_def)
  then show ?thesis
    using submit_constraints_delivers [where ?'p = unit, of sample_rpc_env "sample_constraint 9 [[1]]" "\<lambda>_. True" Sent]
    by simp
qed

text \<open>
  C29: Gas reserved for constraints.  The reservation is the sum of the gas limits of the
  constrained transactions that decode, if that sum fits 64 bits, and the gas left to the builders
  and the reservation together are the gas limit of the block, or the builders get nothing.
\<close>

theorem constraint_gas_reserved:
  assumes "constrained_gas codec now cs < 2 ^ 64"
  shows "unat (calculate_constraint_gas_reservation codec now cs) = constrained_gas codec now cs \<and>
    unat (gas_available_after_reservation gas_limit (calculate_constraint_gas_reservation codec now cs)) =
      unat gas_limit - constrained_gas codec now cs"
proof -
  have "unat (calculate_constraint_gas_reservation codec now cs) = constrained_gas codec now cs"
    unfolding reservation_eq using assms by (simp add: unat_of_nat)
  then show ?thesis
    by (simp add: gas_available_after_reservation_def unat_saturating_sub)
qed

theorem constraint_gas_reserved_witness:
  "unat (gas_available_after_reservation 30000000
     (calculate_constraint_gas_reservation sample_codec 0 [sample_constraint 9 [[1], [2]]])) = 29958000"
proof -
  have "constrained_gas sample_codec 0 [sample_constraint 9 [[1], [2]]] = 42000"
    by (simp add: constrained_gas_def decodable_gas_limit_def sample_constraint_def RawTx_decode_def
        TxEncoding_decode_def decode_enveloped_def decode_enveloped_with_fake_blobs_def sample_codec_def
        lookup_or_recover_def Let_def tx_gas_limit_def sample_tx_def)
  then show ?thesis
    using constraint_gas_reserved [of sample_codec 0 "[sample_constraint 9 [[1], [2]]]" 30000000] by simp
qed

section \<open>A constraint that is removed cannot come back\<close>

text \<open>
  C39: \<^verbatim>\<open>RemoveBlock\<close> forgets the stored constraints of a block but not their entries in the cache of known
  constraints: the same constraint submitted again is forwarded to the subscribers and not stored,
  so a later subscriber, and the block builder, never see it.
\<close>

theorem removed_constraint_not_stored_again:
  assumes "lru_law (pe_lru env)"
  shows "stored (process_commands env [CP_Insert c, CP_RemoveBlock (constraint_block c), CP_Insert c]
    (ConstraintPool_new env)) (constraint_block c) = []"
proof -
  let ?p = "process_command env (ConstraintPool_new env) (CP_Insert c)"
  have new: "\<not> lru_contains (pe_lru env) (lru_new (pe_lru env) 1000) (dedup_key env c)"
    using assms by (rule lru_new_empty)
  then have "known_constraints ?p = foldl (lru_put (pe_lru env)) (lru_new (pe_lru env) 1000) [dedup_key env c]"
    by (simp add: known_process_command_Insert ConstraintPool_new_def)
  then have "lru_contains (pe_lru env) (known_constraints ?p) (dedup_key env c)"
    using lru_contains_iff [OF assms, of "[dedup_key env c]" 1000] by simp
  moreover have "known_constraints (process_command env q (CP_RemoveBlock b)) = known_constraints q" for q b
    by (simp add: process_command_def process_remove_block_def)
  ultimately show ?thesis
    by (simp add: process_commands_def stored_process_command_Insert)
      (simp add: stored_def process_command_def process_remove_block_def)
qed

theorem removed_constraint_not_stored_again_witness:
  "stored (process_commands sample_pool_env [CP_Insert (sample_constraint 9 [[1]]), CP_RemoveBlock 9,
     CP_Insert (sample_constraint 9 [[1]])] (ConstraintPool_new sample_pool_env)) 9 = []"
  using removed_constraint_not_stored_again [of sample_pool_env "sample_constraint 9 [[1]]"]
  by (simp add: sample_pool_env_def list_lru_law sample_constraint_def)

end
