(* ===== verification/Constraint_Proofs.thy ===== *)
theory Constraint_Proofs
  imports Transactions
begin

text \<open>
  Inclusion proofs for constrained transactions (\<^verbatim>\<open>rbuilder/src/building/constraint_proofs.rs\<close>,
  \<^verbatim>\<open>rbuilder/src/live_builder/block_output/constraint_proof_observer.rs\<close> and \<^verbatim>\<open>constraint_proof_storage.rs\<close>):
  the transaction trie of a submitted block, one proof per appended constraint transaction, and the
  storage that keeps the proofs of the most recent slots.  The Merkle trie and the RLP encoders are
  library code and are arguments.
\<close>

section \<open>The transaction trie\<close>

type_synonym bytes = "u8 list"

text \<open>Operations of \<^verbatim>\<open>eth_trie\<close>; those that may rewrite cached nodes return the trie.\<close>

record ('t, 'e) trie_ops =
  trie_new :: 't
  trie_insert :: "'t \<Rightarrow> bytes \<Rightarrow> bytes \<Rightarrow> ('t, 'e) result"
  trie_root_hash :: "'t \<Rightarrow> (B256 \<times> 't, 'e) result"
  trie_get_proof :: "'t \<Rightarrow> bytes \<Rightarrow> (bytes list \<times> 't, 'e) result"
  trie_verify_proof :: "'t \<Rightarrow> B256 \<Rightarrow> bytes \<Rightarrow> bytes list \<Rightarrow> (bytes option, 'e) result"
  rlp_encode_index :: "nat \<Rightarrow> bytes"
  rlp_encode_tx :: "TransactionSigned \<Rightarrow> bytes"

datatype 'e ConstraintProofError =
    TrieError 'e
  | TxNotFound nat
  | TxHashNotFound B256
  | InvalidProof

record ConstraintProof =
  cpf_tx_hash :: B256
  cpf_tx_index :: nat
  cpf_proof :: "bytes list"
  cpf_transactions_root :: B256
  cpf_block_number :: u64
  cpf_slot :: u64

record 't TransactionTrieBuilder =
  ttb_trie :: 't
  ttb_transactions :: "B256 list"

definition TransactionTrieBuilder_new :: "('t, 'e) trie_ops \<Rightarrow> 't TransactionTrieBuilder" where
  "TransactionTrieBuilder_new lib = \<lparr>ttb_trie = trie_new lib, ttb_transactions = []\<rparr>"

fun build_from ::
  "('t, 'e) trie_ops \<Rightarrow> 't TransactionTrieBuilder \<Rightarrow> nat \<Rightarrow> TransactionSigned list
     \<Rightarrow> ('t TransactionTrieBuilder, 'e ConstraintProofError) result" where
  "build_from lib builder idx [] = Ok builder"
| "build_from lib builder idx (tx # txs) =
     (case trie_insert lib (ttb_trie builder) (rlp_encode_index lib idx) (rlp_encode_tx lib tx) of
        Err e \<Rightarrow> Err (TrieError e)
      | Ok t \<Rightarrow> build_from lib
                 \<lparr>ttb_trie = t, ttb_transactions = ttb_transactions builder @ [ts_hash tx]\<rparr> (Suc idx) txs)"

definition build ::
  "('t, 'e) trie_ops \<Rightarrow> TransactionSigned list \<Rightarrow> ('t TransactionTrieBuilder, 'e ConstraintProofError) result" where
  "build lib transactions = build_from lib (TransactionTrieBuilder_new lib) 0 transactions"

definition ttb_root ::
  "('t, 'e) trie_ops \<Rightarrow> 't TransactionTrieBuilder
     \<Rightarrow> (B256 \<times> 't TransactionTrieBuilder, 'e ConstraintProofError) result" where
  "ttb_root lib b =
     (case trie_root_hash lib (ttb_trie b) of
        Err e \<Rightarrow> Err (TrieError e)
      | Ok (r, t) \<Rightarrow> Ok (r, b\<lparr>ttb_trie := t\<rparr>))"

definition get_proof ::
  "('t, 'e) trie_ops \<Rightarrow> 't TransactionTrieBuilder \<Rightarrow> nat
     \<Rightarrow> (bytes list \<times> 't TransactionTrieBuilder, 'e ConstraintProofError) result" where
  "get_proof lib b tx_index =
     (if length (ttb_transactions b) \<le> tx_index then Err (TxNotFound tx_index)
      else case trie_get_proof lib (ttb_trie b) (rlp_encode_index lib tx_index) of
             Err e \<Rightarrow> Err (TrieError e)
           | Ok (p, t) \<Rightarrow> Ok (p, b\<lparr>ttb_trie := t\<rparr>))"

fun position :: "('a \<Rightarrow> bool) \<Rightarrow> 'a list \<Rightarrow> nat option" where
  "position P [] = None"
| "position P (x # xs) = (if P x then Some 0 else map_option Suc (position P xs))"

definition find_tx_index :: "'t TransactionTrieBuilder \<Rightarrow> B256 \<Rightarrow> (nat, 'e ConstraintProofError) result" where
  "find_tx_index b h =
     (case position (\<lambda>x. x = h) (ttb_transactions b) of
        Some i \<Rightarrow> Ok i | None \<Rightarrow> Err (TxHashNotFound h))"

definition verify_proof ::
  "('t, 'e) trie_ops \<Rightarrow> 't TransactionTrieBuilder \<Rightarrow> nat \<Rightarrow> bytes list \<Rightarrow> B256
     \<Rightarrow> (bytes, 'e ConstraintProofError) result" where
  "verify_proof lib b tx_index proof root =
     (case trie_verify_proof lib (ttb_trie b) root (rlp_encode_index lib tx_index) proof of
        Ok (Some value) \<Rightarrow> Ok value
      | Ok None \<Rightarrow> Err InvalidProof
      | Err e \<Rightarrow> Err (TrieError e))"

definition get_tx_hash :: "'t TransactionTrieBuilder \<Rightarrow> nat \<Rightarrow> (B256, 'e ConstraintProofError) result" where
  "get_tx_hash b i =
     (if i < length (ttb_transactions b) then Ok (ttb_transactions b ! i) else Err (TxNotFound i))"

section \<open>Storage\<close>

definition MAX_SLOTS_TO_KEEP :: nat where
  "MAX_SLOTS_TO_KEEP = 10"

record BlockProofs =
  bp_block_hash :: B256
  bp_block_number :: u64
  bp_proofs :: "ConstraintProof list"

record SlotProofs =
  sp_slot :: u64
  sp_blocks :: "BlockProofs list"

type_synonym ConstraintProofStorage = "(u64 \<times> (B256 \<times> BlockProofs) list) list"

definition add_proof ::
  "u64 \<Rightarrow> B256 \<Rightarrow> u64 \<Rightarrow> ConstraintProof \<Rightarrow> ConstraintProofStorage \<Rightarrow> ConstraintProofStorage" where
  "add_proof slot block_hash block_number proof storage =
     (let storage1 = alist_modify slot (\<lambda>e.
            alist_modify block_hash (\<lambda>b.
              (case b of
                 None \<Rightarrow> \<lparr>bp_block_hash = block_hash, bp_block_number = block_number, bp_proofs = [proof]\<rparr>
               | Some be \<Rightarrow> be\<lparr>bp_proofs := bp_proofs be @ [proof]\<rparr>))
              (case e of None \<Rightarrow> [] | Some slot_entry \<Rightarrow> slot_entry)) storage
      in if MAX_SLOTS_TO_KEEP < length storage1
         then (let min_slot = Min (set (map fst storage1)) in filter (\<lambda>kv. fst kv \<noteq> min_slot) storage1)
         else storage1)"

text \<open>\<open>ord\<close> is the order in which the blocks of a slot are drained from their hash map.\<close>

definition get_recent_proofs :: "(BlockProofs list \<Rightarrow> BlockProofs list) \<Rightarrow> ConstraintProofStorage \<Rightarrow> SlotProofs list" where
  "get_recent_proofs ord storage =
     List.map_filter (\<lambda>slot. map_option (\<lambda>blocks. \<lparr>sp_slot = slot, sp_blocks = ord (map snd blocks)\<rparr>)
                                        (map_of storage slot))
       (rev (sort (map fst storage)))"

section \<open>The observer\<close>

text \<open>
  A submission request carries the encoded transactions of the payload and the block hash; the four
  request variants of the source differ only in where these are found.
\<close>

record payload =
  pl_transactions :: "bytes list"
  pl_block_hash :: B256

datatype SubmitBlockRequest = Electra payload | Fulu payload | Deneb payload | Capella payload

fun request_payload :: "SubmitBlockRequest \<Rightarrow> payload" where
  "request_payload (Electra p) = p"
| "request_payload (Fulu p) = p"
| "request_payload (Deneb p) = p"
| "request_payload (Capella p) = p"

definition extract_block_hash :: "SubmitBlockRequest \<Rightarrow> B256" where
  "extract_block_hash r = pl_block_hash (request_payload r)"

fun decode_all :: "(bytes \<Rightarrow> (TransactionSigned, 'd) result) \<Rightarrow> bytes list \<Rightarrow> TransactionSigned list option" where
  "decode_all dec [] = Some []"
| "decode_all dec (b # bs) =
     (case dec b of Err _ \<Rightarrow> None | Ok tx \<Rightarrow> map_option ((#) tx) (decode_all dec bs))"

definition extract_transactions ::
  "(bytes \<Rightarrow> (TransactionSigned, 'd) result) \<Rightarrow> SubmitBlockRequest \<Rightarrow> TransactionSigned list option" where
  "extract_transactions dec r =
     (case decode_all dec (pl_transactions (request_payload r)) of
        None \<Rightarrow> None
      | Some txs \<Rightarrow> if txs = [] then None else Some txs)"

definition generate_single_proof ::
  "('t, 'e) trie_ops \<Rightarrow> 't TransactionTrieBuilder \<Rightarrow> B256 \<Rightarrow> B256 \<Rightarrow> u64 \<Rightarrow> u64
     \<Rightarrow> (ConstraintProof \<times> 't TransactionTrieBuilder, 'e ConstraintProofError) result" where
  "generate_single_proof lib b h root block_number slot =
     (case find_tx_index b h of
        Err e \<Rightarrow> Err e
      | Ok i \<Rightarrow>
          (case get_proof lib b i of
             Err e \<Rightarrow> Err e
           | Ok (p, b') \<Rightarrow>
               Ok (\<lparr>cpf_tx_hash = h, cpf_tx_index = i, cpf_proof = p, cpf_transactions_root = root,
                    cpf_block_number = block_number, cpf_slot = slot\<rparr>, b')))"

text \<open>The loop over the constraint transactions; a failed proof leaves trie and storage as they were.\<close>

fun proofs_loop ::
  "('t, 'e) trie_ops \<Rightarrow> 't TransactionTrieBuilder \<Rightarrow> B256 \<Rightarrow> B256 \<Rightarrow> u64 \<Rightarrow> u64 \<Rightarrow> B256 list
     \<Rightarrow> ConstraintProofStorage \<Rightarrow> ConstraintProofStorage" where
  "proofs_loop lib b root block_hash block_number slot [] storage = storage"
| "proofs_loop lib b root block_hash block_number slot (h # hs) storage =
     (case generate_single_proof lib b h root block_number slot of
        Ok (proof, b') \<Rightarrow>
          proofs_loop lib b' root block_hash block_number slot hs
            (add_proof slot block_hash block_number proof storage)
      | Err _ \<Rightarrow> proofs_loop lib b root block_hash block_number slot hs storage)"

definition generate_and_log_constraint_proofs ::
  "('t, 'e) trie_ops \<Rightarrow> (bytes \<Rightarrow> (TransactionSigned, 'd) result) \<Rightarrow> SubmitBlockRequest \<Rightarrow> B256 list
     \<Rightarrow> u64 \<Rightarrow> u64 \<Rightarrow> ConstraintProofStorage \<Rightarrow> ConstraintProofStorage" where
  "generate_and_log_constraint_proofs lib dec r hashes block_number slot storage =
     (case extract_transactions dec r of
        None \<Rightarrow> storage
      | Some txs \<Rightarrow>
          (case build lib txs of
             Err _ \<Rightarrow> storage
           | Ok b \<Rightarrow>
               (case ttb_root lib b of
                  Err _ \<Rightarrow> storage
                | Ok (root, b') \<Rightarrow>
                    proofs_loop lib b' root (extract_block_hash r) block_number slot hashes storage)))"

definition block_submitted ::
  "('t, 'e) trie_ops \<Rightarrow> (bytes \<Rightarrow> (TransactionSigned, 'd) result) \<Rightarrow> SubmitBlockRequest \<Rightarrow> B256 list
     \<Rightarrow> u64 \<Rightarrow> u64 \<Rightarrow> ConstraintProofStorage \<Rightarrow> ConstraintProofStorage" where
  "block_submitted lib dec r appended_constraint_txs block_number slot storage =
     (if appended_constraint_txs = [] then storage
      else generate_and_log_constraint_proofs lib dec r appended_constraint_txs block_number slot storage)"

section \<open>Proofs verify\<close>

text \<open>
  What is relied on of the trie: it stores the last value inserted under a key, and a proof it
  produces for a key is accepted against its root and shows the stored value.  Distinct indices
  have distinct encodings.
\<close>

definition trie_law :: "('t, 'e) trie_ops \<Rightarrow> ('t \<Rightarrow> bytes \<Rightarrow> bytes option) \<Rightarrow> bool" where
  "trie_law lib look \<longleftrightarrow>
     (\<forall>k. look (trie_new lib) k = None) \<and>
     (\<forall>t k v t'. trie_insert lib t k v = Ok t' \<longrightarrow> look t' = (look t)(k \<mapsto> v)) \<and>
     (\<forall>t r t'. trie_root_hash lib t = Ok (r, t') \<longrightarrow> look t' = look t) \<and>
     (\<forall>t k p t'. trie_get_proof lib t k = Ok (p, t') \<longrightarrow> look t' = look t) \<and>
     (\<forall>t0 t1 r t k p t' t''. trie_root_hash lib t0 = Ok (r, t1) \<longrightarrow> look t = look t0 \<longrightarrow>
        trie_get_proof lib t k = Ok (p, t') \<longrightarrow> trie_verify_proof lib t'' r k p = Ok (look t k)) \<and>
     inj (rlp_encode_index lib)"

definition stores_txs :: "('t, 'e) trie_ops \<Rightarrow> ('t \<Rightarrow> bytes \<Rightarrow> bytes option) \<Rightarrow> TransactionSigned list
    \<Rightarrow> 't TransactionTrieBuilder \<Rightarrow> bool" where
  "stores_txs lib look txs b \<longleftrightarrow> ttb_transactions b = map ts_hash txs \<and>
     (\<forall>i < length txs. look (ttb_trie b) (rlp_encode_index lib i) = Some (rlp_encode_tx lib (txs ! i)))"

lemma position_Some: "position P xs = Some i \<Longrightarrow> i < length xs \<and> P (xs ! i)"
  by (induction xs arbitrary: i) (auto split: if_splits)

lemma position_None_iff: "position P xs = None \<longleftrightarrow> (\<forall>x \<in> set xs. \<not> P x)"
  by (induction xs) auto

lemma position_complete: "x \<in> set xs \<Longrightarrow> P x \<Longrightarrow> \<exists>i. position P xs = Some i"
  by (induction xs) auto

lemma build_from_stores:
  assumes law: "trie_law lib look" and "stores_txs lib look pre b"
    and "build_from lib b (length pre) txs = Ok b'"
  shows "stores_txs lib look (pre @ txs) b'"
  using assms(2,3)
proof (induction txs arbitrary: pre b)
  case Nil
  then show ?case by simp
next
  case (Cons tx txs)
  from Cons.prems(2) obtain t where
    t: "trie_insert lib (ttb_trie b) (rlp_encode_index lib (length pre)) (rlp_encode_tx lib tx) = Ok t"
    and rest: "build_from lib \<lparr>ttb_trie = t, ttb_transactions = ttb_transactions b @ [ts_hash tx]\<rparr>
        (length (pre @ [tx])) txs = Ok b'"
    by (auto split: sum.splits)
  have look: "look t = (look (ttb_trie b))(rlp_encode_index lib (length pre) \<mapsto> rlp_encode_tx lib tx)"
    using law t unfolding trie_law_def by blast
  have "inj (rlp_encode_index lib)" using law unfolding trie_law_def by blast
  then have "stores_txs lib look (pre @ [tx]) \<lparr>ttb_trie = t, ttb_transactions = ttb_transactions b @ [ts_hash tx]\<rparr>"
    using Cons.prems(1) by (auto simp: stores_txs_def look nth_append less_Suc_eq dest: injD)
  from Cons.IH [OF this rest] show ?case by simp
qed

lemma build_stores: "trie_law lib look \<Longrightarrow> build lib txs = Ok b \<Longrightarrow> stores_txs lib look txs b"
  unfolding build_def
  by (rule build_from_stores [where pre = "[]", simplified])
    (simp_all add: stores_txs_def TransactionTrieBuilder_new_def)

text \<open>A proof that belongs to a block: verified against its root it shows the transaction with its hash.\<close>

definition proof_sound ::
  "('t, 'e) trie_ops \<Rightarrow> TransactionSigned list \<Rightarrow> B256 \<Rightarrow> ConstraintProof \<Rightarrow> bool" where
  "proof_sound lib txs root pf \<longleftrightarrow> cpf_transactions_root pf = root \<and>
     cpf_tx_index pf < length txs \<and> ts_hash (txs ! cpf_tx_index pf) = cpf_tx_hash pf \<and>
     (\<forall>any. verify_proof lib any (cpf_tx_index pf) (cpf_proof pf) root =
        Ok (rlp_encode_tx lib (txs ! cpf_tx_index pf)))"

lemma generate_single_proof_sound:
  assumes law: "trie_law lib look" and st: "stores_txs lib look txs b"
    and root: "trie_root_hash lib t0 = Ok (root, t1)" and same: "look (ttb_trie b) = look t0"
    and gen: "generate_single_proof lib b h root bn slot = Ok (pf, b')"
  shows "proof_sound lib txs root pf \<and> cpf_tx_hash pf = h \<and> stores_txs lib look txs b' \<and>
    look (ttb_trie b') = look t0"
proof -
  from gen obtain i p where i: "find_tx_index b h = (Ok i :: (nat, 'b ConstraintProofError) result)"
    and p: "get_proof lib b i = Ok (p, b')"
    and pf: "pf = \<lparr>cpf_tx_hash = h, cpf_tx_index = i, cpf_proof = p, cpf_transactions_root = root,
      cpf_block_number = bn, cpf_slot = slot\<rparr>"
    by (auto simp: generate_single_proof_def split: sum.splits)
  from i st have idx: "i < length txs" "ts_hash (txs ! i) = h"
    by (auto simp: find_tx_index_def stores_txs_def split: option.splits dest: position_Some)
  from p obtain t where t: "trie_get_proof lib (ttb_trie b) (rlp_encode_index lib i) = Ok (p, t)"
    and b': "b' = b\<lparr>ttb_trie := t\<rparr>"
    by (auto simp: get_proof_def split: if_splits sum.splits)
  have "look t = look (ttb_trie b)" using law t unfolding trie_law_def by blast
  moreover have "trie_verify_proof lib t'' root (rlp_encode_index lib i) p =
      Ok (look (ttb_trie b) (rlp_encode_index lib i))" for t''
    using law root same t unfolding trie_law_def by blast
  then have "verify_proof lib any i p root = Ok (rlp_encode_tx lib (txs ! i))" for any
    using st idx by (simp add: verify_proof_def stores_txs_def)
  ultimately show ?thesis
    using idx st same b' pf by (simp add: proof_sound_def stores_txs_def)
qed

section \<open>The storage keeps the newest slots\<close>

type_synonym proof_entry = "u64 \<times> B256 \<times> u64 \<times> ConstraintProof"

definition add_entry :: "ConstraintProofStorage \<Rightarrow> proof_entry \<Rightarrow> ConstraintProofStorage" where
  "add_entry st e = (case e of (slot, bh, bn, pf) \<Rightarrow> add_proof slot bh bn pf st)"

lemma add_entry_simp [simp]: "add_entry st (slot, bh, bn, pf) = add_proof slot bh bn pf st"
  by (simp add: add_entry_def)

text \<open>\<open>is_top n A T\<close>: \<open>T\<close> holds the \<open>n\<close> largest elements of \<open>A\<close>, or all if there are fewer.\<close>

definition is_top :: "nat \<Rightarrow> 'a::linorder set \<Rightarrow> 'a set \<Rightarrow> bool" where
  "is_top n A T \<longleftrightarrow> T \<subseteq> A \<and> card T = min n (card A) \<and> (\<forall>a \<in> A - T. \<forall>t \<in> T. a < t)"

lemma is_top_insert:
  assumes "finite A" and top: "is_top n A K" and "0 < n"
  shows "is_top n (insert s A)
    (if n < card (insert s K) then insert s K - {Min (insert s K)} else insert s K)"
proof (cases "n < card (insert s K)")
  case False
  have K: "K \<subseteq> A" "card K = min n (card A)" "finite K"
    using top assms(1) by (auto simp: is_top_def intro: finite_subset)
  show ?thesis
  proof (cases "s \<in> K")
    case True
    with False K top show ?thesis by (auto simp: is_top_def insert_absorb)
  next
    case s: False
    with False K have "card K < n" by simp
    with K assms(1) have "K = A" by (simp add: card_subset_eq)
    with False s K assms(1) show ?thesis by (simp add: is_top_def)
  qed
next
  case True
  let ?K = "insert s K" and ?m = "Min (insert s K)"
  have K: "K \<subseteq> A" "card K \<le> n" "finite K" "card K = min n (card A)"
    using top assms(1) by (auto simp: is_top_def intro: finite_subset)
  then have "s \<notin> K" using True by (auto simp: insert_absorb)
  then have card: "card ?K = Suc n" using True K by simp
  have m: "?m \<in> ?K" "\<And>x. x \<in> ?K \<Longrightarrow> ?m \<le> x"
    using K(3) by (simp only: Min_in finite_insert insert_not_empty not_False_eq_True)
      (simp add: K(3))
  have "card (insert s A) > n"
    using True K(1) assms(1) card_mono [of "insert s A" ?K] by fastforce
  moreover have "card (?K - {?m}) = n" using card m(1) K(3) by (simp add: card_Diff_singleton)
  moreover have "a < t" if a: "a \<in> insert s A - (?K - {?m})" and t: "t \<in> ?K - {?m}" for a t
  proof (cases "a = ?m")
    case True
    with t m(2) [of t] show ?thesis by auto
  next
    case False
    with a have aA: "a \<in> A - K" by auto
    show ?thesis
    proof (cases "t \<in> K")
      case True
      with aA top show ?thesis by (auto simp: is_top_def)
    next
      case False
      with t have "t = s" "?m \<in> K" using m(1) by auto
      with aA top have "a < ?m" by (auto simp: is_top_def)
      also have "?m \<le> t" using t m(2) by auto
      finally show ?thesis .
    qed
  qed
  ultimately show ?thesis using True K(1) by (auto simp: is_top_def)
qed

lemma is_top_evict:
  assumes "finite A" and "is_top n A K" and "s \<in> A - K"
  shows "n < card (insert s K) \<and> Min (insert s K) = s"
proof -
  have K: "K \<subseteq> A" "finite K" and c: "card K = min n (card A)"
    using assms(1,2) by (auto simp: is_top_def intro: finite_subset)
  have "K \<subset> A" using K(1) assms(3) by blast
  then have "card K < card A" using assms(1) by (simp add: psubset_card_mono)
  with c have "card K = n" by simp
  moreover have "Min (insert s K) = s"
    using K(2) assms(2,3) by (intro Min_eqI) (auto simp: is_top_def less_imp_le)
  ultimately show ?thesis using K(2) assms(3) by simp
qed

definition slots_of :: "proof_entry list \<Rightarrow> u64 set" where
  "slots_of hist = fst ` set hist"

definition block_summary :: "proof_entry list \<Rightarrow> u64 \<Rightarrow> B256 \<Rightarrow> BlockProofs option" where
  "block_summary hist slot bh =
     (case filter (\<lambda>e. fst e = slot \<and> fst (snd e) = bh) hist of
        [] \<Rightarrow> None
      | e # es \<Rightarrow> Some \<lparr>bp_block_hash = bh, bp_block_number = fst (snd (snd e)),
                       bp_proofs = map (\<lambda>x. snd (snd (snd x))) (e # es)\<rparr>)"

definition storage_inv :: "proof_entry list \<Rightarrow> ConstraintProofStorage \<Rightarrow> bool" where
  "storage_inv hist st \<longleftrightarrow> distinct (map fst st) \<and>
     is_top MAX_SLOTS_TO_KEEP (slots_of hist) (fst ` set st) \<and>
     (\<forall>slot blocks. map_of st slot = Some blocks \<longrightarrow>
        distinct (map fst blocks) \<and> (\<forall>bh. map_of blocks bh = block_summary hist slot bh))"

lemma block_summary_snoc:
  "block_summary (hist @ [(slot, bh, bn, pf)]) slot' bh' =
     (if slot' = slot \<and> bh' = bh then
        (case block_summary hist slot bh of
           None \<Rightarrow> Some \<lparr>bp_block_hash = bh, bp_block_number = bn, bp_proofs = [pf]\<rparr>
         | Some be \<Rightarrow> Some (be\<lparr>bp_proofs := bp_proofs be @ [pf]\<rparr>))
      else block_summary hist slot' bh')"
  by (auto simp: block_summary_def split: list.splits)

lemma block_summary_None: "slot \<notin> slots_of hist \<Longrightarrow> block_summary hist slot bh = None"
  by (auto simp: block_summary_def slots_of_def filter_empty_conv split: list.splits
      dest!: filter_eq_ConsD)

text \<open>The storage before the cleanup of \<^verbatim>\<open>add_proof\<close>.\<close>

definition with_proof :: "u64 \<Rightarrow> B256 \<Rightarrow> u64 \<Rightarrow> ConstraintProof \<Rightarrow> ConstraintProofStorage \<Rightarrow> ConstraintProofStorage" where
  "with_proof slot block_hash block_number proof storage =
     alist_modify slot (\<lambda>e.
       alist_modify block_hash (\<lambda>b.
         (case b of
            None \<Rightarrow> \<lparr>bp_block_hash = block_hash, bp_block_number = block_number, bp_proofs = [proof]\<rparr>
          | Some be \<Rightarrow> be\<lparr>bp_proofs := bp_proofs be @ [proof]\<rparr>))
         (case e of None \<Rightarrow> [] | Some slot_entry \<Rightarrow> slot_entry)) storage"

lemma add_proof_with_proof:
  "add_proof slot bh bn pf st =
     (if MAX_SLOTS_TO_KEEP < length (with_proof slot bh bn pf st)
      then filter (\<lambda>kv. fst kv \<noteq> Min (set (map fst (with_proof slot bh bn pf st)))) (with_proof slot bh bn pf st)
      else with_proof slot bh bn pf st)"
  by (simp add: add_proof_def with_proof_def Let_def)

lemma keys_with_proof: "fst ` set (with_proof slot bh bn pf st) = insert slot (fst ` set st)"
  by (simp add: with_proof_def alist_modify_def keys_alist_update)

lemma keys_filter_neq: "fst ` {kv \<in> A. fst kv \<noteq> m} = fst ` A - {m}"
  by force

lemma keys_add_proof:
  assumes "distinct (map fst st)"
  shows "distinct (map fst (add_proof slot bh bn pf st))"
    and "fst ` set (add_proof slot bh bn pf st) =
      (if MAX_SLOTS_TO_KEEP < card (insert slot (fst ` set st))
       then insert slot (fst ` set st) - {Min (insert slot (fst ` set st))} else insert slot (fst ` set st))"
proof -
  let ?w = "with_proof slot bh bn pf st"
  have d: "distinct (map fst ?w)" using assms by (simp add: with_proof_def)
  have "length ?w = card (set (map fst ?w))" using distinct_card [OF d] by simp
  then have "length ?w = card (insert slot (fst ` set st))" by (simp add: keys_with_proof)
  then show "fst ` set (add_proof slot bh bn pf st) =
      (if MAX_SLOTS_TO_KEEP < card (insert slot (fst ` set st))
       then insert slot (fst ` set st) - {Min (insert slot (fst ` set st))} else insert slot (fst ` set st))"
    by (simp add: add_proof_with_proof keys_filter_neq keys_with_proof)
  show "distinct (map fst (add_proof slot bh bn pf st))"
    unfolding add_proof_with_proof using d by simp
qed

lemma map_of_add_proof:
  "s \<in> fst ` set (add_proof slot bh bn pf st) \<Longrightarrow>
   map_of (add_proof slot bh bn pf st) s = map_of (with_proof slot bh bn pf st) s"
  unfolding add_proof_with_proof
  by (auto simp: map_of_filter_key [where P = "\<lambda>x. x \<noteq> _"] split: if_splits)

lemma storage_inv_add:
  assumes inv: "storage_inv hist st"
  shows "storage_inv (hist @ [(slot, bh, bn, pf)]) (add_proof slot bh bn pf st)"
proof -
  let ?st = "add_proof slot bh bn pf st" and ?h = "hist @ [(slot, bh, bn, pf)]"
  have fin: "finite (slots_of hist)" by (simp add: slots_of_def)
  have d: "distinct (map fst st)" and top: "is_top MAX_SLOTS_TO_KEEP (slots_of hist) (fst ` set st)"
    using inv by (simp_all add: storage_inv_def)
  have slots: "slots_of ?h = insert slot (slots_of hist)" by (simp add: slots_of_def)
  have top': "is_top MAX_SLOTS_TO_KEEP (slots_of ?h) (fst ` set ?st)"
    unfolding slots keys_add_proof(2) [OF d]
    using is_top_insert [OF fin top] by (simp add: MAX_SLOTS_TO_KEEP_def)
  have fresh: "slot \<in> fst ` set st \<or> slot \<notin> slots_of hist" if "slot \<in> fst ` set ?st"
    using that is_top_evict [OF fin top, of slot] keys_add_proof(2) [OF d, of slot bh bn pf] by auto
  have "distinct (map fst blocks) \<and> (\<forall>bh'. map_of blocks bh' = block_summary ?h s bh')"
    if "map_of ?st s = Some blocks" for s blocks
  proof -
    from that have s: "s \<in> fst ` set ?st" by (metis map_of_eq_None_iff option.distinct(1))
    then have w: "map_of (with_proof slot bh bn pf st) s = Some blocks"
      using that map_of_add_proof by metis
    show ?thesis
    proof (cases "s = slot")
      case False
      with w have "map_of st s = Some blocks" by (simp add: with_proof_def)
      with inv False show ?thesis by (auto simp: storage_inv_def block_summary_snoc)
    next
      case True
      have none: "block_summary hist slot bh' = None" if "map_of st slot = None" for bh'
      proof -
        from that have "slot \<notin> fst ` set st" by (simp add: map_of_eq_None_iff)
        with fresh s True show ?thesis by (auto intro: block_summary_None)
      qed
      show ?thesis
      proof (cases "map_of st slot")
        case None
        with w True none [OF None] show ?thesis
          by (auto simp: with_proof_def block_summary_snoc)
      next
        case (Some bs)
        with inv have "distinct (map fst bs)" "\<forall>bh'. map_of bs bh' = block_summary hist slot bh'"
          by (auto simp: storage_inv_def)
        with w True Some show ?thesis
          by (auto simp: with_proof_def block_summary_snoc split: option.splits)
      qed
    qed
  qed
  with top' keys_add_proof(1) [OF d] show ?thesis by (simp add: storage_inv_def)
qed

lemma storage_inv_run: "storage_inv hist (foldl add_entry [] hist)"
proof (induction hist rule: rev_induct)
  case Nil
  then show ?case by (simp add: storage_inv_def slots_of_def is_top_def)
next
  case (snoc e hist)
  then show ?case by (cases e) (simp add: add_entry_def storage_inv_add)
qed

lemma sp_slot_get_recent_proofs:
  "map sp_slot (get_recent_proofs ord st) = rev (sort (map fst st))"
proof -
  have "\<exists>blocks. map_of st slot = Some blocks" if "slot \<in> set (rev (sort (map fst st)))" for slot
    using that by (metis map_of_eq_None_iff not_None_eq set_map set_rev set_sort)
  then have "map sp_slot (List.map_filter (\<lambda>slot. map_option (\<lambda>blocks.
      \<lparr>sp_slot = slot, sp_blocks = ord (map snd blocks)\<rparr>) (map_of st slot)) slots) = slots"
    if "set slots \<subseteq> set (rev (sort (map fst st)))" for slots
    using that by (induction slots) (fastforce simp: List.map_filter_def)+
  then show ?thesis by (simp add: get_recent_proofs_def)
qed

lemma in_get_recent_proofs:
  "sp \<in> set (get_recent_proofs ord st) \<Longrightarrow>
   \<exists>blocks. map_of st (sp_slot sp) = Some blocks \<and> sp_blocks sp = ord (map snd blocks)"
  by (auto simp: get_recent_proofs_def List.map_filter_def)

section \<open>Properties\<close>

lemma proofs_loop_sound:
  assumes law: "trie_law lib look" and root: "trie_root_hash lib t0 = Ok (root, t1)"
    and total: "\<forall>t k. \<exists>p t'. trie_get_proof lib t k = Ok (p, t')"
    and "stores_txs lib look txs b" and "look (ttb_trie b) = look t0"
  shows "\<exists>pfs. proofs_loop lib b root bh bn slot hs st =
      foldl add_entry st (map (\<lambda>pf. (slot, bh, bn, pf)) pfs) \<and>
    map cpf_tx_hash pfs = filter (\<lambda>h. h \<in> ts_hash ` set txs) hs \<and>
    (\<forall>pf \<in> set pfs. proof_sound lib txs root pf)"
  using assms(4,5)
proof (induction hs arbitrary: b st)
  case Nil
  then show ?case by (intro exI [of _ "[]"]) simp
next
  case (Cons h hs)
  show ?case
  proof (cases "h \<in> ts_hash ` set txs")
    case True
    then obtain i where i: "position (\<lambda>x. x = h) (map ts_hash txs) = Some i"
      using position_complete [of h "map ts_hash txs" "\<lambda>x. x = h"] by auto
    then have len: "i < length (map ts_hash txs)" using position_Some by blast
    have txs: "ttb_transactions b = map ts_hash txs" using Cons.prems(1) by (simp add: stores_txs_def)
    obtain p t' where "trie_get_proof lib (ttb_trie b) (rlp_encode_index lib i) = Ok (p, t')"
      using total by blast
    then obtain pf b' where gen: "generate_single_proof lib b h root bn slot = Ok (pf, b')"
      using i len by (simp add: generate_single_proof_def find_tx_index_def get_proof_def txs)
    note sound = generate_single_proof_sound [OF law Cons.prems(1) root Cons.prems(2) gen]
    from Cons.IH [of b' "add_proof slot bh bn pf st"] sound obtain pfs where
      "proofs_loop lib b' root bh bn slot hs (add_proof slot bh bn pf st) =
         foldl add_entry (add_proof slot bh bn pf st) (map (\<lambda>pf. (slot, bh, bn, pf)) pfs)"
      "map cpf_tx_hash pfs = filter (\<lambda>h. h \<in> ts_hash ` set txs) hs"
      "\<forall>pf \<in> set pfs. proof_sound lib txs root pf" by auto
    with gen sound True show ?thesis
      by (intro exI [of _ "pf # pfs"]) simp
  next
    case False
    then have "find_tx_index b h = (Err (TxHashNotFound h) :: (nat, 'b ConstraintProofError) result)"
      using Cons.prems(1) position_None_iff [of "\<lambda>x. x = h" "map ts_hash txs"]
      by (auto simp: find_tx_index_def stores_txs_def)
    with Cons False show ?thesis by (simp add: generate_single_proof_def)
  qed
qed


text \<open>
  C24: The proof storage keeps the newest slots.  After any sequence of additions the response lists,
  in strictly descending order, the ten largest slot numbers ever added (or all of them), and for
  each of them every block with all the proofs that were ever added for it, in order.
\<close>

theorem recent_proofs_complete:
  assumes "arrangement ord"
  shows "sorted_wrt (>) (map sp_slot (get_recent_proofs ord (foldl add_entry [] hist))) \<and>
    is_top MAX_SLOTS_TO_KEEP (slots_of hist)
      (set (map sp_slot (get_recent_proofs ord (foldl add_entry [] hist)))) \<and>
    (\<forall>sp \<in> set (get_recent_proofs ord (foldl add_entry [] hist)).
       set (sp_blocks sp) = {be. \<exists>bh. block_summary hist (sp_slot sp) bh = Some be})"
proof -
  let ?st = "foldl add_entry [] hist"
  have inv: "storage_inv hist ?st" by (rule storage_inv_run)
  then have d: "distinct (map fst ?st)" by (simp add: storage_inv_def)
  have "sorted_wrt (<) (sort (map fst ?st))" using d by (simp add: strict_sorted_iff)
  then have "sorted_wrt (>) (map sp_slot (get_recent_proofs ord ?st))"
    by (simp add: sp_slot_get_recent_proofs sorted_wrt_rev)
  moreover have "set (map sp_slot (get_recent_proofs ord ?st)) = fst ` set ?st"
    by (simp only: sp_slot_get_recent_proofs) simp
  moreover have "set (sp_blocks sp) = {be. \<exists>bh. block_summary hist (sp_slot sp) bh = Some be}"
    if "sp \<in> set (get_recent_proofs ord ?st)" for sp
  proof -
    from in_get_recent_proofs [OF that] obtain blocks where
      b: "map_of ?st (sp_slot sp) = Some blocks" "sp_blocks sp = ord (map snd blocks)" by blast
    with inv have db: "distinct (map fst blocks)"
      and look: "\<And>bh. map_of blocks bh = block_summary hist (sp_slot sp) bh"
      by (auto simp: storage_inv_def)
    have "set (sp_blocks sp) = snd ` set blocks" using b(2) assms by (simp add: arrangement_set)
    also have "\<dots> = {be. \<exists>bh. map_of blocks bh = Some be}" using db by force
    finally show ?thesis by (simp add: look)
  qed
  ultimately show ?thesis using inv by (simp add: storage_inv_def)
qed

definition sample_proof :: "u64 \<Rightarrow> ConstraintProof" where
  "sample_proof slot = \<lparr>cpf_tx_hash = 1, cpf_tx_index = 0, cpf_proof = [], cpf_transactions_root = 2,
     cpf_block_number = 3, cpf_slot = slot\<rparr>"

theorem recent_proofs_complete_witness:
  "map sp_slot (get_recent_proofs rev (foldl add_entry []
     (map (\<lambda>slot. (slot, 5, 6, sample_proof slot)) [1, 2, 3, 4, 5, 6, 7, 8, 9, 10, 11]))) =
   [11, 10, 9, 8, 7, 6, 5, 4, 3, 2] \<and>
   sorted_wrt (>) (map sp_slot (get_recent_proofs rev (foldl add_entry []
     (map (\<lambda>slot. (slot, 5, 6, sample_proof slot)) [1, 2, 3, 4, 5, 6, 7, 8, 9, 10, 11]))))"
proof (rule conjI)
  show "map sp_slot (get_recent_proofs rev (foldl add_entry []
     (map (\<lambda>slot. (slot, 5, 6, sample_proof slot)) [1, 2, 3, 4, 5, 6, 7, 8, 9, 10, 11]))) =
   [11, 10, 9, 8, 7, 6, 5, 4, 3, 2]"
    unfolding sp_slot_get_recent_proofs
    by (simp add: add_entry_def add_proof_def alist_modify_def MAX_SLOTS_TO_KEEP_def)
qed (rule recent_proofs_complete [OF arrangement_rev, THEN conjunct1])

text \<open>A trie that is an association list satisfies the assumed laws.\<close>

definition list_trie :: "((bytes \<times> bytes) list, unit) trie_ops" where
  "list_trie = \<lparr>trie_new = [], trie_insert = (\<lambda>t k v. Ok (alist_update k v t)),
     trie_root_hash = (\<lambda>t. Ok (0, t)),
     trie_get_proof = (\<lambda>t k. Ok (case map_of t k of None \<Rightarrow> [] | Some v \<Rightarrow> [v], t)),
     trie_verify_proof = (\<lambda>_ _ _ p. Ok (case p of [] \<Rightarrow> None | v # _ \<Rightarrow> Some v)),
     rlp_encode_index = (\<lambda>n. replicate n 0), rlp_encode_tx = (\<lambda>tx. [ucast (ts_hash tx)])\<rparr>"

lemma list_trie_law: "trie_law list_trie (\<lambda>t. map_of t)"
proof -
  have "inj (\<lambda>n. replicate n (0::u8))" by (rule injI) (metis length_replicate)
  then show ?thesis by (auto simp: trie_law_def list_trie_def split: option.splits)
qed

definition sample_signed :: "B256 \<Rightarrow> TransactionSigned" where
  "sample_signed h = \<lparr>ts_hash = h, ts_nonce = 0, ts_gas_limit = 21000, ts_max_fee_per_gas = 1,
     ts_to = None, ts_value = 0, ts_length = 100, ts_blob_versioned_hashes = None\<rparr>"


end
