(* ===== verification/Order_Replacement.thy ===== *)
theory Order_Replacement
  imports Order_Laws Interfaces
begin

text \<open>
  Order sinks and the replacement of orders (\<^verbatim>\<open>rbuilder/src/live_builder/order_input/order_sink.rs\<close> and
  \<^verbatim>\<open>order_replacement_manager.rs\<close>).  Bundles can be replaced and cancelled by their senders; the
  notifications may arrive in any order and carry sequence numbers.  The manager turns them into
  plain insertions and removals for a sink.
\<close>

section \<open>Order sinks\<close>

record 's order_sink_ops =
  os_insert_order :: "'s \<Rightarrow> Order \<Rightarrow> bool \<times> 's"
  os_remove_order :: "'s \<Rightarrow> OrderId \<Rightarrow> bool \<times> 's"
  os_is_alive :: "'s \<Rightarrow> bool"

text \<open>
  The contract of the trait \<^verbatim>\<open>OrderSink\<close>: an operation that reports success has taken effect on the
  orders the sink stands for.
\<close>

locale order_sink =
  fixes ops :: "'s order_sink_ops"
    and view :: "'s \<Rightarrow> OrderId \<Rightarrow> Order option"
  assumes insert_order_view:
      "os_insert_order ops s od = (True, s') \<Longrightarrow> view s' = (view s)(order_id od \<mapsto> od)"
    and remove_order_view:
      "os_remove_order ops s i = (True, s') \<Longrightarrow> view s' = (view s)(i := None)"

text \<open>\<^verbatim>\<open>OrderStore\<close>: a hash map from identifiers to orders.\<close>

type_synonym OrderStore = "(OrderId \<times> Order) list"

definition OrderStore_ops :: "OrderStore order_sink_ops" where
  "OrderStore_ops =
     \<lparr>os_insert_order = (\<lambda>orders od. (True, alist_update (order_id od) od orders)),
      os_remove_order = (\<lambda>orders i. (True, filter (\<lambda>kv. fst kv \<noteq> i) orders)),
      os_is_alive = (\<lambda>_. True)\<rparr>"

definition OrderStore_orders :: "(Order list \<Rightarrow> Order list) \<Rightarrow> OrderStore \<Rightarrow> Order list" where
  "OrderStore_orders ord orders = ord (map snd orders)"

interpretation order_store: order_sink OrderStore_ops map_of
proof
  show "map_of s' = (map_of s)(order_id od \<mapsto> od)" if "os_insert_order OrderStore_ops s od = (True, s')" for s od s'
    using that by (auto simp: OrderStore_ops_def)
  show "map_of s' = (map_of s)(i := None)" if "os_remove_order OrderStore_ops s i = (True, s')" for s i s'
    using that by (auto simp: OrderStore_ops_def map_of_filter_key [where P = "\<lambda>x. x \<noteq> i"])
qed

datatype OrderPoolCommand = OP_Insert Order | OP_Remove OrderId

fun apply_command :: "(OrderId \<Rightarrow> Order option) \<Rightarrow> OrderPoolCommand \<Rightarrow> (OrderId \<Rightarrow> Order option)" where
  "apply_command m (OP_Insert od) = m(order_id od \<mapsto> od)"
| "apply_command m (OP_Remove i) = m(i := None)"

text \<open>The printing sink, whose state is what it printed, stands for the effect of its log.\<close>

definition OrderPrinter_ops :: "OrderPoolCommand list order_sink_ops" where
  "OrderPrinter_ops =
     \<lparr>os_insert_order = (\<lambda>printed od. (True, printed @ [OP_Insert od])),
      os_remove_order = (\<lambda>printed i. (True, printed @ [OP_Remove i])),
      os_is_alive = (\<lambda>_. True)\<rparr>"

interpretation order_printer: order_sink OrderPrinter_ops "foldl apply_command (\<lambda>_. None)"
  by unfold_locales (auto simp: OrderPrinter_ops_def)

text \<open>The sink over an unbounded channel of a library; sending succeeds while the receiver is there.\<close>

definition OrderSender2OrderSink_ops :: "('ch, OrderPoolCommand) channel_ops \<Rightarrow> 'ch order_sink_ops" where
  "OrderSender2OrderSink_ops ch =
     \<lparr>os_insert_order = (\<lambda>sender od. ch_send ch sender (OP_Insert od)),
      os_remove_order = (\<lambda>sender i. ch_send ch sender (OP_Remove i)),
      os_is_alive = (\<lambda>sender. \<not> ch_is_closed ch sender)\<rparr>"

lemma sender_order_sink:
  "channel_law ch queue \<Longrightarrow>
   order_sink (OrderSender2OrderSink_ops ch) (\<lambda>s. foldl apply_command (\<lambda>_. None) (queue s))"
  by unfold_locales (simp_all add: OrderSender2OrderSink_ops_def channel_send_ok)

section \<open>The replacement manager\<close>

datatype BundleReplacementState =
    Valid_state u64 OrderId
  | Cancelled_state u64

fun brs_sequence_number :: "BundleReplacementState \<Rightarrow> u64" where
  "brs_sequence_number (Valid_state n _) = n"
| "brs_sequence_number (Cancelled_state n) = n"

fun send_remove_order_if_needed :: "'s order_sink_ops \<Rightarrow> BundleReplacementState \<Rightarrow> 's \<Rightarrow> bool \<times> 's" where
  "send_remove_order_if_needed ops (Valid_state _ i) sink = os_remove_order ops sink i"
| "send_remove_order_if_needed ops (Cancelled_state _) sink = (True, sink)"

definition brs_insert_order ::
  "'s order_sink_ops \<Rightarrow> BundleReplacementState \<Rightarrow> Order \<Rightarrow> u64 \<Rightarrow> 's \<Rightarrow> bool \<times> BundleReplacementState \<times> 's" where
  "brs_insert_order ops st od sequence_number sink =
     (if sequence_number \<le> brs_sequence_number st then (True, st, sink)
      else let (res, sink1) = send_remove_order_if_needed ops st sink;
               (ok, sink2) = os_insert_order ops sink1 od
           in (res \<and> ok, Valid_state sequence_number (order_id od), sink2))"

definition brs_cancel_order ::
  "'s order_sink_ops \<Rightarrow> BundleReplacementState \<Rightarrow> u64 \<Rightarrow> 's \<Rightarrow> bool \<times> BundleReplacementState \<times> 's" where
  "brs_cancel_order ops st sequence_number sink =
     (if sequence_number \<le> brs_sequence_number st then (True, st, sink)
      else let (res, sink1) = send_remove_order_if_needed ops st sink
           in (res, Cancelled_state sequence_number, sink1))"

record 's OrderReplacementManager =
  orm_sink :: 's
  replacement_states :: "OrderReplacementKey \<Rightarrow> BundleReplacementState option"

definition OrderReplacementManager_new :: "'s \<Rightarrow> 's OrderReplacementManager" where
  "OrderReplacementManager_new sink = \<lparr>orm_sink = sink, replacement_states = (\<lambda>_. None)\<rparr>"

definition SBUNDLE_SEQUENCE_NUMBER :: u64 where
  "SBUNDLE_SEQUENCE_NUMBER = - 1"

definition orm_insert_order ::
  "'s order_sink_ops \<Rightarrow> Order \<Rightarrow> 's OrderReplacementManager \<Rightarrow> bool \<times> 's OrderReplacementManager" where
  "orm_insert_order ops od m =
     (case replacement_key_and_sequence_number od of
        Some (rep_key, sequence_number) \<Rightarrow>
          (case replacement_states m rep_key of
             Some st \<Rightarrow>
               (let (ok, st', sink') = brs_insert_order ops st od sequence_number (orm_sink m)
                in (ok, m\<lparr>orm_sink := sink', replacement_states := (replacement_states m)(rep_key \<mapsto> st')\<rparr>))
           | None \<Rightarrow>
               (let (ok, sink') = os_insert_order ops (orm_sink m) od
                in (ok, m\<lparr>orm_sink := sink', replacement_states :=
                      (replacement_states m)(rep_key \<mapsto> Valid_state sequence_number (order_id od))\<rparr>)))
      | None \<Rightarrow>
          (let (ok, sink') = os_insert_order ops (orm_sink m) od in (ok, m\<lparr>orm_sink := sink'\<rparr>)))"

definition orm_cancel ::
  "'s order_sink_ops \<Rightarrow> OrderReplacementKey \<Rightarrow> u64 \<Rightarrow> 's OrderReplacementManager
     \<Rightarrow> bool \<times> 's OrderReplacementManager" where
  "orm_cancel ops key sequence_number m =
     (case replacement_states m key of
        Some st \<Rightarrow>
          (let (ok, st', sink') = brs_cancel_order ops st sequence_number (orm_sink m)
           in (ok, m\<lparr>orm_sink := sink', replacement_states := (replacement_states m)(key \<mapsto> st')\<rparr>))
      | None \<Rightarrow>
          (True, m\<lparr>replacement_states := (replacement_states m)(key \<mapsto> Cancelled_state sequence_number)\<rparr>))"

definition orm_remove_bundle ::
  "'s order_sink_ops \<Rightarrow> BundleReplacementKey ReplacementData \<Rightarrow> 's OrderReplacementManager
     \<Rightarrow> bool \<times> 's OrderReplacementManager" where
  "orm_remove_bundle ops rd m = orm_cancel ops (ORK_Bundle (rd_key rd)) (rd_sequence_number rd) m"

definition orm_remove_sbundle ::
  "'s order_sink_ops \<Rightarrow> ShareBundleReplacementKey \<Rightarrow> 's OrderReplacementManager
     \<Rightarrow> bool \<times> 's OrderReplacementManager" where
  "orm_remove_sbundle ops key m = orm_cancel ops (ORK_ShareBundle key) SBUNDLE_SEQUENCE_NUMBER m"

definition orm_is_alive :: "'s order_sink_ops \<Rightarrow> 's OrderReplacementManager \<Rightarrow> bool" where
  "orm_is_alive ops m = os_is_alive ops (orm_sink m)"

section \<open>Runs\<close>

datatype replace_event =
    Ev_Insert Order
  | Ev_Remove_bundle "BundleReplacementKey ReplacementData"
  | Ev_Remove_sbundle ShareBundleReplacementKey

fun orm_step ::
  "'s order_sink_ops \<Rightarrow> 's OrderReplacementManager \<Rightarrow> replace_event \<Rightarrow> bool \<times> 's OrderReplacementManager" where
  "orm_step ops m (Ev_Insert od) = orm_insert_order ops od m"
| "orm_step ops m (Ev_Remove_bundle rd) = orm_remove_bundle ops rd m"
| "orm_step ops m (Ev_Remove_sbundle key) = orm_remove_sbundle ops key m"

text \<open>All events in turn, and whether the sink accepted everything.\<close>

fun orm_run ::
  "'s order_sink_ops \<Rightarrow> 's OrderReplacementManager \<Rightarrow> replace_event list \<Rightarrow> bool \<times> 's OrderReplacementManager" where
  "orm_run ops m [] = (True, m)"
| "orm_run ops m (e # es) =
     (let (ok, m') = orm_step ops m e; (oks, m'') = orm_run ops m' es in (ok \<and> oks, m''))"

section \<open>Specification: the newest notification wins\<close>

fun ev_key_seq :: "replace_event \<Rightarrow> (OrderReplacementKey \<times> u64) option" where
  "ev_key_seq (Ev_Insert od) = replacement_key_and_sequence_number od"
| "ev_key_seq (Ev_Remove_bundle rd) = Some (ORK_Bundle (rd_key rd), rd_sequence_number rd)"
| "ev_key_seq (Ev_Remove_sbundle key) = Some (ORK_ShareBundle key, SBUNDLE_SEQUENCE_NUMBER)"

definition ev_key :: "replace_event \<Rightarrow> OrderReplacementKey option" where
  "ev_key e = map_option fst (ev_key_seq e)"

definition ev_seq :: "replace_event \<Rightarrow> u64" where
  "ev_seq e = (case ev_key_seq e of None \<Rightarrow> 0 | Some (_, n) \<Rightarrow> n)"

definition newer :: "OrderReplacementKey \<Rightarrow> replace_event option \<Rightarrow> replace_event \<Rightarrow> replace_event option" where
  "newer k best e =
     (if ev_key e = Some k \<and> (case best of None \<Rightarrow> True | Some b \<Rightarrow> ev_seq b < ev_seq e) then Some e else best)"

definition newest :: "replace_event list \<Rightarrow> OrderReplacementKey \<Rightarrow> replace_event option" where
  "newest evs k = foldl (newer k) None evs"

fun state_of_event :: "replace_event \<Rightarrow> BundleReplacementState" where
  "state_of_event (Ev_Insert od) = Valid_state (ev_seq (Ev_Insert od)) (order_id od)"
| "state_of_event e = Cancelled_state (ev_seq e)"

definition last_plain :: "replace_event list \<Rightarrow> OrderId \<Rightarrow> Order option" where
  "last_plain evs i = foldl (\<lambda>acc e. case e of
     Ev_Insert od \<Rightarrow> if replacement_key od = None \<and> order_id od = i then Some od else acc | _ \<Rightarrow> acc) None evs"

text \<open>
  The orders that should be live: orders that cannot be replaced, and for every replacement key the
  order of the newest notification unless that is a cancellation.
\<close>

definition live :: "replace_event list \<Rightarrow> Order \<Rightarrow> bool" where
  "live evs od = (case replacement_key od of
     None \<Rightarrow> last_plain evs (order_id od) = Some od
   | Some k \<Rightarrow> newest evs k = Some (Ev_Insert od))"

text \<open>An order identifier belongs to one replacement key.\<close>

definition ids_ok :: "replace_event list \<Rightarrow> bool" where
  "ids_ok evs \<longleftrightarrow> (\<forall>a b. Ev_Insert a \<in> set evs \<longrightarrow> Ev_Insert b \<in> set evs \<longrightarrow>
     order_id a = order_id b \<longrightarrow> replacement_key a = replacement_key b)"

lemma ids_okD:
  "ids_ok evs \<Longrightarrow> Ev_Insert a \<in> set evs \<Longrightarrow> Ev_Insert b \<in> set evs \<Longrightarrow> order_id a = order_id b \<Longrightarrow>
   replacement_key a = replacement_key b"
  unfolding ids_ok_def by blast

lemma ids_ok_appendD: "ids_ok (xs @ ys) \<Longrightarrow> ids_ok xs"
  unfolding ids_ok_def set_append by blast

lemma brs_seq_state_of_event: "brs_sequence_number (state_of_event e) = ev_seq e"
  by (cases e) simp_all

lemma ev_key_Insert [simp]: "ev_key (Ev_Insert od) = replacement_key od"
  by (simp add: ev_key_def replacement_key_def)

lemma newest_snoc: "newest (evs @ [e]) k = newer k (newest evs k) e"
  by (simp add: newest_def)

lemma newest_in_set: "newest evs k = Some e \<Longrightarrow> e \<in> set evs \<and> ev_key e = Some k"
  by (induction evs rule: rev_induct) (auto simp: newest_snoc newer_def newest_def split: if_splits option.splits)

lemma last_plain_in_set: "last_plain evs i = Some od \<Longrightarrow> Ev_Insert od \<in> set evs \<and> replacement_key od = None \<and> order_id od = i"
  by (induction evs rule: rev_induct) (auto simp: last_plain_def split: replace_event.splits if_splits)

lemma live_in_set: "live evs od \<Longrightarrow> Ev_Insert od \<in> set evs"
  by (auto simp: live_def split: option.splits dest: newest_in_set last_plain_in_set)

lemma last_plain_snoc:
  "last_plain (evs @ [e]) i = (case e of
     Ev_Insert od \<Rightarrow> if replacement_key od = None \<and> order_id od = i then Some od else last_plain evs i
   | _ \<Rightarrow> last_plain evs i)"
  by (cases e) (simp_all add: last_plain_def)

lemma live_snoc_plain:
  assumes "replacement_key od = None" and "ids_ok (evs @ [Ev_Insert od])"
  shows "live (evs @ [Ev_Insert od]) x \<longleftrightarrow> x = od \<or> (live evs x \<and> order_id x \<noteq> order_id od)"
proof (cases "replacement_key x")
  case None
  then show ?thesis
    using assms(1) by (auto simp: live_def last_plain_snoc)
next
  case (Some k)
  have "order_id x \<noteq> order_id od" if "live evs x"
    using ids_okD [OF assms(2), of x od] assms(1) Some live_in_set [OF that] by auto
  with Some assms(1) show ?thesis by (auto simp: live_def newest_snoc newer_def)
qed

lemma live_snoc_key:
  assumes "ev_key e = Some k"
  shows "live (evs @ [e]) x \<longleftrightarrow>
    (if replacement_key x = Some k then newer k (newest evs k) e = Some (Ev_Insert x) else live evs x)"
proof (cases "replacement_key x")
  case None
  with assms show ?thesis by (cases e) (auto simp: live_def last_plain_snoc)
next
  case (Some k')
  with assms show ?thesis by (auto simp: live_def newest_snoc newer_def)
qed

definition orm_inv ::
  "('s \<Rightarrow> OrderId \<Rightarrow> Order option) \<Rightarrow> replace_event list \<Rightarrow> 's OrderReplacementManager \<Rightarrow> bool" where
  "orm_inv view evs m \<longleftrightarrow>
     (\<forall>k. replacement_states m k = map_option state_of_event (newest evs k)) \<and>
     (\<forall>i od. view (orm_sink m) i = Some od \<longleftrightarrow> live evs od \<and> order_id od = i)"

context order_sink
begin

lemma orm_inv_plain:
  assumes inv: "orm_inv view evs m" and ids: "ids_ok (evs @ [Ev_Insert od])"
    and none: "replacement_key od = None" and ok: "os_insert_order ops (orm_sink m) od = (True, s')"
  shows "orm_inv view (evs @ [Ev_Insert od]) (m\<lparr>orm_sink := s'\<rparr>)"
proof -
  have "newest (evs @ [Ev_Insert od]) k = newest evs k" for k
    using none by (simp add: newest_snoc newer_def)
  moreover have "view s' i = Some x \<longleftrightarrow> live (evs @ [Ev_Insert od]) x \<and> order_id x = i" for i x
    using inv insert_order_view [OF ok] live_snoc_plain [OF none ids]
    by (auto simp: orm_inv_def)
  ultimately show ?thesis using inv by (simp add: orm_inv_def)
qed

text \<open>The sink after the outdated order of a key was removed.\<close>

lemma send_remove_view:
  assumes inv: "orm_inv view evs m" and ids: "ids_ok evs" and best: "newest evs k = Some b"
    and ok: "send_remove_order_if_needed ops (state_of_event b) (orm_sink m) = (True, s')"
  shows "view s' i = Some x \<longleftrightarrow> live evs x \<and> order_id x = i \<and> replacement_key x \<noteq> Some k"
proof (cases b)
  case (Ev_Insert ob)
  have b: "Ev_Insert ob \<in> set evs" "replacement_key ob = Some k"
    using newest_in_set [OF best] Ev_Insert by auto
  have "view s' = (view (orm_sink m))(order_id ob := None)"
    using ok Ev_Insert by (auto intro: remove_order_view)
  moreover have "order_id x = order_id ob \<longleftrightarrow> replacement_key x = Some k" if "live evs x" for x
  proof
    assume "order_id x = order_id ob"
    with ids_okD [OF ids live_in_set [OF that] b(1)] b(2) show "replacement_key x = Some k" by simp
  next
    assume "replacement_key x = Some k"
    with that best Ev_Insert show "order_id x = order_id ob" by (simp add: live_def)
  qed
  ultimately show ?thesis using inv by (auto simp: orm_inv_def)
next
  case (Ev_Remove_bundle rd)
  with ok inv best show ?thesis by (auto simp: orm_inv_def live_def)
next
  case (Ev_Remove_sbundle key)
  with ok inv best show ?thesis by (auto simp: orm_inv_def live_def)
qed

lemma orm_inv_key:
  assumes inv: "orm_inv view evs m" and ids: "ids_ok (evs @ [e])" and key: "ev_key e = Some k"
    and states: "\<forall>k'. replacement_states m' k' = (if k' = k
        then map_option state_of_event (newer k (newest evs k) e) else replacement_states m k')"
    and sink: "\<forall>i x. view (orm_sink m') i = Some x \<longleftrightarrow> order_id x = i \<and>
        (if replacement_key x = Some k then newer k (newest evs k) e = Some (Ev_Insert x) else live evs x)"
  shows "orm_inv view (evs @ [e]) m'"
proof -
  have "newest (evs @ [e]) k' = (if k' = k then newer k (newest evs k) e else newest evs k')" for k'
    using key by (auto simp: newest_snoc newer_def)
  then show ?thesis
    using inv states sink live_snoc_key [OF key, of evs] by (auto simp: orm_inv_def)
qed

lemma newer_cases:
  assumes "ev_key e = Some k"
  shows "newer k best e = (case best of None \<Rightarrow> Some e | Some b \<Rightarrow> if ev_seq e \<le> ev_seq b then Some b else Some e)"
  using assms by (auto simp: newer_def not_le split: option.splits)

lemma orm_inv_insert:
  assumes inv: "orm_inv view evs m" and ids: "ids_ok (evs @ [Ev_Insert od])"
    and ks: "replacement_key_and_sequence_number od = Some (k, n)"
    and ok: "orm_insert_order ops od m = (True, m')"
  shows "orm_inv view (evs @ [Ev_Insert od]) m'"
proof -
  have key: "ev_key (Ev_Insert od) = Some k" and seq: "ev_seq (Ev_Insert od) = n"
    using ks by (simp_all add: replacement_key_def ev_seq_def)
  note newer' = newer_cases [OF key, of "newest evs k"]
  have ids': "ids_ok evs" using ids by (rule ids_ok_appendD)
  have kod: "replacement_key od = Some k" using key by simp
  have states: "replacement_states m k = map_option state_of_event (newest evs k)"
    and cur: "\<And>i x. view (orm_sink m) i = Some x \<longleftrightarrow> live evs x \<and> order_id x = i"
    using inv by (auto simp: orm_inv_def)
  have upd: "order_id x = order_id od \<Longrightarrow> live evs x \<Longrightarrow> replacement_key x = Some k" for x
    using ids_okD [OF ids, of x od] kod live_in_set [of evs x] by simp
  show ?thesis
  proof (cases "newest evs k")
    case None
    then obtain s' where s': "os_insert_order ops (orm_sink m) od = (True, s')"
      and m': "m' = m\<lparr>orm_sink := s', replacement_states :=
        (replacement_states m)(k \<mapsto> state_of_event (Ev_Insert od))\<rparr>"
      using ok ks states seq by (auto simp: orm_insert_order_def split: prod.splits)
    have "\<not> live evs x" if "replacement_key x = Some k" for x using that None by (simp add: live_def)
    then show ?thesis
      using None newer' insert_order_view [OF s'] m' cur upd kod
      by (intro orm_inv_key [OF inv ids key]) auto
  next
    case (Some b)
    show ?thesis
    proof (cases "n \<le> ev_seq b")
      case True
      with ok ks states Some have "m' = m\<lparr>orm_sink := orm_sink m, replacement_states :=
          (replacement_states m)(k \<mapsto> state_of_event b)\<rparr>"
        by (auto simp: orm_insert_order_def brs_insert_order_def brs_seq_state_of_event)
      with True Some newer' seq states cur show ?thesis
        by (intro orm_inv_key [OF inv ids key]) (auto simp: live_def)
    next
      case False
      then obtain s1 s2 where
        s1: "send_remove_order_if_needed ops (state_of_event b) (orm_sink m) = (True, s1)"
        and s2: "os_insert_order ops s1 od = (True, s2)"
        and m': "m' = m\<lparr>orm_sink := s2, replacement_states :=
          (replacement_states m)(k \<mapsto> state_of_event (Ev_Insert od))\<rparr>"
        using ok ks states Some seq
        by (auto simp: orm_insert_order_def brs_insert_order_def brs_seq_state_of_event Let_def
            split: prod.splits if_splits)
      have "view s1 i = Some x \<longleftrightarrow> live evs x \<and> order_id x = i \<and> replacement_key x \<noteq> Some k" for i x
        by (rule send_remove_view [OF inv ids' Some s1])
      then show ?thesis
        using False Some newer' seq m' insert_order_view [OF s2] upd kod
        by (intro orm_inv_key [OF inv ids key]) auto
    qed
  qed
qed

lemma orm_inv_cancel:
  assumes inv: "orm_inv view evs m" and ids: "ids_ok (evs @ [e])"
    and ks: "ev_key_seq e = Some (k, n)" and cancel: "\<forall>od. e \<noteq> Ev_Insert od"
    and ok: "orm_cancel ops k n m = (True, m')"
  shows "orm_inv view (evs @ [e]) m'"
proof -
  have key: "ev_key e = Some k" and seq: "ev_seq e = n" and st: "state_of_event e = Cancelled_state n"
    using ks cancel by (cases e; simp add: ev_key_def ev_seq_def)+
  note newer' = newer_cases [OF key, of "newest evs k"]
  have ids': "ids_ok evs" using ids by (rule ids_ok_appendD)
  have states: "replacement_states m k = map_option state_of_event (newest evs k)"
    and cur: "\<And>i x. view (orm_sink m) i = Some x \<longleftrightarrow> live evs x \<and> order_id x = i"
    using inv by (auto simp: orm_inv_def)
  show ?thesis
  proof (cases "newest evs k")
    case None
    with ok states have m': "m' = m\<lparr>replacement_states := (replacement_states m)(k \<mapsto> state_of_event e)\<rparr>"
      by (auto simp: orm_cancel_def st)
    with None newer' cur cancel show ?thesis
      by (intro orm_inv_key [OF inv ids key]) (auto simp: live_def)
  next
    case (Some b)
    show ?thesis
    proof (cases "n \<le> ev_seq b")
      case True
      with ok states Some have "m' = m\<lparr>orm_sink := orm_sink m, replacement_states :=
          (replacement_states m)(k \<mapsto> state_of_event b)\<rparr>"
        by (auto simp: orm_cancel_def brs_cancel_order_def brs_seq_state_of_event)
      with True Some newer' seq states cur show ?thesis
        by (intro orm_inv_key [OF inv ids key]) (auto simp: live_def)
    next
      case False
      then obtain s1 where
        s1: "send_remove_order_if_needed ops (state_of_event b) (orm_sink m) = (True, s1)"
        and m': "m' = m\<lparr>orm_sink := s1, replacement_states := (replacement_states m)(k \<mapsto> state_of_event e)\<rparr>"
        using ok states Some
        by (auto simp: orm_cancel_def brs_cancel_order_def brs_seq_state_of_event Let_def st
            split: prod.splits if_splits)
      have "view s1 i = Some x \<longleftrightarrow> live evs x \<and> order_id x = i \<and> replacement_key x \<noteq> Some k" for i x
        by (rule send_remove_view [OF inv ids' Some s1])
      then show ?thesis
        using False Some newer' seq m' cancel by (intro orm_inv_key [OF inv ids key]) auto
    qed
  qed
qed

lemma orm_inv_step:
  assumes inv: "orm_inv view evs m" and ids: "ids_ok (evs @ [e])" and ok: "orm_step ops m e = (True, m')"
  shows "orm_inv view (evs @ [e]) m'"
proof (cases e)
  case (Ev_Insert od)
  show ?thesis
  proof (cases "replacement_key_and_sequence_number od")
    case None
    with Ev_Insert ok obtain s' where "os_insert_order ops (orm_sink m) od = (True, s')" "m' = m\<lparr>orm_sink := s'\<rparr>"
      by (auto simp: orm_insert_order_def split: prod.splits)
    with None Ev_Insert inv ids show ?thesis
      by (simp add: orm_inv_plain replacement_key_def)
  next
    case (Some kn)
    with Ev_Insert ok inv ids show ?thesis by (cases kn) (auto intro: orm_inv_insert)
  qed
next
  case (Ev_Remove_bundle rd)
  with ok show ?thesis
    by (intro orm_inv_cancel [OF inv ids]) (auto simp: orm_remove_bundle_def)
next
  case (Ev_Remove_sbundle key)
  with ok show ?thesis
    by (intro orm_inv_cancel [OF inv ids]) (auto simp: orm_remove_sbundle_def)
qed

lemma orm_run_inv:
  "orm_inv view pre m \<Longrightarrow> ids_ok (pre @ evs) \<Longrightarrow> orm_run ops m evs = (True, m') \<Longrightarrow> orm_inv view (pre @ evs) m'"
proof (induction evs arbitrary: pre m)
  case Nil
  then show ?case by simp
next
  case (Cons e evs)
  then obtain m1 where m1: "orm_step ops m e = (True, m1)" and rest: "orm_run ops m1 evs = (True, m')"
    by (auto split: prod.splits)
  have "ids_ok (pre @ [e])" using Cons.prems(2) ids_ok_appendD [of "pre @ [e]" evs] by simp
  then have "orm_inv view (pre @ [e]) m1" using Cons.prems(1) m1 by (intro orm_inv_step)
  with Cons.IH [of "pre @ [e]" m1] Cons.prems(2) rest show ?case by simp
qed

end

section \<open>Independence of the order of arrival\<close>

text \<open>Two notifications for one key with the same sequence number are the same notification.\<close>

definition seqs_distinct :: "replace_event list \<Rightarrow> bool" where
  "seqs_distinct evs \<longleftrightarrow> (\<forall>e \<in> set evs. \<forall>e' \<in> set evs.
     ev_key e \<noteq> None \<longrightarrow> ev_key e = ev_key e' \<longrightarrow> ev_seq e = ev_seq e' \<longrightarrow> e = e')"

definition plain_unique :: "replace_event list \<Rightarrow> bool" where
  "plain_unique evs \<longleftrightarrow> (\<forall>a b. Ev_Insert a \<in> set evs \<longrightarrow> Ev_Insert b \<in> set evs \<longrightarrow>
     replacement_key a = None \<longrightarrow> replacement_key b = None \<longrightarrow> order_id a = order_id b \<longrightarrow> a = b)"

lemma newest_max:
  "newest evs k = Some e \<Longrightarrow> e' \<in> set evs \<Longrightarrow> ev_key e' = Some k \<Longrightarrow> ev_seq e' \<le> ev_seq e"
proof (induction evs arbitrary: e rule: rev_induct)
  case Nil
  then show ?case by simp
next
  case (snoc x evs)
  show ?case
  proof (cases "newest evs k")
    case None
    have "ev_key y \<noteq> Some k" if "y \<in> set evs" for y
      using that None
      by (induction evs rule: rev_induct) (auto simp: newest_snoc newer_def split: if_splits option.splits)
    with snoc.prems None show ?thesis by (auto simp: newest_snoc newer_def split: if_splits)
  next
    case (Some b)
    with snoc.prems snoc.IH [OF Some] show ?thesis
      by (auto simp: newest_snoc newer_def split: if_splits dest: order_trans)
  qed
qed

lemma newest_None_iff: "newest evs k = None \<longleftrightarrow> (\<forall>e \<in> set evs. ev_key e \<noteq> Some k)"
  by (induction evs rule: rev_induct) (auto simp: newest_snoc newer_def newest_def split: option.splits)

lemma newest_unique:
  assumes "seqs_distinct evs" and "e \<in> set evs" and "ev_key e = Some k"
    and "\<And>e'. e' \<in> set evs \<Longrightarrow> ev_key e' = Some k \<Longrightarrow> ev_seq e' \<le> ev_seq e"
  shows "newest evs k = Some e"
proof -
  obtain b where b: "newest evs k = Some b" using assms(2,3) newest_None_iff by fastforce
  note b' = newest_in_set [OF b]
  have "ev_seq b = ev_seq e"
    using assms(4) [of b] b' newest_max [OF b assms(2,3)] by (simp add: order_antisym)
  moreover have "ev_key b = ev_key e" using b' assms(3) by simp
  ultimately have "b = e"
    using assms(1-3) b' unfolding seqs_distinct_def by (metis option.distinct(1))
  with b show ?thesis by simp
qed

lemma newest_set_cong:
  assumes "set evs = set evs'" and "seqs_distinct evs"
  shows "newest evs k = newest evs' k"
proof (cases "newest evs' k")
  case None
  with assms(1) have "newest evs k = None" unfolding newest_None_iff by simp
  with None show ?thesis by simp
next
  case (Some e)
  with assms newest_in_set [OF Some] newest_max [OF Some] show ?thesis
    by (auto intro: newest_unique)
qed

lemma last_plain_iff:
  assumes "plain_unique evs"
  shows "last_plain evs i = Some od \<longleftrightarrow> Ev_Insert od \<in> set evs \<and> replacement_key od = None \<and> order_id od = i"
proof
  assume od: "Ev_Insert od \<in> set evs \<and> replacement_key od = None \<and> order_id od = i"
  then have "last_plain evs i \<noteq> None"
    by (induction evs rule: rev_induct) (auto simp: last_plain_snoc split: replace_event.splits)
  then obtain x where x: "last_plain evs i = Some x" by auto
  from assms od last_plain_in_set [OF x] have "x = od" unfolding plain_unique_def by blast
  with x show "last_plain evs i = Some od" by simp
qed (rule last_plain_in_set)

lemma live_set_cong:
  assumes "set evs = set evs'" and "seqs_distinct evs" and "plain_unique evs"
  shows "live evs od \<longleftrightarrow> live evs' od"
proof -
  have "plain_unique evs'" using assms(1,3) by (simp add: plain_unique_def)
  then show ?thesis
    using newest_set_cong [OF assms(1,2)] assms(1,3) by (simp add: live_def last_plain_iff split: option.splits)
qed

section \<open>Properties\<close>


definition sample_rep_bundle :: "Uuid \<Rightarrow> u64 \<Rightarrow> Order" where
  "sample_rep_bundle u n = Order_Bundle ((sample_bundle [sample_tx 1 7 5] [])\<lparr>b_uuid := u, b_replacement_data :=
     Some \<lparr>rd_key = BundleReplacementKey_new 77 None, rd_sequence_number = n\<rparr>\<rparr>)"

lemma sample_rep_bundle_simps [simp]:
  "order_id (sample_rep_bundle u n) = OrderId_Bundle u"
  "replacement_key_and_sequence_number (sample_rep_bundle u n) =
     Some (ORK_Bundle (BundleReplacementKey_new 77 None), n)"
  "replacement_key (sample_rep_bundle u n) = Some (ORK_Bundle (BundleReplacementKey_new 77 None))"
  by (simp_all add: sample_rep_bundle_def sample_bundle_def replacement_key_def)

lemma sample_rep_bundle_inject [simp]: "sample_rep_bundle u n = sample_rep_bundle v m \<longleftrightarrow> u = v \<and> n = m"
  by (metis OrderId.inject(2) option.inject prod.inject sample_rep_bundle_simps(1,2))

lemma sample_run:
  "orm_run OrderStore_ops (OrderReplacementManager_new [])
     [Ev_Insert (sample_rep_bundle 2 9), Ev_Insert (sample_rep_bundle 1 8)] =
   (True, \<lparr>orm_sink = [(OrderId_Bundle 2, sample_rep_bundle 2 9)],
      replacement_states = [ORK_Bundle (BundleReplacementKey_new 77 None) \<mapsto> Valid_state 9 (OrderId_Bundle 2)]\<rparr>)"
  by (simp add: OrderReplacementManager_new_def orm_insert_order_def OrderStore_ops_def brs_insert_order_def)



lemma sample_run_reversed:
  "orm_run OrderStore_ops (OrderReplacementManager_new [])
     [Ev_Insert (sample_rep_bundle 1 8), Ev_Insert (sample_rep_bundle 2 9)] =
   (True, \<lparr>orm_sink = [(OrderId_Bundle 2, sample_rep_bundle 2 9)],
      replacement_states = [ORK_Bundle (BundleReplacementKey_new 77 None) \<mapsto> Valid_state 9 (OrderId_Bundle 2)]\<rparr>)"
  by (simp add: OrderReplacementManager_new_def orm_insert_order_def OrderStore_ops_def brs_insert_order_def)


text \<open>
  A cancellation with a sequence number that is not larger than the current one is ignored, and a
  later insertion with a larger one makes a cancelled bundle valid again.
\<close>

lemma cancelled_bundle_revalidated:
  "orm_run OrderStore_ops (OrderReplacementManager_new [])
     [Ev_Remove_bundle \<lparr>rd_key = BundleReplacementKey_new 77 None, rd_sequence_number = 8\<rparr>,
      Ev_Insert (sample_rep_bundle 2 9)] =
   (True, \<lparr>orm_sink = [(OrderId_Bundle 2, sample_rep_bundle 2 9)],
      replacement_states = [ORK_Bundle (BundleReplacementKey_new 77 None) \<mapsto> Valid_state 9 (OrderId_Bundle 2)]\<rparr>)"
  by (simp add: OrderReplacementManager_new_def orm_insert_order_def orm_remove_bundle_def orm_cancel_def
      OrderStore_ops_def brs_insert_order_def)

end
