(* ===== verification/Order_Pool.thy ===== *)
theory Order_Pool
  imports Order_Replacement
begin

text \<open>
  The order pool (\<^verbatim>\<open>rbuilder/src/live_builder/order_input/orderpool.rs\<close>): every order and cancellation that
  arrives, replayed to the block-building jobs that subscribe for a block and forwarded to those
  that already have.  Instants are natural numbers (nanoseconds), the time of a call is an argument;
  \<^verbatim>\<open>Instant::elapsed\<close> saturates at zero like subtraction on \<open>nat\<close>.
\<close>

section \<open>Replaceable order sinks\<close>

record 's replaceable_sink_ops =
  rs_insert_order :: "'s \<Rightarrow> Order \<Rightarrow> bool \<times> 's"
  rs_remove_bundle :: "'s \<Rightarrow> BundleReplacementKey ReplacementData \<Rightarrow> bool \<times> 's"
  rs_remove_sbundle :: "'s \<Rightarrow> ShareBundleReplacementKey \<Rightarrow> bool \<times> 's"
  rs_is_alive :: "'s \<Rightarrow> bool"

definition OrderReplacementManager_ops :: "'s order_sink_ops \<Rightarrow> 's OrderReplacementManager replaceable_sink_ops" where
  "OrderReplacementManager_ops ops =
     \<lparr>rs_insert_order = (\<lambda>m od. orm_insert_order ops od m),
      rs_remove_bundle = (\<lambda>m rd. orm_remove_bundle ops rd m),
      rs_remove_sbundle = (\<lambda>m key. orm_remove_sbundle ops key m),
      rs_is_alive = orm_is_alive ops\<rparr>"

text \<open>\<^verbatim>\<open>MempoolTxsDetector\<close> and the sniffer that feeds it (\<^verbatim>\<open>mempool_txs_detector.rs\<close>).\<close>

type_synonym MempoolTxsDetector = "B256 set"

fun detector_add_tx :: "MempoolTxsDetector \<Rightarrow> Order \<Rightarrow> MempoolTxsDetector" where
  "detector_add_tx d (Order_Tx t) = insert (tx_hash (tx_with_blobs t)) d"
| "detector_add_tx d _ = d"

definition is_mempool :: "MempoolTxsDetector \<Rightarrow> TransactionSignedEcRecoveredWithBlobs \<Rightarrow> bool" where
  "is_mempool d tx \<longleftrightarrow> tx_hash tx \<in> d"

definition Sniffer_ops ::
  "'s replaceable_sink_ops \<Rightarrow> (MempoolTxsDetector \<times> 's) replaceable_sink_ops" where
  "Sniffer_ops ops =
     \<lparr>rs_insert_order = (\<lambda>(d, s) od. let (ok, s') = rs_insert_order ops s od in (ok, (detector_add_tx d od, s'))),
      rs_remove_bundle = (\<lambda>(d, s) rd. let (ok, s') = rs_remove_bundle ops s rd in (ok, (d, s'))),
      rs_remove_sbundle = (\<lambda>(d, s) key. let (ok, s') = rs_remove_sbundle ops s key in (ok, (d, s'))),
      rs_is_alive = (\<lambda>(d, s). rs_is_alive ops s)\<rparr>"

section \<open>The pool\<close>

record CancelShareBundle =
  csb_block :: u64
  csb_key :: ShareBundleReplacementKey

datatype ReplaceableOrderPoolCommand =
    RC_Order Order
  | RC_CancelShareBundle CancelShareBundle
  | RC_CancelBundle "BundleReplacementKey ReplacementData"

fun rc_target_block :: "ReplaceableOrderPoolCommand \<Rightarrow> u64 option" where
  "rc_target_block (RC_Order od) = target_block od"
| "rc_target_block (RC_CancelShareBundle c) = Some (csb_block c)"
| "rc_target_block (RC_CancelBundle _) = None"

record BundleBlockStore =
  bbs_bundles :: "Order list"
  cancelled_sbundles :: "ShareBundleReplacementKey list"

definition BundleBlockStore_default :: BundleBlockStore where
  "BundleBlockStore_default = \<lparr>bbs_bundles = [], cancelled_sbundles = []\<rparr>"

record 's op_subscription =
  ops_sink :: 's
  ops_block_number :: u64

type_synonym OrderPoolSubscriptionId = u64

record ('c, 's) OrderPool =
  mempool_txs :: "(Order \<times> nat) list"
  mempool_txs_size :: usize
  bundle_cancellations :: "(BundleReplacementKey ReplacementData \<times> nat) list"
  bundles_by_target_block :: "(u64 \<times> BundleBlockStore) list"
  bundles_for_current_block :: "Order list"
  known_orders :: 'c
  op_sinks :: "(OrderPoolSubscriptionId \<times> 's op_subscription) list"
  op_next_sink_id :: u64
  time_to_keep_mempool_txs :: nat

text \<open>Library code: the cache, the sink, and the size in memory of a transaction.\<close>

record ('c, 's) op_env =
  oe_lru :: "('c, OrderId \<times> u64) lru_ops"
  oe_sink :: "'s replaceable_sink_ops"
  oe_tx_size :: "MempoolTx \<Rightarrow> usize"

definition TIME_TO_KEEP_BUNDLE_CANCELLATIONS :: nat where
  "TIME_TO_KEEP_BUNDLE_CANCELLATIONS = 60 * 10 ^ 9"

definition OrderPool_new :: "('c, 's) op_env \<Rightarrow> nat \<Rightarrow> ('c, 's) OrderPool" where
  "OrderPool_new env ttk =
     \<lparr>mempool_txs = [], mempool_txs_size = 0, bundle_cancellations = [], bundles_by_target_block = [],
      bundles_for_current_block = [], known_orders = lru_new (oe_lru env) 10000, op_sinks = [],
      op_next_sink_id = 0, time_to_keep_mempool_txs = ttk\<rparr>"

fun measure_tx :: "('c, 's) op_env \<Rightarrow> Order \<Rightarrow> usize" where
  "measure_tx env (Order_Tx t) = oe_tx_size env t"
| "measure_tx env (Order_Bundle _) = 0"
| "measure_tx env (Order_ShareBundle _) = 0"

definition push_bundle :: "u64 \<Rightarrow> Order \<Rightarrow> (u64 \<times> BundleBlockStore) list \<Rightarrow> (u64 \<times> BundleBlockStore) list" where
  "push_bundle block od stores =
     alist_modify block (\<lambda>e. let st = (case e of None \<Rightarrow> BundleBlockStore_default | Some st \<Rightarrow> st)
                             in st\<lparr>bbs_bundles := bbs_bundles st @ [od]\<rparr>) stores"

fun unwrap_or_0 :: "u64 option \<Rightarrow> u64" where
  "unwrap_or_0 None = 0"
| "unwrap_or_0 (Some n) = n"

definition order_key :: "Order \<Rightarrow> OrderId \<times> u64" where
  "order_key od = (order_id od, unwrap_or_0 (target_block od))"

definition process_order ::
  "('c, 's) op_env \<Rightarrow> nat \<Rightarrow> Order \<Rightarrow> ('c, 's) OrderPool \<Rightarrow> ('c, 's) OrderPool" where
  "process_order env now od p =
     (if lru_contains (oe_lru env) (known_orders p) (order_key od) then p
      else
        let (p1, target) = (case od of
             Order_Tx _ \<Rightarrow> (p\<lparr>mempool_txs := mempool_txs p @ [(od, now)],
                             mempool_txs_size := mempool_txs_size p + measure_tx env od\<rparr>, None)
           | Order_Bundle bundle \<Rightarrow>
               (case b_block bundle of
                  Some block \<Rightarrow> p\<lparr>bundles_by_target_block := push_bundle block od (bundles_by_target_block p)\<rparr>
                | None \<Rightarrow> p\<lparr>bundles_for_current_block := bundles_for_current_block p @ [od]\<rparr>, b_block bundle)
           | Order_ShareBundle sb \<Rightarrow>
               (p\<lparr>bundles_by_target_block := push_bundle (sb_block sb) od (bundles_by_target_block p)\<rparr>,
                Some (sb_block sb)))
        in p1\<lparr>known_orders := lru_put (oe_lru env) (known_orders p1) (order_id od, unwrap_or_0 target)\<rparr>)"

definition process_remove_sbundle :: "CancelShareBundle \<Rightarrow> ('c, 's) OrderPool \<Rightarrow> ('c, 's) OrderPool" where
  "process_remove_sbundle c p =
     p\<lparr>bundles_by_target_block := alist_modify (csb_block c)
        (\<lambda>e. let st = (case e of None \<Rightarrow> BundleBlockStore_default | Some st \<Rightarrow> st)
             in st\<lparr>cancelled_sbundles := cancelled_sbundles st @ [csb_key c]\<rparr>)
        (bundles_by_target_block p)\<rparr>"

definition process_remove_bundle ::
  "nat \<Rightarrow> BundleReplacementKey ReplacementData \<Rightarrow> ('c, 's) OrderPool \<Rightarrow> ('c, 's) OrderPool" where
  "process_remove_bundle now rd p =
     p\<lparr>bundle_cancellations := bundle_cancellations p @ [(rd, now)]\<rparr>"

text \<open>The closure of \<^verbatim>\<open>sinks.retain\<close>.\<close>

definition op_send :: "'s replaceable_sink_ops \<Rightarrow> ReplaceableOrderPoolCommand \<Rightarrow> 's \<Rightarrow> bool \<times> 's" where
  "op_send ops command sink =
     (case command of
        RC_Order od \<Rightarrow> rs_insert_order ops sink od
      | RC_CancelShareBundle c \<Rightarrow> rs_remove_sbundle ops sink (csb_key c)
      | RC_CancelBundle rd \<Rightarrow> rs_remove_bundle ops sink rd)"

definition op_forward ::
  "'s replaceable_sink_ops \<Rightarrow> ReplaceableOrderPoolCommand \<Rightarrow> 's op_subscription \<Rightarrow> 's op_subscription option" where
  "op_forward ops command sub =
     (if \<not> rs_is_alive ops (ops_sink sub) then None
      else if rc_target_block command = None \<or> rc_target_block command = Some (ops_block_number sub) then
        (let (send_ok, sink') = op_send ops command (ops_sink sub)
         in if \<not> send_ok then None else Some (sub\<lparr>ops_sink := sink'\<rparr>))
      else Some sub)"

definition op_process_command ::
  "('c, 's) op_env \<Rightarrow> nat \<Rightarrow> ReplaceableOrderPoolCommand \<Rightarrow> ('c, 's) OrderPool \<Rightarrow> ('c, 's) OrderPool" where
  "op_process_command env now command p =
     (let p1 = (case command of
          RC_Order od \<Rightarrow> process_order env now od p
        | RC_CancelShareBundle c \<Rightarrow> process_remove_sbundle c p
        | RC_CancelBundle rd \<Rightarrow> process_remove_bundle now rd p)
      in p1\<lparr>op_sinks := alist_retain (op_forward (oe_sink env) command) (op_sinks p1)\<rparr>)"

definition op_process_commands ::
  "('c, 's) op_env \<Rightarrow> (nat \<times> ReplaceableOrderPoolCommand) list \<Rightarrow> ('c, 's) OrderPool \<Rightarrow> ('c, 's) OrderPool" where
  "op_process_commands env commands p =
     foldl (\<lambda>q tc. op_process_command env (fst tc) (snd tc) q) p commands"

definition op_add_sink ::
  "('c, 's) op_env \<Rightarrow> u64 \<Rightarrow> 's \<Rightarrow> ('c, 's) OrderPool \<Rightarrow> OrderPoolSubscriptionId \<times> ('c, 's) OrderPool" where
  "op_add_sink env block_number sink p =
     (let ops = oe_sink env;
          insert_all = foldl (\<lambda>s od. snd (rs_insert_order ops s od));
          sink1 = insert_all sink (map fst (mempool_txs p));
          sink2 = foldl (\<lambda>s rd. snd (rs_remove_bundle ops s rd)) sink1 (map fst (bundle_cancellations p));
          sink3 = (case map_of (bundles_by_target_block p) block_number of
             None \<Rightarrow> sink2
           | Some store \<Rightarrow>
               foldl (\<lambda>s key. snd (rs_remove_sbundle ops s key))
                 (insert_all sink2 (bbs_bundles store)) (cancelled_sbundles store));
          sink4 = insert_all sink3 (bundles_for_current_block p);
          i = op_next_sink_id p
      in (i, p\<lparr>op_next_sink_id := i + 1,
               op_sinks := alist_update i \<lparr>ops_sink = sink4, ops_block_number = block_number\<rparr> (op_sinks p)\<rparr>))"

definition op_remove_sink ::
  "OrderPoolSubscriptionId \<Rightarrow> ('c, 's) OrderPool \<Rightarrow> 's option \<times> ('c, 's) OrderPool" where
  "op_remove_sink i p =
     (map_option ops_sink (map_of (op_sinks p) i), p\<lparr>op_sinks := filter (\<lambda>kv. fst kv \<noteq> i) (op_sinks p)\<rparr>)"

text \<open>
  \<open>account_nonce\<close> is the state provider; an error and an absent account both read as nonce 0.
\<close>

definition onchain_nonce :: "(address \<Rightarrow> (u64 option, 'e) result) \<Rightarrow> address \<Rightarrow> u64" where
  "onchain_nonce account_nonce a =
     (case account_nonce a of Ok (Some n) \<Rightarrow> n | Ok None \<Rightarrow> 0 | Err _ \<Rightarrow> 0)"

definition must_retain_order ::
  "(address \<Rightarrow> (u64 option, 'e) result) \<Rightarrow> nat \<Rightarrow> nat \<Rightarrow> Order \<Rightarrow> nat \<Rightarrow> bool" where
  "must_retain_order account_nonce now inserted_time od ttk =
     (if ttk < now - inserted_time then False
      else list_all (\<lambda>nonce. n_optional nonce \<or>
             \<not> n_nonce nonce < onchain_nonce account_nonce (n_address nonce)) (order_nonces od))"

fun retain_mempool ::
  "('c, 's) op_env \<Rightarrow> (Order \<Rightarrow> nat \<Rightarrow> bool) \<Rightarrow> (Order \<times> nat) list \<Rightarrow> usize \<Rightarrow> (Order \<times> nat) list \<times> usize" where
  "retain_mempool env keep [] sz = ([], sz)"
| "retain_mempool env keep ((od, time) # rest) sz =
     (if keep od time
      then (let (kept, sz') = retain_mempool env keep rest sz in ((od, time) # kept, sz'))
      else retain_mempool env keep rest (sz - measure_tx env od))"

definition head_updated ::
  "('c, 's) op_env \<Rightarrow> (address \<Rightarrow> (u64 option, 'e) result) \<Rightarrow> nat \<Rightarrow> u64 \<Rightarrow> ('c, 's) OrderPool \<Rightarrow> ('c, 's) OrderPool" where
  "head_updated env account_nonce now new_block_number p =
     (let (txs, sz) = retain_mempool env
            (\<lambda>od time. must_retain_order account_nonce now time od (time_to_keep_mempool_txs p))
            (mempool_txs p) (mempool_txs_size p)
      in p\<lparr>bundles_by_target_block := filter (\<lambda>kv. new_block_number < fst kv) (bundles_by_target_block p),
           bundles_for_current_block := [],
           mempool_txs := txs,
           mempool_txs_size := sz,
           bundle_cancellations := dropWhile (\<lambda>kv. \<not> now - snd kv < TIME_TO_KEEP_BUNDLE_CANCELLATIONS)
                                     (bundle_cancellations p)\<rparr>)"

definition content_count :: "('c, 's) OrderPool \<Rightarrow> nat \<times> nat" where
  "content_count p =
     (length (mempool_txs p), sum_list (map (\<lambda>kv. length (bbs_bundles (snd kv))) (bundles_by_target_block p)))"

section \<open>The pool as a state machine\<close>

datatype ('s, 'e) op_event =
    OP_Commands "(nat \<times> ReplaceableOrderPoolCommand) list"
  | OP_AddSink u64 's
  | OP_RemoveSink OrderPoolSubscriptionId
  | OP_HeadUpdated "address \<Rightarrow> (u64 option, 'e) result" nat u64

fun op_step :: "('c, 's) op_env \<Rightarrow> ('c, 's) OrderPool \<Rightarrow> ('s, 'e) op_event \<Rightarrow> ('c, 's) OrderPool" where
  "op_step env p (OP_Commands cmds) = op_process_commands env cmds p"
| "op_step env p (OP_AddSink block sink) = snd (op_add_sink env block sink p)"
| "op_step env p (OP_RemoveSink i) = snd (op_remove_sink i p)"
| "op_step env p (OP_HeadUpdated account_nonce now n) = head_updated env account_nonce now n p"

text \<open>
  Mempool transactions are transactions and their cached total size is right; bundles are filed
  under the block they target; subscriptions have distinct numbers.
\<close>

definition stores_ok :: "(u64 \<times> BundleBlockStore) list \<Rightarrow> bool" where
  "stores_ok stores \<longleftrightarrow> distinct (map fst stores) \<and>
     (\<forall>block st. map_of stores block = Some st \<longrightarrow> (\<forall>od \<in> set (bbs_bundles st). target_block od = Some block))"

definition op_inv :: "('c, 's) op_env \<Rightarrow> ('c, 's) OrderPool \<Rightarrow> bool" where
  "op_inv env p \<longleftrightarrow>
     (\<forall>kv \<in> set (mempool_txs p). is_tx (fst kv)) \<and>
     mempool_txs_size p = sum_list (map (\<lambda>kv. measure_tx env (fst kv)) (mempool_txs p)) \<and>
     stores_ok (bundles_by_target_block p) \<and>
     (\<forall>od \<in> set (bundles_for_current_block p). target_block od = None \<and> \<not> is_tx od) \<and>
     distinct (map fst (op_sinks p))"

lemma target_block_Bundle [simp]: "target_block (Order_Bundle b) = b_block b"
  and target_block_ShareBundle [simp]: "target_block (Order_ShareBundle sb) = Some (sb_block sb)"
  and target_block_Tx [simp]: "target_block (Order_Tx t) = None"
  by simp_all

lemma push_bundle_distinct [simp]:
  "distinct (map fst stores) \<Longrightarrow> distinct (map fst (push_bundle block od stores))"
  by (simp add: push_bundle_def)

lemma map_of_push_bundle:
  "map_of (push_bundle block od stores) = (map_of stores)(block \<mapsto>
     (let st = (case map_of stores block of None \<Rightarrow> BundleBlockStore_default | Some st \<Rightarrow> st)
      in st\<lparr>bbs_bundles := bbs_bundles st @ [od]\<rparr>))"
  by (simp add: push_bundle_def)

lemma stores_ok_push:
  "stores_ok stores \<Longrightarrow> target_block od = Some block \<Longrightarrow> stores_ok (push_bundle block od stores)"
  by (auto simp: stores_ok_def map_of_push_bundle BundleBlockStore_default_def Let_def split: option.splits)

lemma stores_ok_cancel:
  "stores_ok stores \<Longrightarrow> stores_ok (alist_modify block (\<lambda>e.
     let st = (case e of None \<Rightarrow> BundleBlockStore_default | Some st \<Rightarrow> st)
     in st\<lparr>cancelled_sbundles := cancelled_sbundles st @ [key]\<rparr>) stores)"
  by (auto simp: stores_ok_def BundleBlockStore_default_def Let_def split: option.splits)

lemma stores_ok_filter: "stores_ok stores \<Longrightarrow> stores_ok (filter (\<lambda>kv. n < fst kv) stores)"
  by (auto simp: stores_ok_def map_of_filter_key [where P = "\<lambda>x. n < x"] split: if_splits)

lemma op_inv_process_order [step_invs]:
  assumes inv: "op_inv env p" shows "op_inv env (process_order env now od p)"
proof (cases od)
  case (Order_Bundle b)
  show ?thesis
    unfolding Order_Bundle using inv
    by (cases "b_block b") (simp_all add: process_order_def op_inv_def stores_ok_push)
next
  case (Order_Tx t)
  show ?thesis unfolding Order_Tx using inv by (simp add: process_order_def op_inv_def)
next
  case (Order_ShareBundle sb)
  show ?thesis unfolding Order_ShareBundle using inv by (simp add: process_order_def op_inv_def stores_ok_push)
qed

lemma op_inv_process_command [step_invs]:
  assumes "op_inv env p" shows "op_inv env (op_process_command env now command p)"
proof -
  have "op_inv env (case command of RC_Order od \<Rightarrow> process_order env now od p
      | RC_CancelShareBundle c \<Rightarrow> process_remove_sbundle c p
      | RC_CancelBundle rd \<Rightarrow> process_remove_bundle now rd p)"
  proof (cases command)
    case (RC_Order od)
    with op_inv_process_order [OF assms] show ?thesis by simp
  next
    case (RC_CancelShareBundle c)
    then show ?thesis using assms stores_ok_cancel by (simp add: op_inv_def process_remove_sbundle_def)
  next
    case (RC_CancelBundle rd)
    then show ?thesis using assms by (simp add: op_inv_def process_remove_bundle_def)
  qed
  then show ?thesis by (simp add: op_process_command_def op_inv_def Let_def)
qed

interpretation op_commands: invariant_system "\<lambda>q tc. op_process_command env (fst tc) (snd tc) q" "op_inv env" for env
  by unfold_locales (rule op_inv_process_command)

lemma retain_mempool_eq:
  "retain_mempool env keep txs sz = (filter (\<lambda>kv. keep (fst kv) (snd kv)) txs,
     sz - sum_list (map (\<lambda>kv. measure_tx env (fst kv)) (filter (\<lambda>kv. \<not> keep (fst kv) (snd kv)) txs)))"
  by (induction env keep txs sz rule: retain_mempool.induct) (simp_all add: diff_diff_eq)

lemma sum_list_partition:
  "sum_list (map f xs) = sum_list (map f (filter P xs)) + sum_list (map f (filter (\<lambda>x. \<not> P x) xs))"
  for f :: "'a \<Rightarrow> 'b::ab_group_add"
  by (induction xs) (auto simp: algebra_simps)

lemma op_inv_head_updated [step_invs]:
  assumes "op_inv env p" shows "op_inv env (head_updated env account_nonce now n p)"
  using assms sum_list_partition [of "\<lambda>kv. measure_tx env (fst kv)" "mempool_txs p"
      "\<lambda>kv. must_retain_order account_nonce now (snd kv) (fst kv) (time_to_keep_mempool_txs p)"]
  by (auto simp: head_updated_def op_inv_def retain_mempool_eq stores_ok_filter)

interpretation order_pool: invariant_system "op_step env" "op_inv env" for env
proof
  fix env p e
  assume inv: "op_inv env p"
  show "op_inv env (op_step env p e)"
  proof (cases e)
    case (OP_Commands cmds)
    with op_commands.inv_run [OF inv] show ?thesis by (simp add: op_process_commands_def)
  next
    case (OP_HeadUpdated account_nonce now n)
    with op_inv_head_updated [OF inv] show ?thesis by simp
  qed (use inv in \<open>auto simp: op_add_sink_def op_remove_sink_def op_inv_def Let_def\<close>)
qed

lemma op_inv_new: "op_inv env (OrderPool_new env ttk)"
  by (simp add: op_inv_def stores_ok_def OrderPool_new_def)

section \<open>What a subscriber sees\<close>

fun rc_event :: "ReplaceableOrderPoolCommand \<Rightarrow> replace_event" where
  "rc_event (RC_Order od) = Ev_Insert od"
| "rc_event (RC_CancelShareBundle c) = Ev_Remove_sbundle (csb_key c)"
| "rc_event (RC_CancelBundle rd) = Ev_Remove_bundle rd"

definition events_for :: "u64 \<Rightarrow> (nat \<times> ReplaceableOrderPoolCommand) list \<Rightarrow> replace_event list" where
  "events_for b cmds =
     map rc_event (filter (\<lambda>c. rc_target_block c = None \<or> rc_target_block c = Some b) (map snd cmds))"

lemma events_for_simps [simp]:
  "events_for b [] = []" "events_for b (xs @ ys) = events_for b xs @ events_for b ys"
  by (simp_all add: events_for_def)

fun rs_step :: "'s replaceable_sink_ops \<Rightarrow> 's \<Rightarrow> replace_event \<Rightarrow> bool \<times> 's" where
  "rs_step ops s (Ev_Insert od) = rs_insert_order ops s od"
| "rs_step ops s (Ev_Remove_bundle rd) = rs_remove_bundle ops s rd"
| "rs_step ops s (Ev_Remove_sbundle key) = rs_remove_sbundle ops s key"

definition rs_run :: "'s replaceable_sink_ops \<Rightarrow> 's \<Rightarrow> replace_event list \<Rightarrow> 's" where
  "rs_run ops = foldl (\<lambda>s e. snd (rs_step ops s e))"

lemma rs_run_append: "rs_run ops s (xs @ ys) = rs_run ops (rs_run ops s xs) ys"
  by (simp add: rs_run_def)

lemma op_send_step: "op_send ops command s = rs_step ops s (rc_event command)"
  by (cases command) (simp_all add: op_send_def)

definition snapshot :: "u64 \<Rightarrow> ('c, 's) OrderPool \<Rightarrow> replace_event list" where
  "snapshot b p =
     map (\<lambda>kv. Ev_Insert (fst kv)) (mempool_txs p) @
     map (\<lambda>kv. Ev_Remove_bundle (fst kv)) (bundle_cancellations p) @
     (case map_of (bundles_by_target_block p) b of None \<Rightarrow> []
      | Some st \<Rightarrow> map Ev_Insert (bbs_bundles st) @ map Ev_Remove_sbundle (cancelled_sbundles st)) @
     map Ev_Insert (bundles_for_current_block p)"

lemma foldl_map_comp: "foldl f s (map g xs) = foldl (\<lambda>s x. f s (g x)) s xs"
  by (induction xs arbitrary: s) simp_all

lemma op_add_sink_snapshot:
  "op_add_sink env b sink p = (op_next_sink_id p,
     p\<lparr>op_next_sink_id := op_next_sink_id p + 1,
       op_sinks := alist_update (op_next_sink_id p)
         \<lparr>ops_sink = rs_run (oe_sink env) sink (snapshot b p), ops_block_number = b\<rparr> (op_sinks p)\<rparr>)"
  by (simp add: op_add_sink_def snapshot_def rs_run_def Let_def foldl_map_comp split: option.splits)

lemma op_sinks_process_command:
  "op_sinks (op_process_command env now c p) = alist_retain (op_forward (oe_sink env) c) (op_sinks p)"
proof -
  have "op_sinks (process_order env now od p) = op_sinks p" for od
    by (cases od) (auto simp: process_order_def split: option.splits)
  then show ?thesis
    by (cases c) (simp_all add: op_process_command_def process_remove_sbundle_def process_remove_bundle_def Let_def)
qed

text \<open>A sink that never fails and stays alive.\<close>

definition reliable :: "'s replaceable_sink_ops \<Rightarrow> bool" where
  "reliable ops \<longleftrightarrow> (\<forall>s e. fst (rs_step ops s e)) \<and> (\<forall>s. rs_is_alive ops s)"

lemma reliable_forward:
  assumes "reliable ops"
  shows "op_forward ops c sub = Some (sub\<lparr>ops_sink := rs_run ops (ops_sink sub) (events_for (ops_block_number sub) [(now, c)])\<rparr>)"
proof -
  have "fst (rs_step ops s e)" "rs_is_alive ops s" for s e using assms by (auto simp: reliable_def)
  then show ?thesis
    by (auto simp: op_forward_def op_send_step events_for_def rs_run_def Let_def case_prod_beta)
qed

lemma reliable_subscription:
  assumes "reliable (oe_sink env)" and "op_inv env p" and "map_of (op_sinks p) i = Some sub"
  shows "map_of (op_sinks (op_process_commands env cmds p)) i =
    Some (sub\<lparr>ops_sink := rs_run (oe_sink env) (ops_sink sub) (events_for (ops_block_number sub) cmds)\<rparr>)"
  using assms(2,3)
proof (induction cmds arbitrary: p sub)
  case Nil
  then show ?case by (simp add: op_process_commands_def rs_run_def)
next
  case (Cons tc cmds)
  let ?q = "op_process_command env (fst tc) (snd tc) p"
  let ?sub = "sub\<lparr>ops_sink := rs_run (oe_sink env) (ops_sink sub) (events_for (ops_block_number sub) [tc])\<rparr>"
  have "map_of (op_sinks ?q) i = Some ?sub"
    using Cons.prems reliable_forward [OF assms(1), of "snd tc" sub "fst tc"]
    by (simp add: op_sinks_process_command map_of_alist_retain op_inv_def)
  from Cons.IH [OF op_inv_process_command [OF Cons.prems(1)] this]
  show ?case
    using events_for_simps(2) [of "ops_block_number sub" "[tc]" cmds]
    by (simp add: op_process_commands_def rs_run_append)
qed

text \<open>The content of the pool after commands, with nothing evicted from the cache of known orders.\<close>

fun rc_orders :: "(nat \<times> ReplaceableOrderPoolCommand) list \<Rightarrow> Order list" where
  "rc_orders [] = []"
| "rc_orders ((_, RC_Order od) # cmds) = od # rc_orders cmds"
| "rc_orders (_ # cmds) = rc_orders cmds"

lemma rc_orders_append [simp]: "rc_orders (xs @ ys) = rc_orders xs @ rc_orders ys"
  by (induction xs rule: rc_orders.induct) simp_all

lemma events_for_insert_iff:
  "Ev_Insert od \<in> set (events_for b cmds) \<longleftrightarrow>
     od \<in> set (rc_orders cmds) \<and> (target_block od = None \<or> target_block od = Some b)"
  by (induction cmds rule: rc_orders.induct) (auto simp: events_for_def)

definition keys_identify :: "Order list \<Rightarrow> bool" where
  "keys_identify ods \<longleftrightarrow> (\<forall>a \<in> set ods. \<forall>b \<in> set ods. order_key a = order_key b \<longrightarrow> a = b)"

lemma snapshot_process_order:
  assumes "\<not> lru_contains (oe_lru env) (known_orders p) (order_key od)"
  shows "known_orders (process_order env now od p) = lru_put (oe_lru env) (known_orders p) (order_key od)"
    and "set (snapshot b (process_order env now od p)) = set (snapshot b p) \<union> set (events_for b [(now, RC_Order od)])"
  using assms
  by (cases od; auto simp: process_order_def order_key_def snapshot_def events_for_def map_of_push_bundle
      BundleBlockStore_default_def Let_def split: option.splits)+

lemma snapshot_remove_sbundle:
  "set (snapshot b (process_remove_sbundle c p)) = set (snapshot b p) \<union> set (events_for b [(now, RC_CancelShareBundle c)])"
  by (auto simp: process_remove_sbundle_def snapshot_def events_for_def BundleBlockStore_default_def Let_def
      split: option.splits)

lemma snapshot_remove_bundle:
  "set (snapshot b (process_remove_bundle now rd p)) = set (snapshot b p) \<union> set (events_for b [(now, RC_CancelBundle rd)])"
  by (auto simp: process_remove_bundle_def snapshot_def events_for_def)

lemma snapshot_sinks [simp]: "snapshot b (p\<lparr>op_sinks := sinks\<rparr>) = snapshot b p"
  by (simp add: snapshot_def)

lemma known_orders_process_command:
  "known_orders (op_process_command env now c p) = (case c of
     RC_Order od \<Rightarrow> known_orders (process_order env now od p) | _ \<Rightarrow> known_orders p)"
  by (cases c) (simp_all add: op_process_command_def process_remove_sbundle_def process_remove_bundle_def Let_def)

lemma snapshot_process_command:
  "snapshot b (op_process_command env now c p) = snapshot b (case c of
     RC_Order od \<Rightarrow> process_order env now od p
   | RC_CancelShareBundle c \<Rightarrow> process_remove_sbundle c p
   | RC_CancelBundle rd \<Rightarrow> process_remove_bundle now rd p)"
  by (simp add: op_process_command_def Let_def)

definition op_content ::
  "('c, 's) op_env \<Rightarrow> (nat \<times> ReplaceableOrderPoolCommand) list \<Rightarrow> ('c, 's) OrderPool \<Rightarrow> bool" where
  "op_content env cmds p \<longleftrightarrow>
     (\<exists>ks. known_orders p = foldl (lru_put (oe_lru env)) (lru_new (oe_lru env) 10000) ks \<and>
           set ks = order_key ` set (rc_orders cmds)) \<and>
     (\<forall>b. set (snapshot b p) = set (events_for b cmds))"

lemma op_content_cancel:
  assumes "op_content env cmds p" and "\<forall>od. c \<noteq> RC_Order od"
  shows "op_content env (cmds @ [(now, c)]) (op_process_command env now c p)"
  using assms snapshot_remove_sbundle [of _ _ p now] snapshot_remove_bundle [of _ now _ p]
  by (cases c) (simp_all add: op_content_def known_orders_process_command snapshot_process_command)

lemma op_content_order:
  assumes lru: "lru_law (oe_lru env)" and content: "op_content env cmds p"
    and keys: "keys_identify (rc_orders (cmds @ [(now, RC_Order od)]))"
    and cap: "card (order_key ` set (rc_orders (cmds @ [(now, RC_Order od)]))) \<le> 10000"
  shows "op_content env (cmds @ [(now, RC_Order od)]) (op_process_command env now (RC_Order od) p)"
proof -
  let ?new = "lru_new (oe_lru env) 10000"
  obtain ks where ks: "known_orders p = foldl (lru_put (oe_lru env)) ?new ks"
      "set ks = order_key ` set (rc_orders cmds)"
    and snap: "\<And>b. set (snapshot b p) = set (events_for b cmds)"
    using content by (auto simp: op_content_def)
  have "card (set ks) \<le> 10000"
    using cap ks(2) card_mono [of "order_key ` set (rc_orders (cmds @ [(now, RC_Order od)]))" "set ks"]
    by (auto intro: order_trans)
  note known = lru_contains_iff [OF lru this, of "order_key od", folded ks(1)]
  show ?thesis
  proof (cases "order_key od \<in> set ks")
    case True
    then obtain od' where "od' \<in> set (rc_orders cmds)" "order_key od' = order_key od"
      using ks(2) by auto
    with keys have mem: "od \<in> set (rc_orders cmds)" by (auto simp: keys_identify_def)
    then have "set (events_for b [(now, RC_Order od)]) \<subseteq> set (events_for b cmds)" for b
      using events_for_insert_iff [of od b cmds] by (auto simp: events_for_def split: if_splits)
    moreover have "process_order env now od p = p" using known True by (simp add: process_order_def)
    ultimately show ?thesis
      using ks snap mem
      by (auto simp: op_content_def known_orders_process_command snapshot_process_command insert_absorb)
  next
    case False
    then have fresh: "\<not> lru_contains (oe_lru env) (known_orders p) (order_key od)" using known by simp
    have "known_orders (process_order env now od p) = foldl (lru_put (oe_lru env)) ?new (ks @ [order_key od])"
      using snapshot_process_order(1) [OF fresh] ks(1) by simp
    moreover have "set (ks @ [order_key od]) = order_key ` set (rc_orders (cmds @ [(now, RC_Order od)]))"
      using ks(2) by simp
    ultimately have "\<exists>ks. known_orders (process_order env now od p) = foldl (lru_put (oe_lru env)) ?new ks \<and>
        set ks = order_key ` set (rc_orders (cmds @ [(now, RC_Order od)]))"
      by blast
    then show ?thesis
      unfolding op_content_def using snapshot_process_order(2) [OF fresh] snap
      by (simp add: known_orders_process_command snapshot_process_command)
  qed
qed

lemma op_content_commands:
  assumes "lru_law (oe_lru env)" and "keys_identify (rc_orders cmds)"
    and "card (order_key ` set (rc_orders cmds)) \<le> 10000"
  shows "op_content env cmds (op_process_commands env cmds (OrderPool_new env ttk))"
  using assms(2,3)
proof (induction cmds rule: rev_induct)
  case Nil
  show ?case
    by (simp add: op_content_def op_process_commands_def OrderPool_new_def snapshot_def)
next
  case (snoc tc cmds)
  obtain now c where tc: "tc = (now, c)" by (cases tc)
  have "card (order_key ` set (rc_orders cmds)) \<le> card (order_key ` set (rc_orders (cmds @ [tc])))"
    by (rule card_mono) auto
  with snoc.prems have "card (order_key ` set (rc_orders cmds)) \<le> 10000" by linarith
  moreover have "keys_identify (rc_orders cmds)" using snoc.prems(1) by (simp add: keys_identify_def)
  ultimately have IH: "op_content env cmds (op_process_commands env cmds (OrderPool_new env ttk))"
    using snoc.IH by blast
  show ?case
  proof (cases "\<exists>od. c = RC_Order od")
    case True
    with op_content_order [OF assms(1) IH] snoc.prems tc show ?thesis
      by (auto simp: op_process_commands_def)
  next
    case False
    with op_content_cancel [OF IH] tc show ?thesis by (simp add: op_process_commands_def)
  qed
qed

section \<open>The pool feeding a replacement manager\<close>

definition accepting :: "'s order_sink_ops \<Rightarrow> bool" where
  "accepting ops \<longleftrightarrow> (\<forall>s od. fst (os_insert_order ops s od)) \<and> (\<forall>s i. fst (os_remove_order ops s i)) \<and>
     (\<forall>s. os_is_alive ops s)"

lemma accepting_step: "accepting ops \<Longrightarrow> fst (orm_step ops m e)"
proof -
  assume a: "accepting ops"
  then have "fst (send_remove_order_if_needed ops st s)" for st s
    by (cases st) (simp_all add: accepting_def)
  with a show ?thesis
    by (cases e) (auto simp: accepting_def orm_insert_order_def orm_remove_bundle_def orm_remove_sbundle_def
        orm_cancel_def brs_insert_order_def brs_cancel_order_def Let_def case_prod_beta split: option.splits)
qed

lemma manager_step: "rs_step (OrderReplacementManager_ops ops) m e = orm_step ops m e"
  by (cases e) (simp_all add: OrderReplacementManager_ops_def)

lemma manager_reliable: "accepting ops \<Longrightarrow> reliable (OrderReplacementManager_ops ops)"
  using accepting_step [of ops]
  by (simp add: reliable_def manager_step) (simp add: OrderReplacementManager_ops_def orm_is_alive_def [abs_def] accepting_def)

lemma manager_run:
  "accepting ops \<Longrightarrow> orm_run ops m es = (True, rs_run (OrderReplacementManager_ops ops) m es)"
proof (induction es arbitrary: m)
  case Nil
  then show ?case by (simp add: rs_run_def)
next
  case (Cons e es)
  from accepting_step [OF Cons.prems, of m e] Cons show ?case
    by (simp add: rs_run_def manager_step case_prod_beta)
qed

lemma dropWhile_sorted:
  "sorted (map snd xs) \<Longrightarrow>
   dropWhile (\<lambda>kv. \<not> now - snd kv < t) xs = filter (\<lambda>(_, time). now - time < t) xs" for now t :: nat
proof (induction xs)
  case (Cons x xs)
  show ?case
  proof (cases "now - snd x < t")
    case True
    then have "\<forall>y \<in> set xs. now - snd y < t" using Cons.prems by fastforce
    with True show ?thesis by (auto simp: case_prod_beta filter_id_conv)
  qed (use Cons in \<open>simp add: case_prod_beta\<close>)
qed simp

section \<open>Properties\<close>

text \<open>
  C25: The caches of the order pool are right in every reachable state.  Whatever commands,
  subscriptions and new heads arrive, the cached mempool size is the sum of the sizes of the stored
  mempool transactions (modulo the width of \<^verbatim>\<open>usize\<close>), every stored bundle is filed under the block
  it targets, the bundles for the current block have no target, and no subscription number occurs twice.
\<close>

theorem order_pool_invariant: "op_inv env (foldl (op_step env) (OrderPool_new env ttk) es)"
  by (rule order_pool.inv_run) (rule op_inv_new)


definition sample_op_env :: "(nat \<times> (OrderId \<times> u64) list, OrderStore OrderReplacementManager) op_env" where
  "sample_op_env = \<lparr>oe_lru = list_lru, oe_sink = OrderReplacementManager_ops OrderStore_ops, oe_tx_size = (\<lambda>_. 1)\<rparr>"

lemma accepting_OrderStore: "accepting OrderStore_ops"
  by (simp add: accepting_def OrderStore_ops_def)

lemma sample_rep_bundle_target [simp]: "target_block (sample_rep_bundle u n) = Some 100"
  by (simp add: sample_rep_bundle_def sample_bundle_def)


text \<open>
  C26: A new head expires exactly what is outdated.  After \<^verbatim>\<open>head_updated\<close> the pool holds the bundles
  for later blocks, no bundle for the current block, the mempool transactions that are young and
  have no outdated mandatory nonce, in their order, and, as cancellations are stored in order of
  arrival, exactly the cancellations younger than a minute.
\<close>

theorem head_updated_expires:
  assumes "sorted (map snd (bundle_cancellations p))" and "p' = head_updated env account_nonce now n p"
  shows "map_of (bundles_by_target_block p') b = (if n < b then map_of (bundles_by_target_block p) b else None) \<and>
    bundles_for_current_block p' = [] \<and>
    mempool_txs p' = filter (\<lambda>(od, time). now - time \<le> time_to_keep_mempool_txs p \<and>
      (\<forall>nonce \<in> set (order_nonces od). n_optional nonce \<or>
         onchain_nonce account_nonce (n_address nonce) \<le> n_nonce nonce)) (mempool_txs p) \<and>
    bundle_cancellations p' =
      filter (\<lambda>(rd, time). now - time < TIME_TO_KEEP_BUNDLE_CANCELLATIONS) (bundle_cancellations p)"
proof -
  have "must_retain_order account_nonce now time od ttk \<longleftrightarrow> now - time \<le> ttk \<and>
      (\<forall>nonce \<in> set (order_nonces od). n_optional nonce \<or>
         onchain_nonce account_nonce (n_address nonce) \<le> n_nonce nonce)" for time od ttk
    by (auto simp: must_retain_order_def list_all_iff not_less)
  then show ?thesis
    using assms dropWhile_sorted [OF assms(1)]
    by (simp add: head_updated_def retain_mempool_eq map_of_filter_key [where P = "\<lambda>x. n < x"] case_prod_beta')
qed

theorem head_updated_expires_witness:
  "bundle_cancellations (head_updated sample_op_env (\<lambda>_. Err ()) (70 * 10 ^ 9) 5
     ((OrderPool_new sample_op_env 0)\<lparr>bundle_cancellations :=
        [(\<lparr>rd_key = BundleReplacementKey_new 77 None, rd_sequence_number = 1\<rparr>, 0),
         (\<lparr>rd_key = BundleReplacementKey_new 77 None, rd_sequence_number = 2\<rparr>, 20 * 10 ^ 9)]\<rparr>)) =
   [(\<lparr>rd_key = BundleReplacementKey_new 77 None, rd_sequence_number = 2\<rparr>, 20 * 10 ^ 9)]"
proof -
  let ?p = "(OrderPool_new sample_op_env 0)\<lparr>bundle_cancellations :=
        [(\<lparr>rd_key = BundleReplacementKey_new 77 None, rd_sequence_number = 1\<rparr>, 0),
         (\<lparr>rd_key = BundleReplacementKey_new 77 None, rd_sequence_number = 2\<rparr>, 20 * 10 ^ 9)]\<rparr>"
  have "sorted (map snd (bundle_cancellations ?p))" by simp
  from head_updated_expires [OF this refl, of sample_op_env "\<lambda>_. Err ()" "70 * 10 ^ 9" 5 0] show ?thesis
    by (simp add: TIME_TO_KEEP_BUNDLE_CANCELLATIONS_def)
qed

definition resent_cmds :: "(nat \<times> ReplaceableOrderPoolCommand) list" where
  "resent_cmds = [(0, RC_Order (sample_rep_bundle 1 4)),
      (1, RC_CancelBundle \<lparr>rd_key = BundleReplacementKey_new 77 None, rd_sequence_number = 5\<rparr>),
      (2, RC_Order (sample_rep_bundle 1 6))]"


end
