(* ===== verification/Order_Priority.thy ===== *)
theory Order_Priority
  imports Order_Laws
begin

text \<open>
  The priorities by which builders try orders
  (\<^verbatim>\<open>rbuilder/src/building/block_orders/order_priority.rs\<close>).  The macro \<^verbatim>\<open>create_order_priority\<close> becomes a
  function of the list of comparisons it is given; the five invocations are the constructors of
  \<open>OrderPriorityKind\<close>.
\<close>

section \<open>Comparisons\<close>

definition MIN_SIM_RESULT_PERCENTAGE :: u64 where
  "MIN_SIM_RESULT_PERCENTAGE = 95"

definition new_sim_value_too_low :: "U256 \<Rightarrow> U256 \<Rightarrow> bool" where
  "new_sim_value_too_low original_sim new_sim \<longleftrightarrow>
     new_sim * 100 < original_sim * ucast MIN_SIM_RESULT_PERCENTAGE"

datatype ProfitInfoGetter = FullProfitInfoGetter | NonMempoolProfitInfoGetter

fun get_profit_info :: "ProfitInfoGetter \<Rightarrow> SimValue \<Rightarrow> ProfitInfo" where
  "get_profit_info FullProfitInfoGetter sim_value = full_profit_info sim_value"
| "get_profit_info NonMempoolProfitInfoGetter sim_value = non_mempool_profit_info sim_value"

text \<open>A comparison struct has an \<^verbatim>\<open>eq\<close> and a \<^verbatim>\<open>cmp\<close>.\<close>

record so_cmp =
  so_eq :: "SimulatedOrder \<Rightarrow> SimulatedOrder \<Rightarrow> bool"
  so_ordering :: "SimulatedOrder \<Rightarrow> SimulatedOrder \<Rightarrow> ordering"

definition OrderMevGasPricePriorityCmp :: "ProfitInfoGetter \<Rightarrow> so_cmp" where
  "OrderMevGasPricePriorityCmp getter =
     \<lparr>so_eq = (\<lambda>a b. pi_mev_gas_price (get_profit_info getter (so_sim_value a)) =
                   pi_mev_gas_price (get_profit_info getter (so_sim_value b))),
      so_ordering = (\<lambda>a b. cmp (pi_mev_gas_price (get_profit_info getter (so_sim_value a)))
                         (pi_mev_gas_price (get_profit_info getter (so_sim_value b))))\<rparr>"

definition simulation_too_low_gas_price :: "ProfitInfoGetter \<Rightarrow> SimValue \<Rightarrow> SimValue \<Rightarrow> bool" where
  "simulation_too_low_gas_price getter original_sim_value new_sim_value =
     new_sim_value_too_low (pi_mev_gas_price (get_profit_info getter original_sim_value))
       (pi_mev_gas_price (get_profit_info getter new_sim_value))"

definition OrderMaxProfitPriorityCmp :: "ProfitInfoGetter \<Rightarrow> so_cmp" where
  "OrderMaxProfitPriorityCmp getter =
     \<lparr>so_eq = (\<lambda>a b. pi_coinbase_profit (get_profit_info getter (so_sim_value a)) =
                   pi_coinbase_profit (get_profit_info getter (so_sim_value b))),
      so_ordering = (\<lambda>a b. cmp (pi_coinbase_profit (get_profit_info getter (so_sim_value a)))
                         (pi_coinbase_profit (get_profit_info getter (so_sim_value b))))\<rparr>"

definition simulation_too_low_profit :: "ProfitInfoGetter \<Rightarrow> SimValue \<Rightarrow> SimValue \<Rightarrow> bool" where
  "simulation_too_low_profit getter original_sim_value new_sim_value =
     new_sim_value_too_low (pi_coinbase_profit (get_profit_info getter original_sim_value))
       (pi_coinbase_profit (get_profit_info getter new_sim_value))"

definition OrderTypeCmp :: so_cmp where
  "OrderTypeCmp =
     \<lparr>so_eq = (\<lambda>a b. is_tx (so_order a) = is_tx (so_order b)),
      so_ordering = (\<lambda>a b. let a_is_tx = is_tx (so_order a); b_is_tx = is_tx (so_order b)
                in if a_is_tx = b_is_tx then Equal else if a_is_tx then Less else Greater)\<rparr>"

definition is_long :: "SimulatedOrder \<Rightarrow> bool" where
  "is_long a \<longleftrightarrow> 3 \<le> list_txs_len (so_order a)"

definition OrderLengthThreeCmp :: so_cmp where
  "OrderLengthThreeCmp =
     \<lparr>so_eq = (\<lambda>a b. is_long a = is_long b),
      so_ordering = (\<lambda>a b. let a_is_long = is_long a; b_is_long = is_long b
                in if a_is_long = b_is_long then Equal else if a_is_long then Greater else Less)\<rparr>"

definition OrderIDCmp :: so_cmp where
  "OrderIDCmp =
     \<lparr>so_eq = (\<lambda>a b. so_id a = so_id b), so_ordering = (\<lambda>a b. OrderId_cmp (so_id a) (so_id b))\<rparr>"

section \<open>The priorities\<close>

text \<open>The \<^verbatim>\<open>eq\<close> and \<^verbatim>\<open>cmp\<close> of the macro: the given comparisons in turn, the identifier last.\<close>

fun priority_eq :: "so_cmp list \<Rightarrow> SimulatedOrder \<Rightarrow> SimulatedOrder \<Rightarrow> bool" where
  "priority_eq [] a b = so_eq OrderIDCmp a b"
| "priority_eq (c # cs) a b = (so_eq c a b \<and> priority_eq cs a b)"

fun priority_cmp :: "so_cmp list \<Rightarrow> SimulatedOrder \<Rightarrow> SimulatedOrder \<Rightarrow> ordering" where
  "priority_cmp [] a b = so_ordering OrderIDCmp a b"
| "priority_cmp (c # cs) a b = then_with (so_ordering c a b) (priority_cmp cs a b)"

datatype OrderPriorityKind =
    OrderMevGasPricePriority
  | OrderMaxProfitPriority
  | OrderTypePriority
  | OrderLengthThreeMaxProfitPriority
  | OrderLengthThreeMevGasPricePriority

fun priority_cmps :: "OrderPriorityKind \<Rightarrow> ProfitInfoGetter \<Rightarrow> so_cmp list" where
  "priority_cmps OrderMevGasPricePriority g = [OrderMevGasPricePriorityCmp g]"
| "priority_cmps OrderMaxProfitPriority g = [OrderMaxProfitPriorityCmp g]"
| "priority_cmps OrderTypePriority g = [OrderTypeCmp, OrderMaxProfitPriorityCmp g]"
| "priority_cmps OrderLengthThreeMaxProfitPriority g = [OrderLengthThreeCmp, OrderMaxProfitPriorityCmp g]"
| "priority_cmps OrderLengthThreeMevGasPricePriority g = [OrderLengthThreeCmp, OrderMevGasPricePriorityCmp g]"

fun simulation_too_low :: "OrderPriorityKind \<Rightarrow> ProfitInfoGetter \<Rightarrow> SimValue \<Rightarrow> SimValue \<Rightarrow> bool" where
  "simulation_too_low OrderMevGasPricePriority g = simulation_too_low_gas_price g"
| "simulation_too_low OrderMaxProfitPriority g = simulation_too_low_profit g"
| "simulation_too_low OrderTypePriority g = simulation_too_low_profit g"
| "simulation_too_low OrderLengthThreeMaxProfitPriority g = simulation_too_low_profit g"
| "simulation_too_low OrderLengthThreeMevGasPricePriority g = simulation_too_low_profit g"

definition OrderPriority_eq ::
  "OrderPriorityKind \<Rightarrow> ProfitInfoGetter \<Rightarrow> SimulatedOrder \<Rightarrow> SimulatedOrder \<Rightarrow> bool" where
  "OrderPriority_eq kind g = priority_eq (priority_cmps kind g)"

definition OrderPriority_cmp ::
  "OrderPriorityKind \<Rightarrow> ProfitInfoGetter \<Rightarrow> SimulatedOrder \<Rightarrow> SimulatedOrder \<Rightarrow> ordering" where
  "OrderPriority_cmp kind g = priority_cmp (priority_cmps kind g)"

section \<open>The contract of a priority\<close>

text \<open>
  What the stores rely on: a priority is a comparison that agrees with its equality, and orders
  of equal priority have the same identifier.
\<close>

locale order_priority = comparison c
  for c :: "SimulatedOrder \<Rightarrow> SimulatedOrder \<Rightarrow> ordering" +
  fixes e :: "SimulatedOrder \<Rightarrow> SimulatedOrder \<Rightarrow> bool"
  assumes cmp_eq: "c a b = Equal \<longleftrightarrow> e a b"
    and eq_id: "e a b \<Longrightarrow> so_id a = so_id b"
begin

lemma distinct_ids_ordered: "so_id a \<noteq> so_id b \<Longrightarrow> c a b = Less \<or> c a b = Greater"
  using cmp_eq eq_id by (cases "c a b") auto

text \<open>A non-empty set of orders with distinct identifiers has a unique best order.\<close>

lemma best_unique:
  "so_id a \<noteq> so_id b \<Longrightarrow> c b a \<noteq> Greater \<Longrightarrow> c a b = Greater"
  using distinct_ids_ordered [of a b] c_greater_iff [of b a] by auto

end

definition lawful_cmp :: "so_cmp \<Rightarrow> bool" where
  "lawful_cmp c \<longleftrightarrow> comparison (so_ordering c) \<and> (\<forall>a b. so_ordering c a b = Equal \<longleftrightarrow> so_eq c a b)"

lemma lawful_key:
  fixes f :: "SimulatedOrder \<Rightarrow> 'b::linorder"
  assumes "so_ordering c = (\<lambda>a b. cmp (f a) (f b))" and "so_eq c = (\<lambda>a b. f a = f b)"
  shows "lawful_cmp c"
  using assms cmp_key.comparison_axioms [of f] by (simp add: lawful_cmp_def)

lemma lawful_cmps:
  "lawful_cmp (OrderMevGasPricePriorityCmp g)" "lawful_cmp (OrderMaxProfitPriorityCmp g)"
  "lawful_cmp OrderTypeCmp" "lawful_cmp OrderLengthThreeCmp" "lawful_cmp OrderIDCmp"
proof -
  show "lawful_cmp (OrderMevGasPricePriorityCmp g)" "lawful_cmp (OrderMaxProfitPriorityCmp g)"
    by (rule lawful_key; simp add: OrderMevGasPricePriorityCmp_def OrderMaxProfitPriorityCmp_def)+
  show "lawful_cmp OrderTypeCmp"
    by (rule lawful_key [where f = "\<lambda>a. \<not> is_tx (so_order a)"]) (auto simp: OrderTypeCmp_def cmp_def fun_eq_iff Let_def)
  show "lawful_cmp OrderLengthThreeCmp"
    by (rule lawful_key [where f = is_long]) (auto simp: OrderLengthThreeCmp_def cmp_def fun_eq_iff Let_def)
  show "lawful_cmp OrderIDCmp"
    by (rule lawful_key [where f = so_id]) (simp_all add: OrderIDCmp_def cmp_OrderId)
qed

lemma lawful_priority:
  assumes "list_all lawful_cmp cs"
  shows "comparison (priority_cmp cs) \<and> (\<forall>a b. priority_cmp cs a b = Equal \<longleftrightarrow> priority_eq cs a b) \<and>
    (\<forall>a b. priority_eq cs a b \<longrightarrow> so_id a = so_id b)"
  using assms
proof (induction cs)
  case Nil
  have "priority_cmp [] = so_ordering OrderIDCmp" by (intro ext) simp
  with lawful_cmps(5) show ?case by (simp add: lawful_cmp_def OrderIDCmp_def)
next
  case (Cons c cs)
  have "priority_cmp (c # cs) = (\<lambda>a b. then_with (so_ordering c a b) (priority_cmp cs a b))" by (intro ext) simp
  with Cons show ?case by (auto simp: lawful_cmp_def intro: comparison_then_with)
qed

lemma lawful_priority_cmps: "list_all lawful_cmp (priority_cmps kind g)"
  by (cases kind) (simp_all add: lawful_cmps)

interpretation order_priority_kind: order_priority "OrderPriority_cmp kind g" "OrderPriority_eq kind g" for kind g
proof -
  note laws = lawful_priority [OF lawful_priority_cmps [of kind g], folded OrderPriority_cmp_def OrderPriority_eq_def]
  show "order_priority (OrderPriority_cmp kind g) (OrderPriority_eq kind g)"
    unfolding order_priority_def order_priority_axioms_def using laws by blast
qed

section \<open>Properties\<close>

text \<open>
  C31: Every priority is a strict total order on orders with different identifiers and a comparison
  in the sense of \<^verbatim>\<open>Ord\<close>: antisymmetric, transitive, and \<^verbatim>\<open>Equal\<close> exactly when \<^verbatim>\<open>eq\<close> holds.
\<close>

theorem priorities_total:
  "OrderPriority_cmp kind g b a = reverse_ordering (OrderPriority_cmp kind g a b) \<and>
   (OrderPriority_cmp kind g a b = Less \<and> OrderPriority_cmp kind g b c = Less
      \<longrightarrow> OrderPriority_cmp kind g a c = Less) \<and>
   (OrderPriority_cmp kind g a b = Equal \<longleftrightarrow> OrderPriority_eq kind g a b) \<and>
   (OrderPriority_eq kind g a b \<longrightarrow> so_id a = so_id b)"
  using order_priority_kind.c_sym [of kind g b a] order_priority_kind.c_trans [of kind g a b c]
    order_priority_kind.cmp_eq [of kind g a b] order_priority_kind.eq_id [of kind g a b]
  by simp

definition sample_sim_order :: "TransactionSignedEcRecoveredWithBlobs \<Rightarrow> U256 \<Rightarrow> SimulatedOrder" where
  "sample_sim_order t profit = \<lparr>so_order = Order_Tx (MempoolTx t),
     so_sim_value = SimValue_new profit profit (BlockSpace_new 21000 0 0) [], so_used_state_trace = None\<rparr>"

theorem priorities_total_witness:
  "OrderPriority_cmp OrderMaxProfitPriority FullProfitInfoGetter
     (sample_sim_order (sample_tx 1 7 5) 10) (sample_sim_order (sample_tx 3 7 5) 30) = Less"
proof -
  let ?c = "OrderPriority_cmp OrderMaxProfitPriority FullProfitInfoGetter"
  let ?o = "\<lambda>h. sample_sim_order (sample_tx h 7 5) (10 * h)"
  have "?c (?o 1) (?o 2) = Less \<and> ?c (?o 2) (?o 3) = Less"
    by (simp add: OrderPriority_cmp_def OrderMaxProfitPriorityCmp_def sample_sim_order_def SimValue_new_def
        ProfitInfo_new_def)
  with priorities_total [of OrderMaxProfitPriority FullProfitInfoGetter "?o 2" "?o 1" "?o 3"]
  show ?thesis by simp
qed

text \<open>
  An execution is too low exactly when it gives less than 95 percent of the simulated value, as
  long as the values are small enough for the products not to wrap around (below \<open>2 ^ 249\<close> wei).
\<close>

theorem too_low_is_below_95_percent:
  assumes "unat orig < 2 ^ 249" and "unat new < 2 ^ 249"
  shows "new_sim_value_too_low orig new \<longleftrightarrow> 100 * unat new < 95 * unat orig"
proof -
  have "unat (new * 100) = 100 * unat new" "unat (orig * ucast MIN_SIM_RESULT_PERCENTAGE) = 95 * unat orig"
    using assms by (simp_all add: unat_word_ariths MIN_SIM_RESULT_PERCENTAGE_def)
  then show ?thesis by (simp add: new_sim_value_too_low_def word_less_nat_alt)
qed

theorem too_low_is_below_95_percent_witness:
  "new_sim_value_too_low 1000 949 \<and> \<not> new_sim_value_too_low 1000 950"
  using too_low_is_below_95_percent [of 1000 949] too_low_is_below_95_percent [of 1000 950] by simp

end
