(* ===== verification/Prioritized_Store.thy ===== *)
theory Prioritized_Store
  imports Order_Priority
begin

text \<open>
  The store that gives builders the best order that can be executed now
  (\<^verbatim>\<open>rbuilder/src/building/block_orders/prioritized_order_store.rs\<close> and the sink trait of
  \<^verbatim>\<open>block_orders/mod.rs\<close>).  The priority queue comes from the crate \<^verbatim>\<open>priority_queue\<close> and is an argument;
  so is the order in which the hash set of invalidated orders is iterated.
\<close>

section \<open>Priority queues\<close>

record 'q pq_ops =
  pq_new :: 'q
  pq_push :: "'q \<Rightarrow> OrderId \<Rightarrow> SimulatedOrder \<Rightarrow> 'q"
  pq_pop :: "'q \<Rightarrow> ((OrderId \<times> SimulatedOrder) \<times> 'q) option"
  pq_remove :: "'q \<Rightarrow> OrderId \<Rightarrow> SimulatedOrder option \<times> 'q"

text \<open>
  Pushing sets the priority of an item; removing returns its priority; popping returns an item of
  the greatest priority, and nothing only from an empty queue.  \<open>view\<close> gives the items with their priorities.
\<close>

definition pq_law ::
  "(SimulatedOrder \<Rightarrow> SimulatedOrder \<Rightarrow> ordering) \<Rightarrow> 'q pq_ops \<Rightarrow> ('q \<Rightarrow> OrderId \<Rightarrow> SimulatedOrder option) \<Rightarrow> bool" where
  "pq_law c ops view \<longleftrightarrow>
     view (pq_new ops) = (\<lambda>_. None) \<and>
     (\<forall>q i p. view (pq_push ops q i p) = (view q)(i \<mapsto> p)) \<and>
     (\<forall>q i. fst (pq_remove ops q i) = view q i \<and> view (snd (pq_remove ops q i)) = (view q)(i := None)) \<and>
     (\<forall>q. case pq_pop ops q of
            None \<Rightarrow> view q = (\<lambda>_. None)
          | Some ((i, p), q') \<Rightarrow> view q i = Some p \<and> view q' = (view q)(i := None) \<and>
              (\<forall>j p'. view q j = Some p' \<longrightarrow> c p' p \<noteq> Greater))"

section \<open>The store\<close>

datatype panic = Expect_failed

record 'q PrioritizedOrderStore =
  main_queue :: 'q
  main_queue_nonces :: "address \<Rightarrow> OrderId list option"
  onchain_nonces :: "address \<Rightarrow> u64 option"
  pending_orders :: "AccountNonce \<Rightarrow> OrderId list option"
  pos_orders :: "(OrderId \<times> SimulatedOrder) list"
  orders_statistics :: OrderStatistics

definition PrioritizedOrderStore_new :: "'q pq_ops \<Rightarrow> AccountNonce list \<Rightarrow> 'q PrioritizedOrderStore" where
  "PrioritizedOrderStore_new pq initial =
     \<lparr>main_queue = pq_new pq, main_queue_nonces = (\<lambda>_. None),
      onchain_nonces = foldl (\<lambda>m n. m(an_account n \<mapsto> an_nonce n)) (\<lambda>_. None) initial,
      pending_orders = (\<lambda>_. None), pos_orders = [], orders_statistics = OrderStatistics_new\<rparr>"

text \<open>\<^verbatim>\<open>self.onchain_nonces.get(&address).cloned().unwrap_or_default()\<close>\<close>

definition current_nonce :: "(address \<Rightarrow> u64 option) \<Rightarrow> address \<Rightarrow> u64" where
  "current_nonce m a = (case m a of None \<Rightarrow> 0 | Some n \<Rightarrow> n)"

definition remove_from_orders ::
  "OrderId \<Rightarrow> 'q PrioritizedOrderStore \<Rightarrow> SimulatedOrder option \<times> 'q PrioritizedOrderStore" where
  "remove_from_orders i s =
     (case map_of (pos_orders s) i of
        None \<Rightarrow> (None, s)
      | Some sim_order \<Rightarrow>
          (Some sim_order, s\<lparr>pos_orders := filter (\<lambda>kv. fst kv \<noteq> i) (pos_orders s),
             orders_statistics := stats_remove (orders_statistics s) (so_order sim_order)\<rparr>))"

definition forget_nonce ::
  "OrderId \<Rightarrow> (address \<Rightarrow> OrderId list option) \<Rightarrow> Nonce \<Rightarrow> (address \<Rightarrow> OrderId list option)" where
  "forget_nonce i m nonce =
     (case m (n_address nonce) of
        Some ids \<Rightarrow> m(n_address nonce \<mapsto> filter (\<lambda>j. j \<noteq> i) ids)
      | None \<Rightarrow> m)"

definition remove_poped_order ::
  "OrderId \<Rightarrow> 'q PrioritizedOrderStore \<Rightarrow> SimulatedOrder option \<times> 'q PrioritizedOrderStore" where
  "remove_poped_order i s =
     (case remove_from_orders i s of
        (None, s1) \<Rightarrow> (None, s1)
      | (Some sim_order, s1) \<Rightarrow>
          (Some sim_order, s1\<lparr>main_queue_nonces :=
             foldl (forget_nonce (so_id sim_order)) (main_queue_nonces s1) (so_nonces sim_order)\<rparr>))"

definition pop_order ::
  "'q pq_ops \<Rightarrow> 'q PrioritizedOrderStore \<Rightarrow> (SimulatedOrder option \<times> 'q PrioritizedOrderStore, panic) result" where
  "pop_order pq s =
     (case pq_pop pq (main_queue s) of
        None \<Rightarrow> Ok (None, s)
      | Some ((i, _), q) \<Rightarrow>
          (case remove_poped_order i (s\<lparr>main_queue := q\<rparr>) of
             (Some sim_order, s1) \<Rightarrow> Ok (Some sim_order, s1)
           | (None, _) \<Rightarrow> Err Expect_failed))"

text \<open>The nonces an order waits for; \<open>None\<close> when it can no longer be included.\<close>

fun collect_pending ::
  "(address \<Rightarrow> u64 option) \<Rightarrow> Nonce list \<Rightarrow> AccountNonce list \<Rightarrow> AccountNonce list option" where
  "collect_pending onchain [] pending = Some pending"
| "collect_pending onchain (n # ns) pending =
     (let onchain_nonce = current_nonce onchain (n_address n)
      in if n_nonce n < onchain_nonce \<and> \<not> n_optional n then None
         else if onchain_nonce < n_nonce n \<and> \<not> n_optional n
         then collect_pending onchain ns (pending @ [\<lparr>an_nonce = n_nonce n, an_account = n_address n\<rparr>])
         else collect_pending onchain ns pending)"

definition register_nonce ::
  "OrderId \<Rightarrow> (address \<Rightarrow> OrderId list option) \<Rightarrow> Nonce \<Rightarrow> (address \<Rightarrow> OrderId list option)" where
  "register_nonce i m nonce =
     m(n_address nonce \<mapsto> (case m (n_address nonce) of None \<Rightarrow> [] | Some ids \<Rightarrow> ids) @ [i])"

definition register_pending ::
  "OrderId \<Rightarrow> (AccountNonce \<Rightarrow> OrderId list option) \<Rightarrow> AccountNonce \<Rightarrow> (AccountNonce \<Rightarrow> OrderId list option)" where
  "register_pending i m pending_nonce =
     (let pending = (case m pending_nonce of None \<Rightarrow> [] | Some ids \<Rightarrow> ids)
      in m(pending_nonce \<mapsto> (if i \<in> set pending then pending else pending @ [i])))"

definition pos_insert_order ::
  "'q pq_ops \<Rightarrow> SimulatedOrder \<Rightarrow> 'q PrioritizedOrderStore \<Rightarrow> 'q PrioritizedOrderStore" where
  "pos_insert_order pq sim_order s =
     (if map_of (pos_orders s) (so_id sim_order) \<noteq> None then s
      else (case collect_pending (onchain_nonces s) (so_nonces sim_order) [] of
         None \<Rightarrow> s
       | Some pending_nonces \<Rightarrow>
           let s1 = (if pending_nonces = []
             then s\<lparr>main_queue := pq_push pq (main_queue s) (so_id sim_order) sim_order,
                    main_queue_nonces := foldl (register_nonce (so_id sim_order)) (main_queue_nonces s) (so_nonces sim_order)\<rparr>
             else s\<lparr>pending_orders := foldl (register_pending (so_id sim_order)) (pending_orders s) pending_nonces\<rparr>)
           in s1\<lparr>orders_statistics := stats_add (orders_statistics s1) (so_order sim_order),
                 pos_orders := alist_update (so_id sim_order) sim_order (pos_orders s1)\<rparr>))"

definition pos_remove_order ::
  "'q pq_ops \<Rightarrow> OrderId \<Rightarrow> 'q PrioritizedOrderStore \<Rightarrow> SimulatedOrder option \<times> 'q PrioritizedOrderStore" where
  "pos_remove_order pq i s =
     (let (removed, q) = pq_remove pq (main_queue s) i;
          s1 = s\<lparr>main_queue := q\<rparr>;
          s2 = (if removed \<noteq> None then snd (remove_poped_order i s1) else s1)
      in remove_from_orders i s2)"

definition get_all_orders :: "(SimulatedOrder list \<Rightarrow> SimulatedOrder list) \<Rightarrow> 'q PrioritizedOrderStore \<Rightarrow> SimulatedOrder list" where
  "get_all_orders ord s = ord (map snd (pos_orders s))"

section \<open>Updating the nonces\<close>

text \<open>The first loop: the new nonces and the orders that may have become invalid.\<close>

definition set_nonce_step ::
  "'q PrioritizedOrderStore \<times> OrderId list \<Rightarrow> AccountNonce \<Rightarrow> 'q PrioritizedOrderStore \<times> OrderId list" where
  "set_nonce_step si new_nonce =
     (let (s, invalidated) = si;
          s1 = s\<lparr>onchain_nonces := (onchain_nonces s)(an_account new_nonce \<mapsto> an_nonce new_nonce)\<rparr>
      in case main_queue_nonces s1 (an_account new_nonce) of
           None \<Rightarrow> (s1, invalidated)
         | Some ids \<Rightarrow>
             (s1\<lparr>main_queue_nonces := (main_queue_nonces s1)(an_account new_nonce := None)\<rparr>,
              fold List.insert ids invalidated))"

text \<open>The validity check of the second loop; \<open>None\<close> is \<^verbatim>\<open>valid = false\<close>.\<close>

fun count_valid :: "(address \<Rightarrow> u64 option) \<Rightarrow> Nonce list \<Rightarrow> nat \<Rightarrow> nat option" where
  "count_valid onchain [] valid_nonces = Some valid_nonces"
| "count_valid onchain (n # ns) valid_nonces =
     (let onchain_nonce = current_nonce onchain (n_address n)
      in if n_nonce n < onchain_nonce \<and> \<not> n_optional n then None
         else if onchain_nonce = n_nonce n then count_valid onchain ns (valid_nonces + 1)
         else count_valid onchain ns valid_nonces)"

definition invalidate_order ::
  "'q pq_ops \<Rightarrow> OrderId \<Rightarrow> 'q PrioritizedOrderStore \<Rightarrow> ('q PrioritizedOrderStore, panic) result" where
  "invalidate_order pq i s =
     (case remove_poped_order i (s\<lparr>main_queue := snd (pq_remove pq (main_queue s) i)\<rparr>) of
        (None, _) \<Rightarrow> Err Expect_failed
      | (Some sim_order, s1) \<Rightarrow>
          let retain_order = (case count_valid (onchain_nonces s1) (so_nonces sim_order) 0 of
                None \<Rightarrow> False | Some valid_nonces \<Rightarrow> 0 < valid_nonces)
          in Ok (if retain_order then pos_insert_order pq sim_order s1 else s1))"

fun invalidate_orders ::
  "'q pq_ops \<Rightarrow> OrderId list \<Rightarrow> 'q PrioritizedOrderStore \<Rightarrow> ('q PrioritizedOrderStore, panic) result" where
  "invalidate_orders pq [] s = Ok s"
| "invalidate_orders pq (i # is) s =
     (case invalidate_order pq i s of Err e \<Rightarrow> Err e | Ok s1 \<Rightarrow> invalidate_orders pq is s1)"

text \<open>The third loop: orders that waited for one of the new nonces.\<close>

fun take_orders :: "OrderId list \<Rightarrow> 'q PrioritizedOrderStore \<Rightarrow> SimulatedOrder list \<times> 'q PrioritizedOrderStore" where
  "take_orders [] s = ([], s)"
| "take_orders (i # is) s =
     (let (res, s1) = remove_from_orders i s; (rest, s2) = take_orders is s1
      in (case res of None \<Rightarrow> rest | Some sim_order \<Rightarrow> sim_order # rest, s2))"

definition release_pending ::
  "'q pq_ops \<Rightarrow> 'q PrioritizedOrderStore \<Rightarrow> AccountNonce \<Rightarrow> 'q PrioritizedOrderStore" where
  "release_pending pq s new_nonce =
     (case pending_orders s new_nonce of
        None \<Rightarrow> s
      | Some pending \<Rightarrow>
          let (sim_orders, s1) = take_orders pending (s\<lparr>pending_orders := (pending_orders s)(new_nonce := None)\<rparr>)
          in foldl (\<lambda>s sim_order. pos_insert_order pq sim_order s) s1 sim_orders)"

definition update_onchain_nonces ::
  "'q pq_ops \<Rightarrow> (OrderId list \<Rightarrow> OrderId list) \<Rightarrow> AccountNonce list \<Rightarrow> 'q PrioritizedOrderStore
     \<Rightarrow> ('q PrioritizedOrderStore, panic) result" where
  "update_onchain_nonces pq ord new_nonces s =
     (let (s1, invalidated_orders) = foldl set_nonce_step (s, []) new_nonces
      in case invalidate_orders pq (ord invalidated_orders) s1 of
           Err e \<Rightarrow> Err e
         | Ok s2 \<Rightarrow> Ok (foldl (release_pending pq) s2 new_nonces))"

section \<open>Sinks of simulated orders\<close>

record 's sim_sink_ops =
  ss_insert_order :: "SimulatedOrder \<Rightarrow> 's \<Rightarrow> 's"
  ss_remove_order :: "OrderId \<Rightarrow> 's \<Rightarrow> SimulatedOrder option \<times> 's"

fun ss_remove_orders :: "'s sim_sink_ops \<Rightarrow> OrderId list \<Rightarrow> 's \<Rightarrow> SimulatedOrder list \<times> 's" where
  "ss_remove_orders ops [] s = ([], s)"
| "ss_remove_orders ops (i # is) s =
     (let (res, s1) = ss_remove_order ops i s; (rest, s2) = ss_remove_orders ops is s1
      in (case res of None \<Rightarrow> rest | Some sim_order \<Rightarrow> sim_order # rest, s2))"

datatype SimulatedOrderCommand = Simulation SimulatedOrder | Cancellation OrderId

definition simulated_order_command_to_sink :: "'s sim_sink_ops \<Rightarrow> SimulatedOrderCommand \<Rightarrow> 's \<Rightarrow> 's" where
  "simulated_order_command_to_sink ops command sink =
     (case command of
        Simulation sim_order \<Rightarrow> ss_insert_order ops sim_order sink
      | Cancellation i \<Rightarrow> snd (ss_remove_order ops i sink))"

definition PrioritizedOrderStore_sink :: "'q pq_ops \<Rightarrow> 'q PrioritizedOrderStore sim_sink_ops" where
  "PrioritizedOrderStore_sink pq =
     \<lparr>ss_insert_order = pos_insert_order pq, ss_remove_order = pos_remove_order pq\<rparr>"

record SimulatedOrderStore =
  sos_orders :: "(OrderId \<times> SimulatedOrder) list"
  new_orders :: "SimulatedOrder list option"

definition SimulatedOrderStore_new :: SimulatedOrderStore where
  "SimulatedOrderStore_new = \<lparr>sos_orders = [], new_orders = Some []\<rparr>"

definition sos_get_orders :: "(SimulatedOrder list \<Rightarrow> SimulatedOrder list) \<Rightarrow> SimulatedOrderStore \<Rightarrow> SimulatedOrder list" where
  "sos_get_orders ord s = ord (map snd (sos_orders s))"

definition drain_new_orders :: "SimulatedOrderStore \<Rightarrow> SimulatedOrder list option \<times> SimulatedOrderStore" where
  "drain_new_orders s = (new_orders s, s\<lparr>new_orders := Some []\<rparr>)"

definition sos_insert_order :: "SimulatedOrder \<Rightarrow> SimulatedOrderStore \<Rightarrow> SimulatedOrderStore" where
  "sos_insert_order sim_order s =
     s\<lparr>new_orders := map_option (\<lambda>new. new @ [sim_order]) (new_orders s),
       sos_orders := alist_update (so_id sim_order) sim_order (sos_orders s)\<rparr>"

definition sos_remove_order :: "OrderId \<Rightarrow> SimulatedOrderStore \<Rightarrow> SimulatedOrder option \<times> SimulatedOrderStore" where
  "sos_remove_order i s =
     (map_of (sos_orders s) i, s\<lparr>new_orders := None, sos_orders := filter (\<lambda>kv. fst kv \<noteq> i) (sos_orders s)\<rparr>)"

definition SimulatedOrderStore_sink :: "SimulatedOrderStore sim_sink_ops" where
  "SimulatedOrderStore_sink = \<lparr>ss_insert_order = sos_insert_order, ss_remove_order = sos_remove_order\<rparr>"

text \<open>\<^verbatim>\<open>block_orders_from_sim_orders\<close>: all nonces are read first, an error of the provider ends it.\<close>

fun collect_onchain ::
  "(address \<Rightarrow> (u64 option, 'e) result) \<Rightarrow> Nonce list \<Rightarrow> AccountNonce list \<Rightarrow> (AccountNonce list, 'e) result" where
  "collect_onchain account_nonce [] acc = Ok acc"
| "collect_onchain account_nonce (n # ns) acc =
     (case account_nonce (n_address n) of
        Err e \<Rightarrow> Err e
      | Ok v \<Rightarrow> collect_onchain account_nonce ns
          (acc @ [\<lparr>an_nonce = (case v of None \<Rightarrow> 0 | Some k \<Rightarrow> k), an_account = n_address n\<rparr>]))"

definition block_orders_from_sim_orders ::
  "'q pq_ops \<Rightarrow> SimulatedOrder list \<Rightarrow> (address \<Rightarrow> (u64 option, 'e) result) \<Rightarrow> ('q PrioritizedOrderStore, 'e) result" where
  "block_orders_from_sim_orders pq sim_orders account_nonce =
     (case collect_onchain account_nonce (concat (map so_nonces sim_orders)) [] of
        Err e \<Rightarrow> Err e
      | Ok onchain \<Rightarrow>
          Ok (foldl (\<lambda>s sim_order. pos_insert_order pq sim_order s) (PrioritizedOrderStore_new pq onchain) sim_orders))"

section \<open>The tables of identifiers\<close>

definition account_nonce_of :: "Nonce \<Rightarrow> AccountNonce" where
  "account_nonce_of n = \<lparr>an_nonce = n_nonce n, an_account = n_address n\<rparr>"

lemma ids_at_register_nonce:
  "ids_at (foldl (register_nonce i) m ns) a = ids_at m a \<union> (if a \<in> n_address ` set ns then {i} else {})"
proof (induction ns arbitrary: m)
  case (Cons n ns)
  have "ids_at (register_nonce i m n) a = ids_at m a \<union> (if a = n_address n then {i} else {})"
    by (auto simp: register_nonce_def ids_at_def split: option.splits)
  with Cons show ?case by auto
qed simp

lemma ids_at_register_pending:
  "ids_at (foldl (register_pending i) m ks) k = ids_at m k \<union> (if k \<in> set ks then {i} else {})"
proof (induction ks arbitrary: m)
  case (Cons p ks)
  have "ids_at (register_pending i m p) k = ids_at m k \<union> (if k = p then {i} else {})"
    by (auto simp: register_pending_def ids_at_def Let_def split: option.splits)
  with Cons show ?case by auto
qed simp

lemma ids_at_forget_nonce:
  "ids_at (foldl (forget_nonce i) m ns) a = ids_at m a - (if a \<in> n_address ` set ns then {i} else {})"
proof (induction ns arbitrary: m)
  case (Cons n ns)
  have "ids_at (forget_nonce i m n) a = ids_at m a - (if a = n_address n then {i} else {})"
    by (auto simp: forget_nonce_def ids_at_def split: option.splits)
  with Cons show ?case by auto
qed simp

section \<open>Executable orders\<close>

definition ready :: "(address \<Rightarrow> u64 option) \<Rightarrow> SimulatedOrder \<Rightarrow> bool" where
  "ready onchain sim_order \<longleftrightarrow>
     (\<forall>n \<in> set (so_nonces sim_order). n_optional n \<or> current_nonce onchain (n_address n) = n_nonce n)"

lemma collect_pending_eq:
  "collect_pending onchain ns acc =
     (if \<exists>n \<in> set ns. n_nonce n < current_nonce onchain (n_address n) \<and> \<not> n_optional n then None
      else Some (acc @ map account_nonce_of
        (filter (\<lambda>n. current_nonce onchain (n_address n) < n_nonce n \<and> \<not> n_optional n) ns)))"
  by (induction onchain ns acc rule: collect_pending.induct) (auto simp: Let_def account_nonce_of_def)

lemma collect_pending_ready: "collect_pending onchain (so_nonces od) [] = Some [] \<longleftrightarrow> ready onchain od"
proof -
  have "collect_pending onchain (so_nonces od) [] = Some [] \<longleftrightarrow> (\<forall>n \<in> set (so_nonces od).
      n_optional n \<or> (\<not> n_nonce n < current_nonce onchain (n_address n) \<and> \<not> current_nonce onchain (n_address n) < n_nonce n))"
    by (auto simp: collect_pending_eq filter_empty_conv)
  also have "\<dots> \<longleftrightarrow> ready onchain od"
    unfolding ready_def by (metis less_irrefl linorder_neqE)
  finally show ?thesis .
qed

lemma collect_pending_waits:
  assumes "collect_pending onchain (so_nonces od) [] = Some ps" and "ps \<noteq> []"
  shows "\<exists>n \<in> set (so_nonces od). \<not> n_optional n \<and> account_nonce_of n \<in> set ps \<and>
    current_nonce onchain (n_address n) \<noteq> n_nonce n"
proof -
  obtain p where "p \<in> set ps" using assms(2) by (cases ps) auto
  with assms(1) obtain n where "n \<in> set (so_nonces od)" "p = account_nonce_of n" "\<not> n_optional n"
    "current_nonce onchain (n_address n) < n_nonce n"
    by (auto simp: collect_pending_eq split: if_splits)
  with \<open>p \<in> set ps\<close> show ?thesis by (intro bexI [of _ n]) auto
qed

section \<open>The invariant\<close>

text \<open>
  \<open>X\<close> are the orders in the queue that still have to be checked after a change of nonces, \<open>Y\<close> the
  nonces whose waiting orders still have to be released, \<open>W\<close> orders that are taken out to be inserted again.
\<close>

definition pos_inv ::
  "('q \<Rightarrow> OrderId \<Rightarrow> SimulatedOrder option) \<Rightarrow> OrderId set \<Rightarrow> AccountNonce set \<Rightarrow> SimulatedOrder set
     \<Rightarrow> 'q PrioritizedOrderStore \<Rightarrow> bool" where
  "pos_inv view X Y W s \<longleftrightarrow>
     (\<forall>i od. map_of (pos_orders s) i = Some od \<longrightarrow> so_id od = i) \<and>
     (\<forall>i od. view (main_queue s) i = Some od \<longrightarrow> map_of (pos_orders s) i = Some od \<or> (od \<in> W \<and> so_id od = i)) \<and>
     (\<forall>i od. view (main_queue s) i = Some od \<longrightarrow> i \<notin> X \<longrightarrow> ready (onchain_nonces s) od \<and>
        (\<forall>n \<in> set (so_nonces od). i \<in> ids_at (main_queue_nonces s) (n_address n))) \<and>
     (\<forall>a i. i \<in> ids_at (main_queue_nonces s) a \<longrightarrow>
        (\<exists>od. view (main_queue s) i = Some od \<and> a \<in> n_address ` set (so_nonces od))) \<and>
     (\<forall>i od. map_of (pos_orders s) i = Some od \<longrightarrow> view (main_queue s) i = None \<longrightarrow>
        (\<exists>n \<in> set (so_nonces od). \<not> n_optional n \<and> i \<in> ids_at (pending_orders s) (account_nonce_of n) \<and>
           (current_nonce (onchain_nonces s) (n_address n) \<noteq> n_nonce n \<or> account_nonce_of n \<in> Y)))"

lemma pos_invD:
  assumes "pos_inv view X Y W s"
  shows pos_inv_id: "\<And>i od. map_of (pos_orders s) i = Some od \<Longrightarrow> so_id od = i"
    and pos_inv_queue: "\<And>i od. view (main_queue s) i = Some od \<Longrightarrow>
      map_of (pos_orders s) i = Some od \<or> (od \<in> W \<and> so_id od = i)"
    and pos_inv_ready: "\<And>i od. view (main_queue s) i = Some od \<Longrightarrow> i \<notin> X \<Longrightarrow> ready (onchain_nonces s) od"
    and pos_inv_listed: "\<And>i od n. view (main_queue s) i = Some od \<Longrightarrow> i \<notin> X \<Longrightarrow> n \<in> set (so_nonces od) \<Longrightarrow>
      i \<in> ids_at (main_queue_nonces s) (n_address n)"
    and pos_inv_nonces: "\<And>a i. i \<in> ids_at (main_queue_nonces s) a \<Longrightarrow>
      \<exists>od. view (main_queue s) i = Some od \<and> a \<in> n_address ` set (so_nonces od)"
    and pos_inv_pending: "\<And>i od. map_of (pos_orders s) i = Some od \<Longrightarrow> view (main_queue s) i = None \<Longrightarrow>
      \<exists>n \<in> set (so_nonces od). \<not> n_optional n \<and> i \<in> ids_at (pending_orders s) (account_nonce_of n) \<and>
        (current_nonce (onchain_nonces s) (n_address n) \<noteq> n_nonce n \<or> account_nonce_of n \<in> Y)"
  using assms unfolding pos_inv_def by blast+

lemma pos_invI:
  assumes "\<And>i od. map_of (pos_orders s) i = Some od \<Longrightarrow> so_id od = i"
    and "\<And>i od. view (main_queue s) i = Some od \<Longrightarrow> map_of (pos_orders s) i = Some od \<or> (od \<in> W \<and> so_id od = i)"
    and "\<And>i od. view (main_queue s) i = Some od \<Longrightarrow> i \<notin> X \<Longrightarrow> ready (onchain_nonces s) od"
    and "\<And>i od n. view (main_queue s) i = Some od \<Longrightarrow> i \<notin> X \<Longrightarrow> n \<in> set (so_nonces od) \<Longrightarrow>
      i \<in> ids_at (main_queue_nonces s) (n_address n)"
    and "\<And>a i. i \<in> ids_at (main_queue_nonces s) a \<Longrightarrow>
      \<exists>od. view (main_queue s) i = Some od \<and> a \<in> n_address ` set (so_nonces od)"
    and "\<And>i od. map_of (pos_orders s) i = Some od \<Longrightarrow> view (main_queue s) i = None \<Longrightarrow>
      \<exists>n \<in> set (so_nonces od). \<not> n_optional n \<and> i \<in> ids_at (pending_orders s) (account_nonce_of n) \<and>
        (current_nonce (onchain_nonces s) (n_address n) \<noteq> n_nonce n \<or> account_nonce_of n \<in> Y)"
  shows "pos_inv view X Y W s"
  using assms unfolding pos_inv_def by blast

lemma pos_inv_mono: "pos_inv view X Y W s \<Longrightarrow> W \<subseteq> W' \<Longrightarrow> pos_inv view X Y W' s"
  unfolding pos_inv_def by blast

lemma pq_push_view: "pq_law c pq view \<Longrightarrow> view (pq_push pq q i p) = (view q)(i \<mapsto> p)"
  and pq_remove_view: "pq_law c pq view \<Longrightarrow> view (snd (pq_remove pq q i)) = (view q)(i := None)"
  and pq_remove_result: "pq_law c pq view \<Longrightarrow> fst (pq_remove pq q i) = view q i"
  and pq_new_view: "pq_law c pq view \<Longrightarrow> view (pq_new pq) = (\<lambda>_. None)"
  unfolding pq_law_def by blast+

lemma pq_pop_None: "pq_law c pq view \<Longrightarrow> pq_pop pq q = None \<Longrightarrow> view q = (\<lambda>_. None)"
  unfolding pq_law_def by (metis (mono_tags, lifting) option.case(1))

lemma pq_pop_Some:
  assumes "pq_law c pq view" and "pq_pop pq q = Some ((i, p), q')"
  shows "view q i = Some p \<and> view q' = (view q)(i := None) \<and> (\<forall>j p'. view q j = Some p' \<longrightarrow> c p' p \<noteq> Greater)"
proof -
  have "case pq_pop pq q of None \<Rightarrow> view q = (\<lambda>_. None)
      | Some ((i, p), q') \<Rightarrow> view q i = Some p \<and> view q' = (view q)(i := None) \<and>
          (\<forall>j p'. view q j = Some p' \<longrightarrow> c p' p \<noteq> Greater)"
    using assms(1) unfolding pq_law_def by blast
  then show ?thesis unfolding assms(2) by simp
qed

lemma pos_inv_new: "pq_law c pq view \<Longrightarrow> pos_inv view {} {} {} (PrioritizedOrderStore_new pq initial)"
  by (rule pos_invI) (simp_all add: PrioritizedOrderStore_new_def pq_new_view ids_at_def)

text \<open>Taking an order out of the queue and out of the store.\<close>

lemma pos_inv_drop:
  assumes inv: "pos_inv view X Y {} s" and od: "view (main_queue s) i = Some od"
    and q: "view q = (view (main_queue s))(i := None)"
  shows "\<exists>s'. remove_poped_order i (s\<lparr>main_queue := q\<rparr>) = (Some od, s') \<and> pos_inv view (X - {i}) Y {} s' \<and>
    main_queue s' = q \<and> onchain_nonces s' = onchain_nonces s \<and> pending_orders s' = pending_orders s \<and>
    map_of (pos_orders s') = (map_of (pos_orders s))(i := None)"
proof -
  note D = pos_invD [OF inv]
  have stored: "map_of (pos_orders s) i = Some od" using D(2) [OF od] by simp
  have id: "so_id od = i" using D(1) [OF stored] .
  let ?m = "foldl (forget_nonce i) (main_queue_nonces s) (so_nonces od)"
  let ?s = "s\<lparr>main_queue := q, pos_orders := filter (\<lambda>kv. fst kv \<noteq> i) (pos_orders s),
    orders_statistics := stats_remove (orders_statistics s) (so_order od), main_queue_nonces := ?m\<rparr>"
  have eq: "remove_poped_order i (s\<lparr>main_queue := q\<rparr>) = (Some od, ?s)"
    using stored id by (simp add: remove_poped_order_def remove_from_orders_def)
  have orders: "map_of (pos_orders ?s) = (map_of (pos_orders s))(i := None)"
    by (auto simp: map_of_filter_key [where P = "\<lambda>x. x \<noteq> i"])
  have m: "ids_at ?m a = ids_at (main_queue_nonces s) a - {i}" for a
    using D(5) [of i a] od by (auto simp: ids_at_forget_nonce)
  have "pos_inv view (X - {i}) Y {} ?s"
  proof (rule pos_invI)
    show "so_id od' = j" if "map_of (pos_orders ?s) j = Some od'" for j od'
      using that D(1) unfolding orders by (auto split: if_splits)
    show "map_of (pos_orders ?s) j = Some od' \<or> od' \<in> {} \<and> so_id od' = j" if "view (main_queue ?s) j = Some od'" for j od'
      using that D(2) q unfolding orders by (auto split: if_splits)
    show "ready (onchain_nonces ?s) od'" if "view (main_queue ?s) j = Some od'" "j \<notin> X - {i}" for j od'
      using that D(3) q by (auto split: if_splits)
    show "j \<in> ids_at (main_queue_nonces ?s) (n_address n)"
      if "view (main_queue ?s) j = Some od'" "j \<notin> X - {i}" "n \<in> set (so_nonces od')" for j od' n
      using that D(4) q m by (auto split: if_splits)
    show "\<exists>od'. view (main_queue ?s) j = Some od' \<and> a \<in> n_address ` set (so_nonces od')"
      if "j \<in> ids_at (main_queue_nonces ?s) a" for a j
      using that D(5) q m by auto
    show "\<exists>n \<in> set (so_nonces od'). \<not> n_optional n \<and> j \<in> ids_at (pending_orders ?s) (account_nonce_of n) \<and>
        (current_nonce (onchain_nonces ?s) (n_address n) \<noteq> n_nonce n \<or> account_nonce_of n \<in> Y)"
      if "map_of (pos_orders ?s) j = Some od'" "view (main_queue ?s) j = None" for j od'
      using that D(6) [of j od'] q unfolding orders by (auto split: if_splits)
  qed
  with eq orders show ?thesis by auto
qed

lemma pos_inv_insert_ready:
  assumes law: "pq_law c pq view" and inv: "pos_inv view X Y (insert od W) s"
    and fresh: "map_of (pos_orders s) (so_id od) = None" and others: "\<forall>od' \<in> W. so_id od' \<noteq> so_id od"
    and r: "ready (onchain_nonces s) od"
  shows "pos_inv view X Y W (s\<lparr>main_queue := pq_push pq (main_queue s) (so_id od) od,
      main_queue_nonces := foldl (register_nonce (so_id od)) (main_queue_nonces s) (so_nonces od),
      orders_statistics := stats, pos_orders := alist_update (so_id od) od (pos_orders s)\<rparr>)"
    (is "pos_inv view X Y W ?s")
proof -
  note D = pos_invD [OF inv]
  have q: "view (main_queue ?s) = (view (main_queue s))(so_id od \<mapsto> od)" by (simp add: pq_push_view [OF law])
  have m: "ids_at (main_queue_nonces ?s) a =
      ids_at (main_queue_nonces s) a \<union> (if a \<in> n_address ` set (so_nonces od) then {so_id od} else {})" for a
    by (simp add: ids_at_register_nonce)
  have same: "od' = od" if "view (main_queue s) (so_id od) = Some od'" for od'
    using D(2) [OF that] fresh others by auto
  show ?thesis
  proof (rule pos_invI)
    show "so_id od' = j" if "map_of (pos_orders ?s) j = Some od'" for j od'
      using that D(1) by (auto split: if_splits)
    show "map_of (pos_orders ?s) j = Some od' \<or> od' \<in> W \<and> so_id od' = j" if "view (main_queue ?s) j = Some od'" for j od'
      using that D(2) [of j od'] unfolding q by (auto split: if_splits)
    show "ready (onchain_nonces ?s) od'" if "view (main_queue ?s) j = Some od'" "j \<notin> X" for j od'
      using that D(3) [of j od'] r unfolding q by (auto split: if_splits)
    show "j \<in> ids_at (main_queue_nonces ?s) (n_address n)"
      if "view (main_queue ?s) j = Some od'" "j \<notin> X" "n \<in> set (so_nonces od')" for j od' n
      using that D(4) [of j od' n] unfolding q m by (auto split: if_splits)
    show "\<exists>od'. view (main_queue ?s) j = Some od' \<and> a \<in> n_address ` set (so_nonces od')"
      if "j \<in> ids_at (main_queue_nonces ?s) a" for a j
    proof (cases "j = so_id od")
      case True
      then show ?thesis using that D(5) [of j a] same unfolding q m by (auto split: if_splits)
    next
      case False
      then show ?thesis using that D(5) [of j a] unfolding q m by (auto split: if_splits)
    qed
    show "\<exists>n \<in> set (so_nonces od'). \<not> n_optional n \<and> j \<in> ids_at (pending_orders ?s) (account_nonce_of n) \<and>
        (current_nonce (onchain_nonces ?s) (n_address n) \<noteq> n_nonce n \<or> account_nonce_of n \<in> Y)"
      if "map_of (pos_orders ?s) j = Some od'" "view (main_queue ?s) j = None" for j od'
      using that D(6) [of j od'] unfolding q by (auto split: if_splits)
  qed
qed

lemma pos_inv_insert_waiting:
  assumes inv: "pos_inv view X Y (insert od W) s"
    and fresh: "map_of (pos_orders s) (so_id od) = None" and none: "view (main_queue s) (so_id od) = None"
    and ps: "collect_pending (onchain_nonces s) (so_nonces od) [] = Some ps" "ps \<noteq> []"
  shows "pos_inv view X Y W (s\<lparr>pending_orders := foldl (register_pending (so_id od)) (pending_orders s) ps,
      orders_statistics := stats, pos_orders := alist_update (so_id od) od (pos_orders s)\<rparr>)"
    (is "pos_inv view X Y W ?s")
proof -
  note D = pos_invD [OF inv]
  have p: "ids_at (pending_orders ?s) k = ids_at (pending_orders s) k \<union> (if k \<in> set ps then {so_id od} else {})" for k
    by (simp add: ids_at_register_pending)
  show ?thesis
  proof (rule pos_invI)
    show "so_id od' = j" if "map_of (pos_orders ?s) j = Some od'" for j od'
      using that D(1) by (auto split: if_splits)
    show "map_of (pos_orders ?s) j = Some od' \<or> od' \<in> W \<and> so_id od' = j" if "view (main_queue ?s) j = Some od'" for j od'
      using that D(2) [of j od'] none by (auto split: if_splits)
    show "ready (onchain_nonces ?s) od'" if "view (main_queue ?s) j = Some od'" "j \<notin> X" for j od'
      using that D(3) [of j od'] by simp
    show "j \<in> ids_at (main_queue_nonces ?s) (n_address n)"
      if "view (main_queue ?s) j = Some od'" "j \<notin> X" "n \<in> set (so_nonces od')" for j od' n
      using that D(4) [of j od' n] by simp
    show "\<exists>od'. view (main_queue ?s) j = Some od' \<and> a \<in> n_address ` set (so_nonces od')"
      if "j \<in> ids_at (main_queue_nonces ?s) a" for a j
      using that D(5) [of j a] by simp
    show "\<exists>n \<in> set (so_nonces od'). \<not> n_optional n \<and> j \<in> ids_at (pending_orders ?s) (account_nonce_of n) \<and>
        (current_nonce (onchain_nonces ?s) (n_address n) \<noteq> n_nonce n \<or> account_nonce_of n \<in> Y)"
      if "map_of (pos_orders ?s) j = Some od'" "view (main_queue ?s) j = None" for j od'
    proof (cases "j = so_id od")
      case True
      with that collect_pending_waits [OF ps] show ?thesis unfolding p by auto
    next
      case False
      with that D(6) [of j od'] show ?thesis unfolding p by auto
    qed
  qed
qed

lemma pos_inv_shrink:
  assumes inv: "pos_inv view X Y (insert od W) s" and none: "view (main_queue s) (so_id od) = None"
  shows "pos_inv view X Y W s"
proof (rule pos_invI)
  show "map_of (pos_orders s) j = Some od' \<or> od' \<in> W \<and> so_id od' = j" if "view (main_queue s) j = Some od'" for j od'
    using pos_invD(2) [OF inv that] that none by auto
qed (fact pos_invD [OF inv])+

lemma pos_inv_insert_fresh:
  assumes law: "pq_law c pq view" and inv: "pos_inv view X Y (insert od W) s"
    and fresh: "map_of (pos_orders s) (so_id od) = None" and X: "so_id od \<notin> X"
    and others: "\<forall>od' \<in> W. so_id od' \<noteq> so_id od"
  shows "pos_inv view X Y W (pos_insert_order pq od s)"
proof (cases "view (main_queue s) (so_id od)")
  case None
  show ?thesis
  proof (cases "collect_pending (onchain_nonces s) (so_nonces od) []")
    case pend: None
    with pos_inv_shrink [OF inv None] fresh show ?thesis by (simp add: pos_insert_order_def)
  next
    case (Some ps)
    then show ?thesis
    proof (cases "ps = []")
      case True
      with Some have "ready (onchain_nonces s) od" by (simp add: collect_pending_ready)
      from pos_inv_insert_ready [OF law inv fresh others this] Some True fresh
      show ?thesis by (simp add: pos_insert_order_def)
    next
      case False
      from pos_inv_insert_waiting [OF inv fresh None Some False] Some False fresh
      show ?thesis by (simp add: pos_insert_order_def)
    qed
  qed
next
  case (Some od')
  have "od' = od" using pos_invD(2) [OF inv Some] fresh others by auto
  with pos_invD(3) [OF inv Some X] have r: "ready (onchain_nonces s) od" by simp
  then have "collect_pending (onchain_nonces s) (so_nonces od) [] = Some []" by (simp add: collect_pending_ready)
  with pos_inv_insert_ready [OF law inv fresh others r] fresh show ?thesis by (simp add: pos_insert_order_def)
qed

lemma pos_inv_insert [step_invs]:
  assumes law: "pq_law c pq view" and inv: "pos_inv view X Y {} s" and X: "so_id od \<notin> X"
  shows "pos_inv view X Y {} (pos_insert_order pq od s)"
proof (cases "map_of (pos_orders s) (so_id od)")
  case None
  have "pos_inv view X Y {od} s" using inv by (rule pos_inv_mono) simp
  from pos_inv_insert_fresh [OF law this None X] show ?thesis by simp
next
  case (Some od')
  with inv show ?thesis by (simp add: pos_insert_order_def)
qed

lemma pos_insert_orders: "map_of (pos_orders (pos_insert_order pq od s)) j =
    (if j = so_id od \<and> collect_pending (onchain_nonces s) (so_nonces od) [] \<noteq> None \<and> map_of (pos_orders s) j = None
     then Some od else map_of (pos_orders s) j)"
  by (auto simp: pos_insert_order_def Let_def split: option.splits)

lemma pos_insert_onchain [simp]: "onchain_nonces (pos_insert_order pq od s) = onchain_nonces s"
  by (simp add: pos_insert_order_def Let_def split: option.splits)

lemma pos_insert_view:
  assumes "pq_law c pq view" and "j \<noteq> so_id od"
  shows "view (main_queue (pos_insert_order pq od s)) j = view (main_queue s) j"
  using assms by (simp add: pos_insert_order_def Let_def pq_push_view [OF assms(1)] split: option.splits)

lemma pos_inv_remove [step_invs]:
  assumes law: "pq_law c pq view" and inv: "pos_inv view {} Y {} s"
  shows "pos_inv view {} Y {} (snd (pos_remove_order pq i s))"
proof (cases "view (main_queue s) i")
  case (Some od)
  let ?q = "snd (pq_remove pq (main_queue s) i)"
  from pos_inv_drop [OF inv Some pq_remove_view [OF law]] obtain s' where
    s': "remove_poped_order i (s\<lparr>main_queue := ?q\<rparr>) = (Some od, s')" "pos_inv view ({} - {i}) Y {} s'"
    "map_of (pos_orders s') = (map_of (pos_orders s))(i := None)"
    by blast
  have "snd (pos_remove_order pq i s) = s'"
    using s' Some pq_remove_result [OF law, of "main_queue s" i]
    by (simp add: pos_remove_order_def remove_from_orders_def case_prod_beta)
  with s' show ?thesis by simp
next
  case None
  let ?q = "snd (pq_remove pq (main_queue s) i)"
  have q: "view ?q = view (main_queue s)" using pq_remove_view [OF law, of "main_queue s" i] None by auto
  note D = pos_invD [OF inv]
  let ?s = "snd (pos_remove_order pq i s)"
  have eq: "main_queue ?s = ?q" "main_queue_nonces ?s = main_queue_nonces s" "onchain_nonces ?s = onchain_nonces s"
    "pending_orders ?s = pending_orders s" "map_of (pos_orders ?s) = (map_of (pos_orders s))(i := None)"
    using None pq_remove_result [OF law, of "main_queue s" i]
    by (auto simp: pos_remove_order_def remove_from_orders_def case_prod_beta Let_def
        map_of_filter_key [where P = "\<lambda>x. x \<noteq> i"] split: option.splits)
  show ?thesis
  proof (rule pos_invI)
    show "map_of (pos_orders ?s) j = Some od' \<or> od' \<in> {} \<and> so_id od' = j" if "view (main_queue ?s) j = Some od'" for j od'
      using that D(2) [of j od'] None unfolding eq q by auto
  qed (use D in \<open>auto simp: eq q split: if_splits\<close>)
qed

section \<open>Updating the nonces keeps the invariant\<close>

lemma set_fold_insert: "set (fold List.insert xs ys) = set xs \<union> set ys"
  by (induction xs arbitrary: ys) auto

lemma distinct_fold_insert: "distinct ys \<Longrightarrow> distinct (fold List.insert xs ys)"
  by (induction xs arbitrary: ys) auto

lemma current_nonce_upd [simp]: "current_nonce (m(a \<mapsto> n)) b = (if b = a then n else current_nonce m b)"
  by (simp add: current_nonce_def)

definition phase1_inv ::
  "('q \<Rightarrow> OrderId \<Rightarrow> SimulatedOrder option) \<Rightarrow> AccountNonce set \<Rightarrow> 'q PrioritizedOrderStore \<times> OrderId list \<Rightarrow> bool" where
  "phase1_inv view Y si \<longleftrightarrow> pos_inv view (set (snd si)) Y {} (fst si) \<and> distinct (snd si) \<and>
     (\<forall>i \<in> set (snd si). view (main_queue (fst si)) i \<noteq> None)"

lemma set_nonce_step_eq:
  assumes "set_nonce_step (s, ids) nn = (s', ids')"
  shows "main_queue s' = main_queue s" "pending_orders s' = pending_orders s" "pos_orders s' = pos_orders s"
    "onchain_nonces s' = (onchain_nonces s)(an_account nn \<mapsto> an_nonce nn)"
    "\<And>a. ids_at (main_queue_nonces s') a = (if a = an_account nn then {} else ids_at (main_queue_nonces s) a)"
    "set ids' = ids_at (main_queue_nonces s) (an_account nn) \<union> set ids" "distinct ids \<Longrightarrow> distinct ids'"
  using assms by (auto simp: set_nonce_step_def Let_def set_fold_insert distinct_fold_insert ids_at_def
      split: option.splits if_splits)

lemma phase1_step:
  assumes "phase1_inv view Y (s, ids)" and step: "set_nonce_step (s, ids) nn = (s', ids')"
  shows "phase1_inv view (insert nn Y) (s', ids')"
proof -
  have I: "pos_inv view (set ids) Y {} s" and dist: "distinct ids"
    and queued: "\<And>i. i \<in> set ids \<Longrightarrow> view (main_queue s) i \<noteq> None"
    using assms(1) by (auto simp: phase1_inv_def)
  note D = pos_invD [OF I] and eq = set_nonce_step_eq [OF step]
  have away: "n_address n \<noteq> an_account nn"
    if "view (main_queue s) j = Some od" "j \<notin> set ids'" "n \<in> set (so_nonces od)" for j od n
  proof
    assume "n_address n = an_account nn"
    then have "j \<in> set ids'" if "j \<notin> set ids" using D(4) [OF \<open>view (main_queue s) j = Some od\<close> that \<open>n \<in> _\<close>] eq(6) by simp
    then show False using that(2) eq(6) by auto
  qed
  have "pos_inv view (set ids') (insert nn Y) {} s'"
  proof (rule pos_invI)
    show "so_id od' = j" if "map_of (pos_orders s') j = Some od'" for j od'
      using that D(1) eq by simp
    show "map_of (pos_orders s') j = Some od' \<or> od' \<in> {} \<and> so_id od' = j" if "view (main_queue s') j = Some od'" for j od'
      using that D(2) eq by simp
    show "ready (onchain_nonces s') od'" if "view (main_queue s') j = Some od'" "j \<notin> set ids'" for j od'
      using that D(3) [of j od'] away [of j od'] eq(1,4,6) by (simp add: ready_def)
    show "j \<in> ids_at (main_queue_nonces s') (n_address n)"
      if "view (main_queue s') j = Some od'" "j \<notin> set ids'" "n \<in> set (so_nonces od')" for j od' n
      using that D(4) [of j od' n] away [of j od' n] eq(1,5,6) by simp
    show "\<exists>od'. view (main_queue s') j = Some od' \<and> a \<in> n_address ` set (so_nonces od')"
      if "j \<in> ids_at (main_queue_nonces s') a" for a j
      using that D(5) [of j a] eq(1,5) by (simp split: if_splits)
    show "\<exists>n \<in> set (so_nonces od'). \<not> n_optional n \<and> j \<in> ids_at (pending_orders s') (account_nonce_of n) \<and>
        (current_nonce (onchain_nonces s') (n_address n) \<noteq> n_nonce n \<or> account_nonce_of n \<in> insert nn Y)"
      if "map_of (pos_orders s') j = Some od'" "view (main_queue s') j = None" for j od'
    proof -
      from that eq D(6) [of j od'] obtain n where n: "n \<in> set (so_nonces od')" "\<not> n_optional n"
        "j \<in> ids_at (pending_orders s) (account_nonce_of n)"
        "current_nonce (onchain_nonces s) (n_address n) \<noteq> n_nonce n \<or> account_nonce_of n \<in> Y"
        by auto
      have "account_nonce_of n = nn" if "n_address n = an_account nn" "n_nonce n = an_nonce nn"
        using that by (simp add: account_nonce_of_def)
      with n eq show ?thesis by (intro bexI [of _ n]) auto
    qed
  qed
  moreover have "\<exists>od. view (main_queue s) i = Some od" if "i \<in> ids_at (main_queue_nonces s) (an_account nn)" for i
    using D(5) [OF that] by blast
  ultimately show ?thesis using eq dist queued by (auto simp: phase1_inv_def)
qed

lemma phase1:
  "phase1_inv view Y si \<Longrightarrow> phase1_inv view (Y \<union> set nns) (foldl set_nonce_step si nns)"
proof (induction nns arbitrary: Y si)
  case (Cons nn nns)
  obtain s ids where si: "si = (s, ids)" by (cases si)
  obtain s' ids' where "set_nonce_step (s, ids) nn = (s', ids')" by fastforce
  with phase1_step Cons.prems si have "phase1_inv view (insert nn Y) (set_nonce_step si nn)" by metis
  from Cons.IH [OF this] show ?case by simp
qed simp

lemma invalidate_order_ok:
  assumes law: "pq_law c pq view" and inv: "pos_inv view X Y {} s" and od: "view (main_queue s) i = Some od"
  shows "\<exists>s'. invalidate_order pq i s = Ok s' \<and> pos_inv view (X - {i}) Y {} s' \<and>
    (\<forall>j. j \<noteq> i \<longrightarrow> view (main_queue s') j = view (main_queue s) j)"
proof -
  let ?q = "snd (pq_remove pq (main_queue s) i)"
  note q = pq_remove_view [OF law, of "main_queue s" i]
  from pos_inv_drop [OF inv od q] obtain s' where
    s': "remove_poped_order i (s\<lparr>main_queue := ?q\<rparr>) = (Some od, s')" "pos_inv view (X - {i}) Y {} s'" "main_queue s' = ?q"
    by blast
  have id: "so_id od = i" using pos_invD(1,2) [OF inv] od by blast
  have "pos_inv view (X - {i}) Y {} (pos_insert_order pq od s')"
    by (rule pos_inv_insert [OF law s'(2)]) (simp add: id)
  moreover have "view (main_queue (pos_insert_order pq od s')) j = view (main_queue s) j" if "j \<noteq> i" for j
    using that pos_insert_view [OF law, of j od s'] id s'(3) q by simp
  ultimately show ?thesis
    using s' q by (cases "case count_valid (onchain_nonces s') (so_nonces od) 0 of None \<Rightarrow> False | Some k \<Rightarrow> 0 < k")
      (auto simp: invalidate_order_def Let_def)
qed

lemma invalidate_orders_ok:
  assumes law: "pq_law c pq view"
  shows "pos_inv view (set is) Y {} s \<Longrightarrow> distinct is \<Longrightarrow> \<forall>i \<in> set is. view (main_queue s) i \<noteq> None \<Longrightarrow>
    \<exists>s'. invalidate_orders pq is s = Ok s' \<and> pos_inv view {} Y {} s'"
proof (induction "is" arbitrary: s)
  case (Cons i "is")
  then obtain od where od: "view (main_queue s) i = Some od" by auto
  from invalidate_order_ok [OF law Cons.prems(1) od] obtain s1 where
    s1: "invalidate_order pq i s = Ok s1" "pos_inv view (set (i # is) - {i}) Y {} s1"
    "\<forall>j. j \<noteq> i \<longrightarrow> view (main_queue s1) j = view (main_queue s) j"
    by blast
  have "set (i # is) - {i} = set is" using Cons.prems(2) by auto
  with s1 Cons.prems have "\<exists>s'. invalidate_orders pq is s1 = Ok s' \<and> pos_inv view {} Y {} s'"
    by (intro Cons.IH) auto
  with s1 show ?case by simp
qed simp

lemma take_orders_eq:
  assumes "\<And>i od. map_of (pos_orders s) i = Some od \<Longrightarrow> so_id od = i" and "take_orders is s = (ods, s')"
  shows "main_queue s' = main_queue s \<and> main_queue_nonces s' = main_queue_nonces s \<and>
    onchain_nonces s' = onchain_nonces s \<and> pending_orders s' = pending_orders s \<and>
    map_of (pos_orders s') = (\<lambda>i. if i \<in> set is then None else map_of (pos_orders s) i) \<and>
    set ods = {od. \<exists>i \<in> set is. map_of (pos_orders s) i = Some od} \<and> distinct (map so_id ods)"
  using assms
proof (induction "is" arbitrary: s ods)
  case (Cons i "is")
  let ?s1 = "snd (remove_from_orders i s)"
  obtain rest s2 where rest2: "take_orders is ?s1 = (rest, s2)" by fastforce
  have fst: "fst (remove_from_orders i s) = map_of (pos_orders s) i"
    by (simp add: remove_from_orders_def split: option.splits)
  from rest2 Cons.prems(2) have rest: "take_orders is ?s1 = (rest, s')"
    and ods: "ods = (case map_of (pos_orders s) i of None \<Rightarrow> rest | Some od \<Rightarrow> od # rest)"
    by (auto simp: fst case_prod_beta split: option.splits)
  have s1: "main_queue ?s1 = main_queue s" "main_queue_nonces ?s1 = main_queue_nonces s"
    "onchain_nonces ?s1 = onchain_nonces s" "pending_orders ?s1 = pending_orders s"
    "map_of (pos_orders ?s1) = (map_of (pos_orders s))(i := None)"
    by (auto simp: remove_from_orders_def map_of_filter_key [where P = "\<lambda>x. x \<noteq> i"] split: option.splits)
  have id1: "so_id od = j" if "map_of (pos_orders ?s1) j = Some od" for j od
    using that Cons.prems(1) [of j od] s1(5) by (auto split: if_splits)
  note IH = Cons.IH [OF id1 rest]
  have set_rest: "set rest = {od. \<exists>j \<in> set is. j \<noteq> i \<and> map_of (pos_orders s) j = Some od}"
    using IH s1(5) by auto
  then have notin: "i \<notin> so_id ` set rest" using Cons.prems(1) by auto
  have "set ods = {od. \<exists>j \<in> set (i # is). map_of (pos_orders s) j = Some od}"
  proof (intro set_eqI iffI)
    fix od
    assume "od \<in> set ods"
    then have "map_of (pos_orders s) i = Some od \<or> od \<in> set rest" using ods by (auto split: option.splits)
    then show "od \<in> {od. \<exists>j \<in> set (i # is). map_of (pos_orders s) j = Some od}" using set_rest by auto
  next
    fix od
    assume "od \<in> {od. \<exists>j \<in> set (i # is). map_of (pos_orders s) j = Some od}"
    then obtain j where j: "j \<in> set (i # is)" "map_of (pos_orders s) j = Some od" by blast
    then have "j = i \<or> od \<in> set rest" unfolding set_rest by auto
    with j(2) ods show "od \<in> set ods" by (auto split: option.splits)
  qed
  moreover have "distinct (map so_id ods)"
    using ods IH notin Cons.prems(1) [of i] by (cases "map_of (pos_orders s) i") auto
  moreover have "map_of (pos_orders s') = (\<lambda>j. if j \<in> set (i # is) then None else map_of (pos_orders s) j)"
    using IH s1(5) by auto
  ultimately show ?case using IH s1 by simp
qed simp

lemma reinsert_orders:
  assumes law: "pq_law c pq view"
  shows "pos_inv view {} Y (set ods) s \<Longrightarrow> distinct (map so_id ods) \<Longrightarrow>
    \<forall>od \<in> set ods. map_of (pos_orders s) (so_id od) = None \<Longrightarrow>
    pos_inv view {} Y {} (foldl (\<lambda>s od. pos_insert_order pq od s) s ods)"
proof (induction ods arbitrary: s)
  case (Cons od ods)
  have others: "so_id od' \<noteq> so_id od" if "od' \<in> set ods" for od'
    using Cons.prems(2) that by (metis distinct.simps(2) image_eqI list.set_map list.simps(9))
  have "pos_inv view {} Y (set ods) (pos_insert_order pq od s)"
    using Cons.prems others by (intro pos_inv_insert_fresh [OF law]) auto
  moreover have "\<forall>od' \<in> set ods. map_of (pos_orders (pos_insert_order pq od s)) (so_id od') = None"
    using Cons.prems others by (simp add: pos_insert_orders)
  ultimately show ?case using Cons by simp
qed simp

lemma pos_inv_release:
  assumes law: "pq_law c pq view" and inv: "pos_inv view {} Y {} s"
  shows "pos_inv view {} (Y - {nn}) {} (release_pending pq s nn)"
proof (cases "pending_orders s nn")
  case None
  then have none: "ids_at (pending_orders s) nn = {}" by (simp add: ids_at_def)
  have "pos_inv view {} (Y - {nn}) {} s"
  proof (rule pos_invI)
    show "\<exists>n \<in> set (so_nonces od'). \<not> n_optional n \<and> j \<in> ids_at (pending_orders s) (account_nonce_of n) \<and>
        (current_nonce (onchain_nonces s) (n_address n) \<noteq> n_nonce n \<or> account_nonce_of n \<in> Y - {nn})"
      if "map_of (pos_orders s) j = Some od'" "view (main_queue s) j = None" for j od'
      using pos_invD(6) [OF inv that] none by auto
  qed (fact pos_invD [OF inv])+
  with None show ?thesis by (simp add: release_pending_def)
next
  case (Some pending)
  let ?s = "s\<lparr>pending_orders := (pending_orders s)(nn := None)\<rparr>"
  obtain ods s1 where take: "take_orders pending ?s = (ods, s1)" by fastforce
  note D = pos_invD [OF inv]
  have "so_id od = i" if "map_of (pos_orders ?s) i = Some od" for i od using that D(1) by simp
  note eq = take_orders_eq [OF this take]
  have "pos_inv view {} (Y - {nn}) (set ods) s1"
  proof (rule pos_invI)
    show "so_id od' = j" if "map_of (pos_orders s1) j = Some od'" for j od'
      using that D(1) eq by (auto split: if_splits)
    show "map_of (pos_orders s1) j = Some od' \<or> od' \<in> set ods \<and> so_id od' = j" if "view (main_queue s1) j = Some od'" for j od'
      using that D(1,2) [of j od'] eq by (auto split: if_splits)
    show "ready (onchain_nonces s1) od'" if "view (main_queue s1) j = Some od'" "j \<notin> {}" for j od'
      using that D(3) [of j od'] eq by simp
    show "j \<in> ids_at (main_queue_nonces s1) (n_address n)"
      if "view (main_queue s1) j = Some od'" "j \<notin> {}" "n \<in> set (so_nonces od')" for j od' n
      using that D(4) [of j od' n] eq by simp
    show "\<exists>od'. view (main_queue s1) j = Some od' \<and> a \<in> n_address ` set (so_nonces od')"
      if "j \<in> ids_at (main_queue_nonces s1) a" for a j
      using that D(5) [of j a] eq by simp
    show "\<exists>n \<in> set (so_nonces od'). \<not> n_optional n \<and> j \<in> ids_at (pending_orders s1) (account_nonce_of n) \<and>
        (current_nonce (onchain_nonces s1) (n_address n) \<noteq> n_nonce n \<or> account_nonce_of n \<in> Y - {nn})"
      if "map_of (pos_orders s1) j = Some od'" "view (main_queue s1) j = None" for j od'
    proof -
      from that eq have "map_of (pos_orders s) j = Some od'" "view (main_queue s) j = None" "j \<notin> set pending"
        by (auto split: if_splits)
      with D(6) [of j od'] obtain n where n: "n \<in> set (so_nonces od')" "\<not> n_optional n"
        "j \<in> ids_at (pending_orders s) (account_nonce_of n)"
        "current_nonce (onchain_nonces s) (n_address n) \<noteq> n_nonce n \<or> account_nonce_of n \<in> Y"
        by blast
      moreover have "account_nonce_of n \<noteq> nn" using n(3) Some \<open>j \<notin> set pending\<close> by (auto simp: ids_at_def)
      ultimately show ?thesis using eq by (intro bexI [of _ n]) auto
    qed
  qed
  moreover have "\<forall>od \<in> set ods. map_of (pos_orders s1) (so_id od) = None"
    using eq D(1) by auto
  ultimately have "pos_inv view {} (Y - {nn}) {} (foldl (\<lambda>s od. pos_insert_order pq od s) s1 ods)"
    using eq by (intro reinsert_orders [OF law]) auto
  with Some take show ?thesis by (simp add: release_pending_def)
qed

lemma pos_inv_release_all:
  "pq_law c pq view \<Longrightarrow> pos_inv view {} Y {} s \<Longrightarrow> pos_inv view {} (Y - set nns) {} (foldl (release_pending pq) s nns)"
proof (induction nns arbitrary: Y s)
  case (Cons nn nns)
  have "Y - {nn} - set nns = Y - set (nn # nns)" by auto
  with Cons.IH [OF Cons.prems(1) pos_inv_release [OF Cons.prems, of nn]] show ?case by simp
qed simp

lemma pos_inv_update [step_invs]:
  assumes law: "pq_law c pq view" and ord: "arrangement ord" and inv: "pos_inv view {} {} {} s"
  shows "\<exists>s'. update_onchain_nonces pq ord nns s = Ok s' \<and> pos_inv view {} {} {} s'"
proof -
  obtain s1 ids where s1: "foldl set_nonce_step (s, []) nns = (s1, ids)" by fastforce
  have "phase1_inv view {} (s, [])" using inv by (simp add: phase1_inv_def)
  from phase1 [OF this, of nns] s1 have P: "pos_inv view (set ids) (set nns) {} s1" "distinct ids"
    "\<forall>i \<in> set ids. view (main_queue s1) i \<noteq> None"
    by (simp_all add: phase1_inv_def)
  have "\<exists>s2. invalidate_orders pq (ord ids) s1 = Ok s2 \<and> pos_inv view {} (set nns) {} s2"
    using P ord by (intro invalidate_orders_ok [OF law]) (simp_all add: arrangement_set arrangement_distinct)
  then obtain s2 where s2: "invalidate_orders pq (ord ids) s1 = Ok s2" "pos_inv view {} (set nns) {} s2" by blast
  from pos_inv_release_all [OF law s2(2), of nns] s1 s2(1) show ?thesis
    by (simp add: update_onchain_nonces_def)
qed

lemma pos_inv_pop [step_invs]:
  assumes law: "pq_law c pq view" and inv: "pos_inv view {} {} {} s"
  shows "\<exists>res s'. pop_order pq s = Ok (res, s') \<and> pos_inv view {} {} {} s' \<and> onchain_nonces s' = onchain_nonces s \<and>
    (case res of
       None \<Rightarrow> s' = s \<and> view (main_queue s) = (\<lambda>_. None)
     | Some od \<Rightarrow> view (main_queue s) (so_id od) = Some od \<and>
         (\<forall>j od'. view (main_queue s) j = Some od' \<longrightarrow> c od' od \<noteq> Greater) \<and>
         map_of (pos_orders s') = (map_of (pos_orders s))(so_id od := None))"
proof (cases "pq_pop pq (main_queue s)")
  case None
  with pq_pop_None [OF law None] inv show ?thesis by (auto simp: pop_order_def)
next
  case (Some r)
  then obtain i od q where pop: "pq_pop pq (main_queue s) = Some ((i, od), q)" by (cases r) auto
  note v = pq_pop_Some [OF law pop]
  then have od: "view (main_queue s) i = Some od" and q: "view q = (view (main_queue s))(i := None)" by auto
  have id: "so_id od = i" using pos_invD(1,2) [OF inv] od by blast
  from pos_inv_drop [OF inv od q] obtain s' where
    "remove_poped_order i (s\<lparr>main_queue := q\<rparr>) = (Some od, s')" "pos_inv view ({} - {i}) {} {} s'"
    "onchain_nonces s' = onchain_nonces s" "map_of (pos_orders s') = (map_of (pos_orders s))(i := None)"
    by blast
  with pop v id show ?thesis by (auto simp: pop_order_def)
qed

text \<open>An order of the store that can be executed is in the queue, and conversely.\<close>

lemma queue_is_ready:
  assumes inv: "pos_inv view {} {} {} s"
  shows "view (main_queue s) i = Some od \<longleftrightarrow> map_of (pos_orders s) i = Some od \<and> ready (onchain_nonces s) od"
proof
  assume "view (main_queue s) i = Some od"
  with pos_invD(2,3) [OF inv] show "map_of (pos_orders s) i = Some od \<and> ready (onchain_nonces s) od" by blast
next
  assume od: "map_of (pos_orders s) i = Some od \<and> ready (onchain_nonces s) od"
  have "view (main_queue s) i \<noteq> None"
  proof
    assume "view (main_queue s) i = None"
    with pos_invD(6) [OF inv] od show False unfolding ready_def by blast
  qed
  then show "view (main_queue s) i = Some od" using pos_invD(2) [OF inv] od by fastforce
qed

section \<open>Runs of the store\<close>

datatype pos_event =
    Pos_Insert SimulatedOrder
  | Pos_Remove OrderId
  | Pos_Update "OrderId list \<Rightarrow> OrderId list" "AccountNonce list"
  | Pos_Pop

fun pos_step :: "'q pq_ops \<Rightarrow> 'q PrioritizedOrderStore \<Rightarrow> pos_event \<Rightarrow> ('q PrioritizedOrderStore, panic) result" where
  "pos_step pq s (Pos_Insert od) = Ok (pos_insert_order pq od s)"
| "pos_step pq s (Pos_Remove i) = Ok (snd (pos_remove_order pq i s))"
| "pos_step pq s (Pos_Update ord nns) = update_onchain_nonces pq ord nns s"
| "pos_step pq s Pos_Pop = (case pop_order pq s of Err e \<Rightarrow> Err e | Ok (_, s') \<Rightarrow> Ok s')"

fun pos_run :: "'q pq_ops \<Rightarrow> 'q PrioritizedOrderStore \<Rightarrow> pos_event list \<Rightarrow> ('q PrioritizedOrderStore, panic) result" where
  "pos_run pq s [] = Ok s"
| "pos_run pq s (e # es) = (case pos_step pq s e of Err x \<Rightarrow> Err x | Ok s' \<Rightarrow> pos_run pq s' es)"

text \<open>Hash sets are iterated in some order.\<close>

fun pos_event_ok :: "pos_event \<Rightarrow> bool" where
  "pos_event_ok (Pos_Update ord _) = arrangement ord"
| "pos_event_ok _ = True"

lemma pos_step_ok:
  assumes law: "pq_law c pq view" and inv: "pos_inv view {} {} {} s" and ok: "pos_event_ok e"
  shows "\<exists>s'. pos_step pq s e = Ok s' \<and> pos_inv view {} {} {} s'"
proof (cases e)
  case (Pos_Insert od)
  with pos_inv_insert [OF law inv, of od] show ?thesis by simp
next
  case (Pos_Remove i)
  with pos_inv_remove [OF law inv, of i] show ?thesis by simp
next
  case (Pos_Update ord nns)
  with pos_inv_update [OF law _ inv, of ord nns] ok show ?thesis by simp
next
  case Pos_Pop
  with pos_inv_pop [OF law inv] show ?thesis by auto
qed

lemma pos_run_ok:
  assumes "pq_law c pq view"
  shows "pos_inv view {} {} {} s \<Longrightarrow> list_all pos_event_ok es \<Longrightarrow>
    \<exists>s'. pos_run pq s es = Ok s' \<and> pos_inv view {} {} {} s'"
proof (induction es arbitrary: s)
  case (Cons e es)
  from pos_step_ok [OF assms Cons.prems(1), of e] Cons.prems(2) obtain s1 where
    "pos_step pq s e = Ok s1" "pos_inv view {} {} {} s1" by auto
  with Cons show ?case by simp
qed simp

section \<open>Statistics\<close>

fun stats_of :: "SimulatedOrder list \<Rightarrow> OrderStatistics" where
  "stats_of [] = OrderStatistics_new"
| "stats_of (od # ods) = stats_add (stats_of ods) (so_order od)"

definition stats_ok :: "'q PrioritizedOrderStore \<Rightarrow> bool" where
  "stats_ok s \<longleftrightarrow> distinct (map fst (pos_orders s)) \<and> orders_statistics s = stats_of (map snd (pos_orders s))"

lemma stats_add_commute: "stats_add (stats_add s a) b = stats_add (stats_add s b) a"
  by (cases a; cases b) simp_all

lemma stats_of_append: "stats_of (xs @ [od]) = stats_add (stats_of xs) (so_order od)"
  by (induction xs) (simp_all add: stats_add_commute)

lemma stats_of_filter:
  "distinct (map fst ps) \<Longrightarrow> map_of ps i = Some od \<Longrightarrow>
   stats_add (stats_of (map snd (filter (\<lambda>kv. fst kv \<noteq> i) ps))) (so_order od) = stats_of (map snd ps)"
proof (induction ps)
  case (Cons p ps)
  show ?case
  proof (cases "fst p = i")
    case True
    with Cons.prems have "filter (\<lambda>kv. fst kv \<noteq> i) ps = ps" by (auto simp: filter_id_conv rev_image_eqI)
    with True Cons.prems show ?thesis by (cases p) simp
  next
    case False
    obtain a b where p: "p = (a, b)" by (cases p)
    have "stats_add (stats_add t (so_order b)) (so_order od) = stats_add (stats_add t (so_order od)) (so_order b)" for t
      by (rule stats_add_commute)
    with Cons False p show ?thesis by simp
  qed
qed simp

lemma stats_ok_remove: "stats_ok s \<Longrightarrow> stats_ok (snd (remove_from_orders i s))"
  using stats_of_filter [of "pos_orders s" i]
  by (auto simp: stats_ok_def remove_from_orders_def split: option.splits) (metis stats_remove_add)

lemma alist_update_fresh: "map_of ps k = None \<Longrightarrow> alist_update k v ps = ps @ [(k, v)]"
  by (induction ps) (auto split: if_splits)

lemma stats_ok_insert: "stats_ok s \<Longrightarrow> stats_ok (pos_insert_order pq od s)"
  by (auto simp: pos_insert_order_def Let_def stats_ok_def alist_update_fresh stats_of_append map_of_eq_None_iff
      split: option.splits)

lemma stats_ok_cong: "pos_orders s = pos_orders s' \<Longrightarrow> orders_statistics s = orders_statistics s' \<Longrightarrow> stats_ok s \<longleftrightarrow> stats_ok s'"
  by (simp add: stats_ok_def)

lemma stats_ok_updates [simp]:
  "stats_ok (s\<lparr>main_queue := q\<rparr>) = stats_ok s" "stats_ok (s\<lparr>main_queue_nonces := m\<rparr>) = stats_ok s"
  "stats_ok (s\<lparr>onchain_nonces := on\<rparr>) = stats_ok s" "stats_ok (s\<lparr>pending_orders := p\<rparr>) = stats_ok s"
  by (simp_all add: stats_ok_def)

lemma stats_ok_remove_poped: "stats_ok s \<Longrightarrow> stats_ok (snd (remove_poped_order i s))"
  using stats_ok_remove [of s i] by (auto simp: remove_poped_order_def split: prod.splits option.splits)

lemma stats_ok_set_nonces: "stats_ok (fst si) \<Longrightarrow> stats_ok (fst (foldl set_nonce_step si nns))"
proof (induction nns arbitrary: si)
  case (Cons nn nns)
  have "stats_ok (fst (set_nonce_step si nn))"
    using Cons.prems by (cases si) (simp add: set_nonce_step_def Let_def split: option.splits)
  with Cons.IH show ?case by simp
qed simp

lemma stats_ok_invalidate_order: "stats_ok s \<Longrightarrow> invalidate_order pq i s = Ok s' \<Longrightarrow> stats_ok s'"
  using stats_ok_remove_poped [of "s\<lparr>main_queue := snd (pq_remove pq (main_queue s) i)\<rparr>" i]
  by (auto simp: invalidate_order_def Let_def stats_ok_insert split: prod.splits option.splits if_splits)

lemma stats_ok_invalidate: "stats_ok s \<Longrightarrow> invalidate_orders pq is s = Ok s' \<Longrightarrow> stats_ok s'"
  by (induction pq "is" s rule: invalidate_orders.induct)
    (auto dest: stats_ok_invalidate_order split: sum.splits)

lemma stats_ok_take: "stats_ok s \<Longrightarrow> stats_ok (snd (take_orders is s))"
proof (induction "is" arbitrary: s)
  case (Cons i "is")
  from Cons.IH [OF stats_ok_remove [OF Cons.prems, of i]] show ?case by (simp add: case_prod_beta)
qed simp

lemma stats_ok_release: "stats_ok s \<Longrightarrow> stats_ok (release_pending pq s nn)"
proof (cases "pending_orders s nn")
  case (Some pending)
  assume "stats_ok s"
  then have "stats_ok (snd (take_orders pending (s\<lparr>pending_orders := (pending_orders s)(nn := None)\<rparr>)))"
    by (intro stats_ok_take) simp
  moreover have "stats_ok t \<Longrightarrow> stats_ok (foldl (\<lambda>s od. pos_insert_order pq od s) t ods)" for t ods
    by (induction ods arbitrary: t) (simp_all add: stats_ok_insert)
  ultimately show ?thesis using Some by (simp add: release_pending_def case_prod_beta)
qed (simp add: release_pending_def)

lemma stats_ok_update: "stats_ok s \<Longrightarrow> update_onchain_nonces pq ord nns s = Ok s' \<Longrightarrow> stats_ok s'"
proof -
  assume s: "stats_ok s" and upd: "update_onchain_nonces pq ord nns s = Ok s'"
  obtain s1 ids where s1: "foldl set_nonce_step (s, []) nns = (s1, ids)" by fastforce
  with upd obtain s2 where s2: "invalidate_orders pq (ord ids) s1 = Ok s2" "s' = foldl (release_pending pq) s2 nns"
    by (auto simp: update_onchain_nonces_def split: sum.splits)
  have "stats_ok s1" using stats_ok_set_nonces [of "(s, [])" nns] s s1 by simp
  with s2 have "stats_ok s2" by (auto dest: stats_ok_invalidate)
  moreover have "stats_ok t \<Longrightarrow> stats_ok (foldl (release_pending pq) t nns)" for t
    by (induction nns arbitrary: t) (simp_all add: stats_ok_release)
  ultimately show ?thesis using s2 by simp
qed

lemma stats_ok_step: "stats_ok s \<Longrightarrow> pos_step pq s e = Ok s' \<Longrightarrow> stats_ok s'"
proof (cases e)
  case (Pos_Remove i)
  assume s: "stats_ok s" and step: "pos_step pq s e = Ok s'"
  have "stats_ok (snd (remove_from_orders i (if b then snd (remove_poped_order i (s\<lparr>main_queue := q\<rparr>)) else s\<lparr>main_queue := q\<rparr>)))" for b q
    using s stats_ok_remove_poped [of "s\<lparr>main_queue := q\<rparr>" i] by (intro stats_ok_remove) simp
  then show ?thesis using step Pos_Remove by (auto simp: pos_remove_order_def case_prod_beta Let_def)
next
  case Pos_Pop
  assume s: "stats_ok s" and step: "pos_step pq s e = Ok s'"
  then show ?thesis
    using Pos_Pop stats_ok_remove_poped [of "s\<lparr>main_queue := q\<rparr>" for q]
    by (auto simp: pop_order_def split: option.splits prod.splits sum.splits) (metis snd_conv stats_ok_updates(1))
qed (auto simp: stats_ok_insert dest: stats_ok_update)

lemma stats_ok_run: "stats_ok s \<Longrightarrow> pos_run pq s es = Ok s' \<Longrightarrow> stats_ok s'"
  by (induction pq s es rule: pos_run.induct) (auto dest: stats_ok_step split: sum.splits)

section \<open>Orders that become available\<close>

definition mandatory :: "SimulatedOrder \<Rightarrow> bool" where
  "mandatory od \<longleftrightarrow> (\<exists>n \<in> set (so_nonces od). \<not> n_optional n)"

lemma count_valid_ready:
  "\<forall>n \<in> set ns. n_optional n \<or> current_nonce onchain (n_address n) = n_nonce n \<Longrightarrow>
   \<exists>k'. count_valid onchain ns k = Some k' \<and> k \<le> k' \<and> ((\<exists>n \<in> set ns. \<not> n_optional n) \<longrightarrow> k < k')"
proof (induction ns arbitrary: k)
  case (Cons n ns)
  from Cons.prems have "\<forall>n \<in> set ns. n_optional n \<or> current_nonce onchain (n_address n) = n_nonce n" by simp
  note IH = Cons.IH [OF this]
  show ?case
  proof (cases "current_nonce onchain (n_address n) = n_nonce n")
    case True
    with IH [of "Suc k"] show ?thesis by (auto simp: Let_def Suc_le_eq)
  next
    case False
    with Cons.prems have "n_optional n" by auto
    with IH [of k] False show ?thesis by (auto simp: Let_def)
  qed
qed simp

lemma remove_poped_eq:
  "remove_poped_order i s = (res, s') \<Longrightarrow> res = map_of (pos_orders s) i \<and> onchain_nonces s' = onchain_nonces s \<and>
   map_of (pos_orders s') = (map_of (pos_orders s))(i := None)"
  by (auto simp: remove_poped_order_def remove_from_orders_def map_of_filter_key [where P = "\<lambda>x. x \<noteq> i"]
      fun_eq_iff split: option.splits)

lemma insert_ready_stored:
  "ready (onchain_nonces s) od \<Longrightarrow> map_of (pos_orders s) (so_id od) = None \<Longrightarrow>
   map_of (pos_orders (pos_insert_order pq od s)) (so_id od) = Some od"
  using collect_pending_ready [of "onchain_nonces s" od] by (simp add: pos_insert_orders)

lemma invalidate_keeps:
  assumes inv: "invalidate_order pq i s = Ok s'" and od: "map_of (pos_orders s) (so_id od) = Some od"
    and r: "ready (onchain_nonces s) od" and m: "mandatory od"
  shows "map_of (pos_orders s') (so_id od) = Some od \<and> onchain_nonces s' = onchain_nonces s"
proof -
  obtain od' s1 where s1: "remove_poped_order i (s\<lparr>main_queue := snd (pq_remove pq (main_queue s) i)\<rparr>) = (Some od', s1)"
    and s': "s' = (if case count_valid (onchain_nonces s1) (so_nonces od') 0 of None \<Rightarrow> False | Some k \<Rightarrow> 0 < k
        then pos_insert_order pq od' s1 else s1)"
    using inv by (auto simp: invalidate_order_def Let_def split: prod.splits option.splits)
  note eq = remove_poped_eq [OF s1]
  show ?thesis
  proof (cases "i = so_id od")
    case True
    then have "od' = od" using eq od by simp
    moreover have "\<exists>k. count_valid (onchain_nonces s) (so_nonces od) 0 = Some k \<and> 0 < k"
      using count_valid_ready [of "so_nonces od" "onchain_nonces s" 0] r m by (auto simp: ready_def mandatory_def)
    ultimately have "s' = pos_insert_order pq od s1" using s' eq by auto
    then show ?thesis using insert_ready_stored [of s1 od pq] eq True r by simp
  next
    case False
    then have "map_of (pos_orders s1) (so_id od) = Some od" using eq od by simp
    then show ?thesis using s' eq by (auto simp: pos_insert_orders)
  qed
qed

lemma invalidate_orders_keep:
  "invalidate_orders pq is s = Ok s' \<Longrightarrow> map_of (pos_orders s) (so_id od) = Some od \<Longrightarrow>
   ready (onchain_nonces s) od \<Longrightarrow> mandatory od \<Longrightarrow>
   map_of (pos_orders s') (so_id od) = Some od \<and> onchain_nonces s' = onchain_nonces s"
proof (induction "is" arbitrary: s)
  case (Cons i "is")
  then obtain s1 where s1: "invalidate_order pq i s = Ok s1" "invalidate_orders pq is s1 = Ok s'"
    by (auto split: sum.splits)
  from invalidate_keeps [OF s1(1) Cons.prems(2-4)] Cons.IH [OF s1(2)] Cons.prems(3,4) show ?case by simp
qed simp

lemma reinsert_keeps:
  "ready (onchain_nonces s) od \<Longrightarrow> od \<in> set ods \<or> map_of (pos_orders s) (so_id od) = Some od \<Longrightarrow>
   distinct (map so_id ods) \<Longrightarrow> \<forall>x \<in> set ods. map_of (pos_orders s) (so_id x) = None \<Longrightarrow>
   map_of (pos_orders (foldl (\<lambda>s x. pos_insert_order pq x s) s ods)) (so_id od) = Some od \<and>
   onchain_nonces (foldl (\<lambda>s x. pos_insert_order pq x s) s ods) = onchain_nonces s"
proof (induction ods arbitrary: s)
  case (Cons x ods)
  have others: "so_id y \<noteq> so_id x" if "y \<in> set ods" for y
    using Cons.prems(3) that by (metis distinct.simps(2) image_eqI list.set_map list.simps(9))
  let ?s = "pos_insert_order pq x s"
  have "od \<in> set ods \<or> map_of (pos_orders ?s) (so_id od) = Some od"
    using Cons.prems insert_ready_stored [of s od pq] by (auto simp: pos_insert_orders)
  moreover have "\<forall>y \<in> set ods. map_of (pos_orders ?s) (so_id y) = None"
    using Cons.prems(4) others by (simp add: pos_insert_orders)
  ultimately show ?case using Cons.IH [of ?s] Cons.prems by simp
qed simp

lemma release_keeps:
  assumes ids: "\<And>i x. map_of (pos_orders s) i = Some x \<Longrightarrow> so_id x = i"
    and od: "map_of (pos_orders s) (so_id od) = Some od" and r: "ready (onchain_nonces s) od"
  shows "map_of (pos_orders (release_pending pq s nn)) (so_id od) = Some od \<and>
    onchain_nonces (release_pending pq s nn) = onchain_nonces s"
proof (cases "pending_orders s nn")
  case None
  with od show ?thesis by (simp add: release_pending_def)
next
  case (Some pending)
  let ?s = "s\<lparr>pending_orders := (pending_orders s)(nn := None)\<rparr>"
  obtain ods s1 where take: "take_orders pending ?s = (ods, s1)" by fastforce
  have "so_id x = i" if "map_of (pos_orders ?s) i = Some x" for i x using that ids by simp
  note eq = take_orders_eq [OF this take]
  have "od \<in> set ods \<or> map_of (pos_orders s1) (so_id od) = Some od"
    using eq od by auto
  moreover have "\<forall>x \<in> set ods. map_of (pos_orders s1) (so_id x) = None" using eq ids by auto
  ultimately show ?thesis
    using reinsert_keeps [of s1 od ods pq] eq r Some take by (simp add: release_pending_def)
qed

lemma release_all_keep:
  assumes law: "pq_law c pq view"
  shows "pos_inv view {} Y {} s \<Longrightarrow> map_of (pos_orders s) (so_id od) = Some od \<Longrightarrow> ready (onchain_nonces s) od \<Longrightarrow>
    map_of (pos_orders (foldl (release_pending pq) s nns)) (so_id od) = Some od"
proof (induction nns arbitrary: Y s)
  case (Cons nn nns)
  from release_keeps [OF pos_invD(1) [OF Cons.prems(1)] Cons.prems(2,3), of pq nn]
    Cons.IH [OF pos_inv_release [OF law Cons.prems(1), of nn]] Cons.prems(3)
  show ?case by simp
qed simp

lemma set_nonces_orders: "pos_orders (fst (foldl set_nonce_step si nns)) = pos_orders (fst si)"
proof (induction nns arbitrary: si)
  case (Cons nn nns)
  have "pos_orders (fst (set_nonce_step si nn)) = pos_orders (fst si)"
    by (cases si) (simp add: set_nonce_step_def Let_def split: option.splits)
  with Cons.IH show ?case by simp
qed simp

definition new_nonces_of :: "(address \<Rightarrow> u64 option) \<Rightarrow> AccountNonce list \<Rightarrow> (address \<Rightarrow> u64 option)" where
  "new_nonces_of onchain nns = foldl (\<lambda>m n. m(an_account n \<mapsto> an_nonce n)) onchain nns"

lemma set_nonces_onchain:
  "onchain_nonces (fst (foldl set_nonce_step si nns)) = new_nonces_of (onchain_nonces (fst si)) nns"
proof (induction nns arbitrary: si)
  case (Cons nn nns)
  have "onchain_nonces (fst (set_nonce_step si nn)) = (onchain_nonces (fst si))(an_account nn \<mapsto> an_nonce nn)"
    by (cases si) (simp add: set_nonce_step_def Let_def split: option.splits)
  with Cons.IH show ?case by (simp add: new_nonces_of_def)
qed (simp add: new_nonces_of_def)

lemma update_keeps:
  assumes law: "pq_law c pq view" and ord: "arrangement ord" and inv: "pos_inv view {} {} {} s"
    and upd: "update_onchain_nonces pq ord nns s = Ok s'" and od: "map_of (pos_orders s) (so_id od) = Some od"
    and r: "ready (new_nonces_of (onchain_nonces s) nns) od" and m: "mandatory od"
  shows "map_of (pos_orders s') (so_id od) = Some od"
proof -
  obtain s1 ids where s1: "foldl set_nonce_step (s, []) nns = (s1, ids)" by fastforce
  with upd obtain s2 where s2: "invalidate_orders pq (ord ids) s1 = Ok s2" "s' = foldl (release_pending pq) s2 nns"
    by (auto simp: update_onchain_nonces_def split: sum.splits)
  have od1: "map_of (pos_orders s1) (so_id od) = Some od" "ready (onchain_nonces s1) od"
    using set_nonces_orders [of "(s, [])" nns] set_nonces_onchain [of "(s, [])" nns] s1 od r by simp_all
  have P: "phase1_inv view (set nns) (s1, ids)"
    using phase1 [of view "{}" "(s, [])" nns] inv s1 by (simp add: phase1_inv_def)
  have "\<exists>t. invalidate_orders pq (ord ids) s1 = Ok t \<and> pos_inv view {} (set nns) {} t"
    using P ord by (intro invalidate_orders_ok [OF law]) (simp_all add: phase1_inv_def arrangement_set arrangement_distinct)
  then have I2: "pos_inv view {} (set nns) {} s2" using s2(1) by auto
  from invalidate_orders_keep [OF s2(1) od1 m] have od2: "map_of (pos_orders s2) (so_id od) = Some od"
    "ready (onchain_nonces s2) od"
    using od1 by simp_all
  from release_all_keep [OF law I2 od2, of nns] s2(2) show ?thesis by simp
qed

lemma take_onchain: "onchain_nonces (snd (take_orders is t)) = onchain_nonces t"
  by (induction "is" arbitrary: t) (auto simp: case_prod_beta remove_from_orders_def Let_def split: option.splits)

lemma release_onchain: "onchain_nonces (release_pending pq t nn) = onchain_nonces t"
proof -
  have "onchain_nonces (foldl (\<lambda>s x. pos_insert_order pq x s) u xs) = onchain_nonces u" for u xs
    by (induction xs arbitrary: u) simp_all
  then show ?thesis by (simp add: release_pending_def case_prod_beta take_onchain split: option.splits)
qed

lemma update_onchain:
  assumes "update_onchain_nonces pq ord nns s = Ok s'"
  shows "onchain_nonces s' = new_nonces_of (onchain_nonces s) nns"
proof -
  obtain s1 ids where s1: "foldl set_nonce_step (s, []) nns = (s1, ids)" by fastforce
  with assms obtain s2 where s2: "invalidate_orders pq (ord ids) s1 = Ok s2" "s' = foldl (release_pending pq) s2 nns"
    by (auto simp: update_onchain_nonces_def split: sum.splits)
  have step: "onchain_nonces t' = onchain_nonces t" if "invalidate_order pq i t = Ok t'" for i t t'
    using that by (auto simp: invalidate_order_def Let_def dest!: remove_poped_eq split: prod.splits option.splits if_splits)
  have "invalidate_orders pq is t = Ok t' \<Longrightarrow> onchain_nonces t' = onchain_nonces t" for "is" t t'
    by (induction "is" arbitrary: t) (auto dest: step split: sum.splits)
  with s2(1) have "onchain_nonces s2 = onchain_nonces s1" by blast
  moreover have "onchain_nonces (foldl (release_pending pq) t nns) = onchain_nonces t" for t
    by (induction nns arbitrary: t) (simp_all add: release_onchain)
  ultimately show ?thesis using s2(2) set_nonces_onchain [of "(s, [])" nns] s1 by simp
qed

text \<open>All orders that repeated pops return.\<close>

fun drain :: "'q pq_ops \<Rightarrow> nat \<Rightarrow> 'q PrioritizedOrderStore \<Rightarrow> SimulatedOrder list" where
  "drain pq 0 s = []"
| "drain pq (Suc k) s = (case pop_order pq s of Ok (Some od, s') \<Rightarrow> od # drain pq k s' | _ \<Rightarrow> [])"

lemma drain_complete:
  assumes law: "pq_law c pq view"
  shows "pos_inv view {} {} {} s \<Longrightarrow> card (dom (map_of (pos_orders s))) \<le> k \<Longrightarrow>
    map_of (pos_orders s) (so_id od) = Some od \<Longrightarrow> ready (onchain_nonces s) od \<Longrightarrow> od \<in> set (drain pq k s)"
proof (induction k arbitrary: s)
  case 0
  then have "dom (map_of (pos_orders s)) = {}" using finite_dom_map_of [of "pos_orders s"] by simp
  with 0 show ?case by (metis domI empty_iff)
next
  case (Suc k)
  from pos_inv_pop [OF law Suc.prems(1)] obtain res s' where pop: "pop_order pq s = Ok (res, s')"
    and s': "pos_inv view {} {} {} s'" "onchain_nonces s' = onchain_nonces s"
    and res: "case res of
       None \<Rightarrow> s' = s \<and> view (main_queue s) = (\<lambda>_. None)
     | Some od \<Rightarrow> view (main_queue s) (so_id od) = Some od \<and>
         (\<forall>j od'. view (main_queue s) j = Some od' \<longrightarrow> c od' od \<noteq> Greater) \<and>
         map_of (pos_orders s') = (map_of (pos_orders s))(so_id od := None)"
    by blast
  have q: "view (main_queue s) (so_id od) = Some od" using queue_is_ready [OF Suc.prems(1)] Suc.prems(3,4) by blast
  then obtain od' where od': "res = Some od'" using res by (cases res) auto
  have stored: "map_of (pos_orders s) (so_id od') = Some od'"
    using queue_is_ready [OF Suc.prems(1)] res od' by auto
  have orders: "map_of (pos_orders s') = (map_of (pos_orders s))(so_id od' := None)" using res od' by simp
  show ?case
  proof (cases "so_id od = so_id od'")
    case True
    then have "od = od'" using stored Suc.prems(3) by simp
    with pop od' show ?thesis by simp
  next
    case False
    have "card (dom (map_of (pos_orders s'))) < card (dom (map_of (pos_orders s)))"
      using stored finite_dom_map_of [of "pos_orders s"] unfolding orders
      by (intro psubset_card_mono) auto
    then have le: "card (dom (map_of (pos_orders s'))) \<le> k" using Suc.prems(2) by linarith
    have "map_of (pos_orders s') (so_id od) = Some od" "ready (onchain_nonces s') od"
      using Suc.prems(3,4) False orders s'(2) by simp_all
    from Suc.IH [OF s'(1) le this] have "od \<in> set (drain pq k s')" .
    with pop od' show ?thesis by simp
  qed
qed

section \<open>Properties\<close>

text \<open>
  C8: \<^verbatim>\<open>pop_order\<close> gives the best order that can be executed.  After any sequence of insertions,
  removals, updates of nonces and pops, in which none of the \<^verbatim>\<open>expect\<close> calls of the store can
  fail, popping returns an order of the store whose mandatory nonces are the current ones and that has
  the greatest priority among all orders of the store of which this is true, and removes exactly
  that order; it returns nothing only when no order of the store can be executed.
\<close>

theorem pop_order_best:
  assumes "pq_law c pq view" and "list_all pos_event_ok es"
  shows "\<exists>s res s'. pos_run pq (PrioritizedOrderStore_new pq initial) es = Ok s \<and> pop_order pq s = Ok (res, s') \<and>
    (case res of
       None \<Rightarrow> \<forall>od \<in> snd ` set (pos_orders s). \<not> ready (onchain_nonces s) od
     | Some od \<Rightarrow> od \<in> snd ` set (pos_orders s) \<and> ready (onchain_nonces s) od \<and>
         (\<forall>od' \<in> snd ` set (pos_orders s). ready (onchain_nonces s) od' \<longrightarrow> c od' od \<noteq> Greater) \<and>
         map_of (pos_orders s') = (map_of (pos_orders s))(so_id od := None))"
proof -
  obtain s where s: "pos_run pq (PrioritizedOrderStore_new pq initial) es = Ok s" "pos_inv view {} {} {} s"
    using pos_run_ok [OF assms(1) pos_inv_new [OF assms(1)] assms(2)] by blast
  have "stats_ok (PrioritizedOrderStore_new pq initial)" by (simp add: stats_ok_def PrioritizedOrderStore_new_def)
  from stats_ok_run [OF this s(1)] have "distinct (map fst (pos_orders s))" by (simp add: stats_ok_def)
  then have stored: "od \<in> snd ` set (pos_orders s) \<longleftrightarrow> (\<exists>i. map_of (pos_orders s) i = Some od)" for od
    by (auto simp: image_iff) (metis map_of_SomeD snd_conv)
  note queue = queue_is_ready [OF s(2)]
  from pos_inv_pop [OF assms(1) s(2)] obtain res s' where pop: "pop_order pq s = Ok (res, s')"
    and res: "case res of
       None \<Rightarrow> s' = s \<and> view (main_queue s) = (\<lambda>_. None)
     | Some od \<Rightarrow> view (main_queue s) (so_id od) = Some od \<and>
         (\<forall>j od'. view (main_queue s) j = Some od' \<longrightarrow> c od' od \<noteq> Greater) \<and>
         map_of (pos_orders s') = (map_of (pos_orders s))(so_id od := None)"
    by blast
  show ?thesis
  proof (intro exI conjI)
    show "case res of
       None \<Rightarrow> \<forall>od \<in> snd ` set (pos_orders s). \<not> ready (onchain_nonces s) od
     | Some od \<Rightarrow> od \<in> snd ` set (pos_orders s) \<and> ready (onchain_nonces s) od \<and>
         (\<forall>od' \<in> snd ` set (pos_orders s). ready (onchain_nonces s) od' \<longrightarrow> c od' od \<noteq> Greater) \<and>
         map_of (pos_orders s') = (map_of (pos_orders s))(so_id od := None)"
    proof (cases res)
      case None
      with res have "view (main_queue s) i = None" for i by simp
      then have "\<not> ready (onchain_nonces s) od" if "map_of (pos_orders s) i = Some od" for i od
        using queue [of i od] that by simp
      with None stored show ?thesis by auto
    next
      case (Some od)
      with res queue have "map_of (pos_orders s) (so_id od) = Some od" "ready (onchain_nonces s) od" by simp_all
      moreover have "c od' od \<noteq> Greater" if "map_of (pos_orders s) i = Some od'" "ready (onchain_nonces s) od'" for i od'
        using queue [of i od'] that res Some by auto
      then have "\<forall>od' \<in> snd ` set (pos_orders s). ready (onchain_nonces s) od' \<longrightarrow> c od' od \<noteq> Greater"
        using stored by blast
      ultimately show ?thesis using Some res stored [of od] by auto
    qed
  qed (fact s(1) pop)+
qed

text \<open>A priority queue as an association list that satisfies the law.\<close>

fun best_entry ::
  "(SimulatedOrder \<Rightarrow> SimulatedOrder \<Rightarrow> ordering) \<Rightarrow> (OrderId \<times> SimulatedOrder) \<Rightarrow> (OrderId \<times> SimulatedOrder) list
     \<Rightarrow> OrderId \<times> SimulatedOrder" where
  "best_entry c b [] = b"
| "best_entry c b (x # xs) = best_entry c (if c (snd x) (snd b) = Greater then x else b) xs"

definition list_pq ::
  "(SimulatedOrder \<Rightarrow> SimulatedOrder \<Rightarrow> ordering) \<Rightarrow> (OrderId \<times> SimulatedOrder) list pq_ops" where
  "list_pq c =
     \<lparr>pq_new = [], pq_push = (\<lambda>q i p. alist_update i p q),
      pq_pop = (\<lambda>q. case map (\<lambda>kv. (fst kv, the (map_of q (fst kv)))) q of
         [] \<Rightarrow> None
       | x # xs \<Rightarrow> let b = best_entry c x xs in Some (b, filter (\<lambda>kv. fst kv \<noteq> fst b) q)),
      pq_remove = (\<lambda>q i. (map_of q i, filter (\<lambda>kv. fst kv \<noteq> i) q))\<rparr>"

lemma best_entry:
  assumes "comparison c"
  shows "best_entry c b xs \<in> set (b # xs) \<and> (\<forall>y \<in> set (b # xs). c (snd y) (snd (best_entry c b xs)) \<noteq> Greater)"
proof (induction xs arbitrary: b)
  case Nil
  then show ?case by (simp add: comparison.c_refl [OF assms])
next
  case (Cons x xs)
  let ?b = "if c (snd x) (snd b) = Greater then x else b"
  note IH = Cons.IH [of ?b]
  have "c (snd b) (snd ?b) \<noteq> Greater" "c (snd x) (snd ?b) \<noteq> Greater"
    using comparison.c_refl [OF assms] comparison.c_greater_iff [OF assms, of "snd x" "snd b"] by auto
  moreover have "c (snd ?b) (snd (best_entry c ?b xs)) \<noteq> Greater" using IH by simp
  ultimately have "c (snd b) (snd (best_entry c ?b xs)) \<noteq> Greater" "c (snd x) (snd (best_entry c ?b xs)) \<noteq> Greater"
    using comparison.c_le_trans [OF assms] by blast+
  with IH show ?case by auto
qed

lemma list_pq_law:
  assumes "comparison c"
  shows "pq_law c (list_pq c) map_of"
proof -
  have "case pq_pop (list_pq c) q of None \<Rightarrow> map_of q = (\<lambda>_. None)
      | Some ((i, p), q') \<Rightarrow> map_of q i = Some p \<and> map_of q' = (map_of q)(i := None) \<and>
          (\<forall>j p'. map_of q j = Some p' \<longrightarrow> c p' p \<noteq> Greater)" for q
  proof (cases q)
    case Nil
    then show ?thesis by (simp add: list_pq_def)
  next
    case (Cons e es)
    let ?xs = "map (\<lambda>kv. (fst kv, the (map_of q (fst kv)))) q"
    obtain x xs where x: "?xs = x # xs" using Cons by simp
    obtain i p where b: "best_entry c x xs = (i, p)" by (cases "best_entry c x xs")
    have "(i, p) \<in> set ?xs" and max: "\<forall>y \<in> set ?xs. c (snd y) p \<noteq> Greater"
      using best_entry [OF assms, of x xs] b x by auto
    then obtain v where "(i, v) \<in> set q" "p = the (map_of q i)" by auto
    then have ip: "map_of q i = Some p" by (metis domD image_eqI dom_map_of_conv_image_fst fst_conv option.sel)
    moreover have "map_of (filter (\<lambda>kv. fst kv \<noteq> i) q) = (map_of q)(i := None)"
      by (auto simp: map_of_filter_key [where P = "\<lambda>x. x \<noteq> i"])
    moreover have "c p' p \<noteq> Greater" if "map_of q j = Some p'" for j p'
    proof -
      have "(j, p') \<in> set q" using that by (rule map_of_SomeD)
      then have "(j, the (map_of q j)) \<in> set ?xs" by force
      with max that show ?thesis by auto
    qed
    ultimately show ?thesis using x b by (simp add: list_pq_def)
  qed
  moreover have "map_of (snd (pq_remove (list_pq c) q i)) = (map_of q)(i := None)" for q i
    by (auto simp: list_pq_def map_of_filter_key [where P = "\<lambda>x. x \<noteq> i"])
  ultimately show ?thesis by (simp add: pq_law_def) (simp add: list_pq_def fun_eq_iff)
qed

theorem pop_order_best_witness:
  "\<exists>s res s'. pos_run (list_pq (OrderPriority_cmp OrderMaxProfitPriority FullProfitInfoGetter))
      (PrioritizedOrderStore_new (list_pq (OrderPriority_cmp OrderMaxProfitPriority FullProfitInfoGetter))
        [\<lparr>an_nonce = 5, an_account = 7\<rparr>])
      [Pos_Insert (sample_sim_order (sample_tx 1 7 6) 10), Pos_Insert (sample_sim_order (sample_tx 2 7 5) 20),
       Pos_Pop, Pos_Update rev [\<lparr>an_nonce = 6, an_account = 7\<rparr>]] = Ok s \<and>
    pop_order (list_pq (OrderPriority_cmp OrderMaxProfitPriority FullProfitInfoGetter)) s = Ok (res, s') \<and>
    (case res of
       None \<Rightarrow> \<forall>od \<in> snd ` set (pos_orders s). \<not> ready (onchain_nonces s) od
     | Some od \<Rightarrow> od \<in> snd ` set (pos_orders s) \<and> ready (onchain_nonces s) od \<and>
         (\<forall>od' \<in> snd ` set (pos_orders s). ready (onchain_nonces s) od' \<longrightarrow>
            OrderPriority_cmp OrderMaxProfitPriority FullProfitInfoGetter od' od \<noteq> Greater) \<and>
         map_of (pos_orders s') = (map_of (pos_orders s))(so_id od := None))"
  by (rule pop_order_best [OF list_pq_law [OF order_priority_kind.comparison_axioms]]) simp

text \<open>
  C18: Orders that wait for a nonce are not lost.  If an order with a mandatory nonce is in the store and
  an update of the nonces makes all its mandatory nonces current, then the order is among the orders
  that popping until the store has nothing left to execute returns, whatever else is in the store.
\<close>

theorem waiting_order_popped:
  assumes "pq_law c pq view" and "list_all pos_event_ok es" and "arrangement ord"
    and "pos_run pq (PrioritizedOrderStore_new pq initial) es = Ok s"
    and "od \<in> snd ` set (pos_orders s)" and "mandatory od"
    and "ready (new_nonces_of (onchain_nonces s) nns) od"
  shows "\<exists>s'. update_onchain_nonces pq ord nns s = Ok s' \<and> od \<in> set (drain pq (length (pos_orders s')) s')"
proof -
  have inv: "pos_inv view {} {} {} s"
    using pos_run_ok [OF assms(1) pos_inv_new [OF assms(1)] assms(2)] assms(4) by (metis sum.inject(2))
  have "stats_ok (PrioritizedOrderStore_new pq initial)" by (simp add: stats_ok_def PrioritizedOrderStore_new_def)
  from stats_ok_run [OF this assms(4)] have "distinct (map fst (pos_orders s))" by (simp add: stats_ok_def)
  then obtain i where "map_of (pos_orders s) i = Some od" using assms(5) by auto
  with pos_invD(1) [OF inv] have od: "map_of (pos_orders s) (so_id od) = Some od" by metis
  obtain s' where s': "update_onchain_nonces pq ord nns s = Ok s'" "pos_inv view {} {} {} s'"
    using pos_inv_update [OF assms(1,3) inv] by blast
  have od': "map_of (pos_orders s') (so_id od) = Some od"
    by (rule update_keeps [OF assms(1,3) inv s'(1) od assms(7,6)])
  have "onchain_nonces s' = new_nonces_of (onchain_nonces s) nns" by (rule update_onchain [OF s'(1)])
  then have "ready (onchain_nonces s') od" using assms(7) by simp
  moreover have "card (dom (map_of (pos_orders s'))) \<le> length (pos_orders s')"
    by (metis card_length dom_map_of_conv_image_fst image_set length_map)
  ultimately have "od \<in> set (drain pq (length (pos_orders s')) s')"
    using drain_complete [OF assms(1) s'(2) _ od'] by blast
  with s'(1) show ?thesis by blast
qed

abbreviation sample_pq :: "(OrderId \<times> SimulatedOrder) list pq_ops" where
  "sample_pq \<equiv> list_pq (OrderPriority_cmp OrderMaxProfitPriority FullProfitInfoGetter)"

lemma sample_sim_order_simps [simp]:
  "so_id (sample_sim_order (sample_tx h a n) p) = OrderId_Tx h"
  "so_nonces (sample_sim_order (sample_tx h a n) p) = [\<lparr>n_nonce = n, n_address = a, n_optional = False\<rparr>]"
  by (simp_all add: sample_sim_order_def so_id_def so_nonces_def)

lemma sample_waiting:
  "\<exists>s. pos_run sample_pq (PrioritizedOrderStore_new sample_pq [\<lparr>an_nonce = 5, an_account = 7\<rparr>])
      [Pos_Insert (sample_sim_order (sample_tx 1 7 6) 10)] = Ok s \<and>
    pos_orders s = [(OrderId_Tx 1, sample_sim_order (sample_tx 1 7 6) 10)] \<and> onchain_nonces s = [7 \<mapsto> 5] \<and>
    pending_orders s = [\<lparr>an_nonce = 6, an_account = 7\<rparr> \<mapsto> [OrderId_Tx 1]]"
  by (simp add: PrioritizedOrderStore_new_def pos_insert_order_def current_nonce_def register_pending_def fun_eq_iff)

theorem waiting_order_popped_witness:
  "\<exists>s s'. pos_run sample_pq (PrioritizedOrderStore_new sample_pq [\<lparr>an_nonce = 5, an_account = 7\<rparr>])
      [Pos_Insert (sample_sim_order (sample_tx 1 7 6) 10)] = Ok s \<and>
    update_onchain_nonces sample_pq rev [\<lparr>an_nonce = 6, an_account = 7\<rparr>] s = Ok s' \<and>
    sample_sim_order (sample_tx 1 7 6) 10 \<in> set (drain sample_pq (length (pos_orders s')) s')"
proof -
  obtain s where s: "pos_run sample_pq (PrioritizedOrderStore_new sample_pq [\<lparr>an_nonce = 5, an_account = 7\<rparr>])
      [Pos_Insert (sample_sim_order (sample_tx 1 7 6) 10)] = Ok s"
    "pos_orders s = [(OrderId_Tx 1, sample_sim_order (sample_tx 1 7 6) 10)]" "onchain_nonces s = [7 \<mapsto> 5]"
    using sample_waiting by blast
  have "sample_sim_order (sample_tx 1 7 6) 10 \<in> snd ` set (pos_orders s)" using s(2) by simp
  moreover have "mandatory (sample_sim_order (sample_tx 1 7 6) 10)" by (simp add: mandatory_def)
  moreover have "ready (new_nonces_of (onchain_nonces s) [\<lparr>an_nonce = 6, an_account = 7\<rparr>]) (sample_sim_order (sample_tx 1 7 6) 10)"
    by (simp add: ready_def new_nonces_of_def s(3))
  ultimately have "\<exists>s'. update_onchain_nonces sample_pq rev [\<lparr>an_nonce = 6, an_account = 7\<rparr>] s = Ok s' \<and>
      sample_sim_order (sample_tx 1 7 6) 10 \<in> set (drain sample_pq (length (pos_orders s')) s')"
    by (intro waiting_order_popped [OF list_pq_law [OF order_priority_kind.comparison_axioms] _ _ s(1)]) simp_all
  with s(1) show ?thesis by blast
qed

text \<open>
  C32: The statistics of the store count its orders by type (modulo the width of the counters), after any
  sequence of operations.
\<close>

theorem store_statistics_exact:
  assumes "pos_run pq (PrioritizedOrderStore_new pq initial) es = Ok s" and "arrangement ord"
  shows "tx_count (orders_statistics s) =
      of_nat (length (filter (\<lambda>od. is_tx (so_order od)) (get_all_orders ord s))) \<and>
    bundle_count (orders_statistics s) = of_nat (length (filter
      (\<lambda>od. case so_order od of Order_Bundle _ \<Rightarrow> True | _ \<Rightarrow> False) (get_all_orders ord s))) \<and>
    sbundle_count (orders_statistics s) = of_nat (length (filter
      (\<lambda>od. case so_order od of Order_ShareBundle _ \<Rightarrow> True | _ \<Rightarrow> False) (get_all_orders ord s)))"
proof -
  have "stats_ok (PrioritizedOrderStore_new pq initial)" by (simp add: stats_ok_def PrioritizedOrderStore_new_def)
  from stats_ok_run [OF this assms(1)] have "orders_statistics s = stats_of (map snd (pos_orders s))"
    by (simp add: stats_ok_def)
  moreover have "tx_count (stats_of ods) = of_nat (length (filter (\<lambda>od. is_tx (so_order od)) ods)) \<and>
    bundle_count (stats_of ods) = of_nat (length (filter
      (\<lambda>od. case so_order od of Order_Bundle _ \<Rightarrow> True | _ \<Rightarrow> False) ods)) \<and>
    sbundle_count (stats_of ods) = of_nat (length (filter
      (\<lambda>od. case so_order od of Order_ShareBundle _ \<Rightarrow> True | _ \<Rightarrow> False) ods))" for ods
  proof (induction ods)
    case (Cons od ods)
    then show ?case by (cases "so_order od") simp_all
  qed (simp add: OrderStatistics_new_def)
  moreover have "length (filter P (get_all_orders ord s)) = length (filter P (map snd (pos_orders s)))" for P
    using assms(2) unfolding get_all_orders_def arrangement_def by (metis mset_filter size_mset)
  ultimately show ?thesis by simp
qed

theorem store_statistics_exact_witness:
  "\<exists>s. pos_run sample_pq (PrioritizedOrderStore_new sample_pq [\<lparr>an_nonce = 5, an_account = 7\<rparr>])
      [Pos_Insert (sample_sim_order (sample_tx 1 7 6) 10)] = Ok s \<and> tx_count (orders_statistics s) = 1"
proof -
  obtain s where s: "pos_run sample_pq (PrioritizedOrderStore_new sample_pq [\<lparr>an_nonce = 5, an_account = 7\<rparr>])
      [Pos_Insert (sample_sim_order (sample_tx 1 7 6) 10)] = Ok s"
    "pos_orders s = [(OrderId_Tx 1, sample_sim_order (sample_tx 1 7 6) 10)]"
    using sample_waiting by blast
  from store_statistics_exact [OF s(1) arrangement_rev] s show ?thesis
    by (auto simp: get_all_orders_def sample_sim_order_def)
qed

text \<open>
  Removing an order that is ready to execute removes it but reports that nothing was found, because
  the order has already been taken out of \<^verbatim>\<open>orders\<close> when the result is looked up.
\<close>

lemma remove_ready_order_not_reported:
  assumes "pq_law c pq view" and "pos_inv view {} {} {} s"
    and "map_of (pos_orders s) i = Some od" and "ready (onchain_nonces s) od"
  shows "fst (pos_remove_order pq i s) = None \<and> map_of (pos_orders (snd (pos_remove_order pq i s))) i = None"
proof -
  have q: "view (main_queue s) i = Some od" using queue_is_ready [OF assms(2)] assms(3,4) by blast
  from pos_inv_drop [OF assms(2) q pq_remove_view [OF assms(1)]] obtain s' where
    "remove_poped_order i (s\<lparr>main_queue := snd (pq_remove pq (main_queue s) i)\<rparr>) = (Some od, s')"
    "map_of (pos_orders s') = (map_of (pos_orders s))(i := None)"
    by blast
  then show ?thesis
    using q pq_remove_result [OF assms(1), of "main_queue s" i]
    by (simp add: pos_remove_order_def remove_from_orders_def case_prod_beta)
qed

section \<open>The contract of a sink of simulated orders\<close>

text \<open>After a command the sink no longer holds a cancelled order; it holds no order it was not given.\<close>

locale sim_order_sink =
  fixes ops :: "'s sim_sink_ops" and held :: "'s \<Rightarrow> OrderId \<Rightarrow> SimulatedOrder option" and ok :: "'s \<Rightarrow> bool"
  assumes insert_held: "ok s \<Longrightarrow> held (ss_insert_order ops od s) i = Some x \<Longrightarrow> held s i = Some x \<or> (x = od \<and> i = so_id od)"
    and remove_held: "ok s \<Longrightarrow> held (snd (ss_remove_order ops j s)) = (held s)(j := None)"
    and insert_ok: "ok s \<Longrightarrow> ok (ss_insert_order ops od s)"
    and remove_ok: "ok s \<Longrightarrow> ok (snd (ss_remove_order ops j s))"
begin

lemma remove_orders_held: "ok s \<Longrightarrow> ok (snd (ss_remove_orders ops is s)) \<and>
    held (snd (ss_remove_orders ops is s)) i = (if i \<in> set is then None else held s i)"
proof (induction "is" arbitrary: s)
  case (Cons j "is")
  from Cons.IH [OF remove_ok [OF Cons.prems, of j]] Cons.prems show ?case
    by (simp add: case_prod_beta remove_held)
qed simp

text \<open>What a sink holds after commands was simulated and not cancelled afterwards.\<close>

lemma commands_held:
  assumes "ok s" and "held s i = None"
  shows "held (foldl (\<lambda>t c. simulated_order_command_to_sink ops c t) s cmds) i = Some od \<Longrightarrow>
    \<exists>pre post. cmds = pre @ Simulation od # post \<and> so_id od = i \<and> Cancellation i \<notin> set post"
proof (induction cmds rule: rev_induct)
  case Nil
  with assms show ?case by simp
next
  case (snoc c cmds)
  let ?t = "foldl (\<lambda>t c. simulated_order_command_to_sink ops c t) s cmds"
  have ok: "ok ?t"
    using assms(1) by (induction cmds rule: rev_induct)
      (auto simp: simulated_order_command_to_sink_def insert_ok remove_ok split: SimulatedOrderCommand.splits)
  show ?case
  proof (cases c)
    case (Simulation x)
    with snoc.prems insert_held [OF ok, of x i od] have "held ?t i = Some od \<or> (od = x \<and> i = so_id x)"
      by (simp add: simulated_order_command_to_sink_def)
    then show ?thesis
    proof
      assume "held ?t i = Some od"
      from snoc.IH [OF this] obtain pre post where "cmds = pre @ Simulation od # post" "so_id od = i" "Cancellation i \<notin> set post"
        by blast
      with Simulation show ?thesis by (intro exI [of _ pre] exI [of _ "post @ [c]"]) simp
    next
      assume "od = x \<and> i = so_id x"
      with Simulation show ?thesis by (intro exI [of _ cmds] exI [of _ "[]"]) simp
    qed
  next
    case (Cancellation j)
    with snoc.prems remove_held [OF ok, of j] have "j \<noteq> i" "held ?t i = Some od"
      by (auto simp: simulated_order_command_to_sink_def split: if_splits)
    from snoc.IH [OF this(2)] obtain pre post where "cmds = pre @ Simulation od # post" "so_id od = i" "Cancellation i \<notin> set post"
      by blast
    with Cancellation \<open>j \<noteq> i\<close> show ?thesis by (intro exI [of _ pre] exI [of _ "post @ [c]"]) simp
  qed
qed

end

interpretation sim_store: sim_order_sink SimulatedOrderStore_sink "\<lambda>s. map_of (sos_orders s)" "\<lambda>_. True"
  by unfold_locales (auto simp: SimulatedOrderStore_sink_def sos_insert_order_def sos_remove_order_def
      map_of_remove split: if_splits)

lemma prioritized_sink:
  assumes "pq_law c pq view"
  shows "sim_order_sink (PrioritizedOrderStore_sink pq) (\<lambda>s. map_of (pos_orders s)) (pos_inv view {} {} {})"
proof
  fix s od j i x
  assume inv: "pos_inv view {} {} {} s"
  show "map_of (pos_orders (ss_insert_order (PrioritizedOrderStore_sink pq) od s)) i = Some x \<Longrightarrow>
      map_of (pos_orders s) i = Some x \<or> (x = od \<and> i = so_id od)"
    by (auto simp: PrioritizedOrderStore_sink_def pos_insert_orders split: if_splits)
  show "pos_inv view {} {} {} (ss_insert_order (PrioritizedOrderStore_sink pq) od s)"
    using pos_inv_insert [OF assms inv] by (simp add: PrioritizedOrderStore_sink_def)
  show "pos_inv view {} {} {} (snd (ss_remove_order (PrioritizedOrderStore_sink pq) j s))"
    using pos_inv_remove [OF assms inv] by (simp add: PrioritizedOrderStore_sink_def)
  have "map_of (pos_orders (snd (remove_from_orders j t))) = (map_of (pos_orders t))(j := None)" for t :: "'a PrioritizedOrderStore"
    by (auto simp: remove_from_orders_def map_of_filter_key [where P = "\<lambda>x. x \<noteq> j"] fun_eq_iff split: option.splits)
  moreover have "map_of (pos_orders (snd (remove_poped_order j t))) = (map_of (pos_orders t))(j := None)" for t :: "'a PrioritizedOrderStore"
    by (metis prod.collapse remove_poped_eq)
  ultimately show "map_of (pos_orders (snd (ss_remove_order (PrioritizedOrderStore_sink pq) j s))) = (map_of (pos_orders s))(j := None)"
    by (auto simp: PrioritizedOrderStore_sink_def pos_remove_order_def case_prod_beta Let_def)
qed



end
