(* ===== verification/Sim_Tree.thy ===== *)
theory Sim_Tree
  imports Order_Laws
begin

text \<open>
  The simulation tree (\<^verbatim>\<open>SimTree\<close> of \<^verbatim>\<open>rbuilder/src/building/sim.rs\<close>) with the nonce cache it reads
  (\<^verbatim>\<open>rbuilder/src/utils/noncer.rs\<close>).  Orders that need nonces that are not on the chain yet wait until a
  simulated order produces them.  The state provider is an argument of every call, as it may answer a
  read with an error at one time and with a value at another; random simulation identifiers are
  arguments too.  The \<^verbatim>\<open>error!\<close> messages that report a bug of the tree are collected in a log.
\<close>

section \<open>The nonce cache\<close>

type_synonym 'e nonce_provider = "address \<Rightarrow> (u64 option, 'e) result"

definition nonce_cache_nonce ::
  "'e nonce_provider \<Rightarrow> (address \<Rightarrow> u64 option) \<Rightarrow> address \<Rightarrow> (u64, 'e) result \<times> (address \<Rightarrow> u64 option)" where
  "nonce_cache_nonce account_nonce cache a =
     (case cache a of
        Some nonce \<Rightarrow> (Ok nonce, cache)
      | None \<Rightarrow>
          (case account_nonce a of
             Err e \<Rightarrow> (Err e, cache)
           | Ok v \<Rightarrow> let nonce = (case v of None \<Rightarrow> 0 | Some n \<Rightarrow> n) in (Ok nonce, cache(a \<mapsto> nonce))))"

section \<open>State\<close>

record NonceKey =
  nk_address :: address
  nk_nonce :: u64

record PendingOrder =
  po_order :: Order
  unsatisfied_nonces :: nat

type_synonym SimulationId = u64

record SimulationRequest =
  sr_id :: SimulationId
  sr_order :: Order
  sr_parents :: "Order list"

record SimulatedResult =
  res_id :: SimulationId
  simulated_order :: SimulatedOrder
  previous_orders :: "Order list"
  nonces_after :: "NonceKey list"
  simulation_time :: nat

datatype sim_tree_bug = Order_not_found | Order_became_invalid | Order_became_pending_again

datatype 'e sim_tree_error = Provider_error 'e | We_never_delete_sims

record SimTree =
  st_nonces :: "address \<Rightarrow> u64 option"
  sims :: "SimulationId \<Rightarrow> SimulatedResult option"
  sims_that_update_one_nonce :: "NonceKey \<Rightarrow> SimulationId option"
  st_pending_orders :: "OrderId \<Rightarrow> PendingOrder option"
  pending_nonces :: "NonceKey \<Rightarrow> OrderId list option"
  ready_orders :: "SimulationRequest list"
  st_bugs :: "sim_tree_bug list"

datatype OrderNonceState =
    NS_Invalid
  | NS_PendingNonces "NonceKey list"
  | NS_Ready "Order list"

definition SimTree_new :: "(address \<Rightarrow> u64 option) \<Rightarrow> SimTree" where
  "SimTree_new nonce_cache =
     \<lparr>st_nonces = nonce_cache, sims = (\<lambda>_. None), sims_that_update_one_nonce = (\<lambda>_. None),
      st_pending_orders = (\<lambda>_. None), pending_nonces = (\<lambda>_. None), ready_orders = [], st_bugs = []\<rparr>"

section \<open>The state of an order\<close>

fun nonce_state_loop ::
  "'e nonce_provider \<Rightarrow> Nonce list \<Rightarrow> address set \<Rightarrow> NonceKey list \<Rightarrow> Order list \<Rightarrow> SimTree
     \<Rightarrow> (OrderNonceState, 'e sim_tree_error) result \<times> SimTree" where
  "nonce_state_loop pv [] incremented pending parents t =
     (Ok (if pending = [] then NS_Ready parents else NS_PendingNonces pending), t)"
| "nonce_state_loop pv (nonce # ns) incremented pending parents t =
     (case nonce_cache_nonce pv (st_nonces t) (n_address nonce) of
        (Err e, cache) \<Rightarrow> (Err (Provider_error e), t\<lparr>st_nonces := cache\<rparr>)
      | (Ok onchain_nonce, cache) \<Rightarrow>
          let t = t\<lparr>st_nonces := cache\<rparr> in
          (case cmp onchain_nonce (n_nonce nonce) of
             Equal \<Rightarrow> nonce_state_loop pv ns (insert (n_address nonce) incremented) pending parents t
           | Greater \<Rightarrow>
               if \<not> n_optional nonce then (Ok NS_Invalid, t)
               else nonce_state_loop pv ns incremented pending parents t
           | Less \<Rightarrow>
               if n_address nonce \<in> incremented then nonce_state_loop pv ns incremented pending parents t
               else
                 (let incremented = insert (n_address nonce) incremented;
                      nonce_key = \<lparr>nk_address = n_address nonce, nk_nonce = n_nonce nonce\<rparr>
                  in case sims_that_update_one_nonce t nonce_key of
                       Some sim_id \<Rightarrow>
                         (case sims t sim_id of
                            None \<Rightarrow> (Err We_never_delete_sims, t)
                          | Some sim \<Rightarrow>
                              nonce_state_loop pv ns incremented pending
                                (parents @ previous_orders sim @ [so_order (simulated_order sim)]) t)
                     | None \<Rightarrow> nonce_state_loop pv ns incremented (pending @ [nonce_key]) parents t)))"

definition get_order_nonce_state ::
  "'e nonce_provider \<Rightarrow> Order \<Rightarrow> SimTree \<Rightarrow> (OrderNonceState, 'e sim_tree_error) result \<times> SimTree" where
  "get_order_nonce_state pv od t = nonce_state_loop pv (order_nonces od) {} [] [] t"

section \<open>Pushing orders\<close>

definition add_pending_nonce :: "OrderId \<Rightarrow> (NonceKey \<Rightarrow> OrderId list option) \<Rightarrow> NonceKey \<Rightarrow> (NonceKey \<Rightarrow> OrderId list option)" where
  "add_pending_nonce i m nonce = m(nonce \<mapsto> (case m nonce of None \<Rightarrow> [] | Some ids \<Rightarrow> ids) @ [i])"

definition push_order ::
  "'e nonce_provider \<Rightarrow> SimulationId \<Rightarrow> Order \<Rightarrow> SimTree \<Rightarrow> (unit, 'e sim_tree_error) result \<times> SimTree" where
  "push_order pv random_id od t =
     (if st_pending_orders t (order_id od) \<noteq> None then (Ok (), t)
      else (case get_order_nonce_state pv od t of
         (Err e, t1) \<Rightarrow> (Err e, t1)
       | (Ok NS_Invalid, t1) \<Rightarrow> (Ok (), t1)
       | (Ok (NS_PendingNonces pending), t1) \<Rightarrow>
           (Ok (), t1\<lparr>pending_nonces := foldl (add_pending_nonce (order_id od)) (pending_nonces t1) pending,
                      st_pending_orders := (st_pending_orders t1)(order_id od \<mapsto>
                        \<lparr>po_order = od, unsatisfied_nonces = length pending\<rparr>)\<rparr>)
       | (Ok (NS_Ready parents), t1) \<Rightarrow>
           (Ok (), t1\<lparr>ready_orders := ready_orders t1 @
              [\<lparr>sr_id = random_id, sr_order = od, sr_parents = parents\<rparr>]\<rparr>)))"

fun push_orders ::
  "'e nonce_provider \<Rightarrow> (SimulationId \<times> Order) list \<Rightarrow> SimTree \<Rightarrow> (unit, 'e sim_tree_error) result \<times> SimTree" where
  "push_orders pv [] t = (Ok (), t)"
| "push_orders pv ((rid, od) # ods) t =
     (case push_order pv rid od t of (Err e, t1) \<Rightarrow> (Err e, t1) | (Ok _, t1) \<Rightarrow> push_orders pv ods t1)"

definition pop_simulation_tasks :: "nat \<Rightarrow> SimTree \<Rightarrow> SimulationRequest list \<times> SimTree" where
  "pop_simulation_tasks limit t =
     (let limit = min limit (length (ready_orders t))
      in (take limit (ready_orders t), t\<lparr>ready_orders := drop limit (ready_orders t)\<rparr>))"

section \<open>Results of simulations\<close>

text \<open>One order that waited for the new nonce; the orders that need nothing else are collected.\<close>

definition satisfy_one :: "Order list \<times> SimTree \<Rightarrow> OrderId \<Rightarrow> Order list \<times> SimTree" where
  "satisfy_one rt i =
     (let (orders_ready, t) = rt
      in case st_pending_orders t i of
           Some pending_order \<Rightarrow>
             (let k = unsatisfied_nonces pending_order - 1
              in if k = 0
                 then (orders_ready @ [po_order pending_order],
                       t\<lparr>st_pending_orders := (st_pending_orders t)(i := None)\<rparr>)
                 else (orders_ready, t\<lparr>st_pending_orders := (st_pending_orders t)(i \<mapsto>
                        pending_order\<lparr>unsatisfied_nonces := k\<rparr>)\<rparr>))
         | None \<Rightarrow> (orders_ready, t\<lparr>st_bugs := st_bugs t @ [Order_not_found]\<rparr>))"

definition sim_profit :: "SimulatedResult \<Rightarrow> U256" where
  "sim_profit r = pi_coinbase_profit (full_profit_info (so_sim_value (simulated_order r)))"

definition record_nonce ::
  "SimulatedResult \<Rightarrow> NonceKey \<Rightarrow> SimTree \<Rightarrow> (Order list, 'e sim_tree_error) result \<times> SimTree" where
  "record_nonce result updated_nonce t =
     (case sims_that_update_one_nonce t updated_nonce of
        Some sim_id \<Rightarrow>
          (case sims t sim_id of
             None \<Rightarrow> (Err We_never_delete_sims, t)
           | Some sim \<Rightarrow>
               (Ok [], if sim_profit sim < sim_profit result
                  then t\<lparr>sims_that_update_one_nonce := (sims_that_update_one_nonce t)(updated_nonce \<mapsto> res_id result)\<rparr>
                  else t))
      | None \<Rightarrow>
          let t1 = t\<lparr>sims_that_update_one_nonce := (sims_that_update_one_nonce t)(updated_nonce \<mapsto> res_id result)\<rparr>
          in (case pending_nonces t1 updated_nonce of
                None \<Rightarrow> (Ok [], t1)
              | Some ids \<Rightarrow>
                  let (orders_ready, t2) = foldl satisfy_one
                        ([], t1\<lparr>pending_nonces := (pending_nonces t1)(updated_nonce := None)\<rparr>) ids
                  in (Ok orders_ready, t2)))"

fun schedule_ready ::
  "'e nonce_provider \<Rightarrow> (SimulationId \<times> Order) list \<Rightarrow> SimTree \<Rightarrow> (unit, 'e sim_tree_error) result \<times> SimTree" where
  "schedule_ready pv [] t = (Ok (), t)"
| "schedule_ready pv ((rid, od) # ods) t =
     (case get_order_nonce_state pv od t of
        (Err e, t1) \<Rightarrow> (Err e, t1)
      | (Ok (NS_Ready parents), t1) \<Rightarrow>
          schedule_ready pv ods (t1\<lparr>ready_orders := ready_orders t1 @
            [\<lparr>sr_id = rid, sr_order = od, sr_parents = parents\<rparr>]\<rparr>)
      | (Ok NS_Invalid, t1) \<Rightarrow> schedule_ready pv ods (t1\<lparr>st_bugs := st_bugs t1 @ [Order_became_invalid]\<rparr>)
      | (Ok (NS_PendingNonces _), t1) \<Rightarrow>
          schedule_ready pv ods (t1\<lparr>st_bugs := st_bugs t1 @ [Order_became_pending_again]\<rparr>))"

definition process_simulation_task_result ::
  "'e nonce_provider \<Rightarrow> (nat \<Rightarrow> SimulationId) \<Rightarrow> SimulatedResult \<Rightarrow> SimTree
     \<Rightarrow> (unit, 'e sim_tree_error) result \<times> SimTree" where
  "process_simulation_task_result pv random result t =
     (let t1 = t\<lparr>sims := (sims t)(res_id result \<mapsto> result)\<rparr>;
          (ready, t2) = (case nonces_after result of
             [updated_nonce] \<Rightarrow> record_nonce result updated_nonce t1
           | _ \<Rightarrow> (Ok [], t1))
      in case ready of
           Err e \<Rightarrow> (Err e, t2)
         | Ok orders_ready \<Rightarrow> schedule_ready pv (zip (map random [0..<length orders_ready]) orders_ready) t2)"

fun submit_simulation_tasks_results ::
  "'e nonce_provider \<Rightarrow> ((nat \<Rightarrow> SimulationId) \<times> SimulatedResult) list \<Rightarrow> SimTree
     \<Rightarrow> (unit, 'e sim_tree_error) result \<times> SimTree" where
  "submit_simulation_tasks_results pv [] t = (Ok (), t)"
| "submit_simulation_tasks_results pv ((random, r) # rs) t =
     (case process_simulation_task_result pv random r t of
        (Err e, t1) \<Rightarrow> (Err e, t1)
      | (Ok _, t1) \<Rightarrow> submit_simulation_tasks_results pv rs t1)"

section \<open>What an order waits for\<close>

definition key_of :: "Nonce \<Rightarrow> NonceKey" where
  "key_of n = \<lparr>nk_address = n_address n, nk_nonce = n_nonce n\<rparr>"

definition ahead :: "(address \<Rightarrow> u64 option) \<Rightarrow> Nonce \<Rightarrow> bool" where
  "ahead cache n \<longleftrightarrow> the (cache (n_address n)) < n_nonce n"

definition all_cached :: "(address \<Rightarrow> u64 option) \<Rightarrow> Nonce list \<Rightarrow> bool" where
  "all_cached cache ns \<longleftrightarrow> (\<forall>n \<in> set ns. cache (n_address n) \<noteq> None)"

definition outdated :: "(address \<Rightarrow> u64 option) \<Rightarrow> Nonce list \<Rightarrow> bool" where
  "outdated cache ns \<longleftrightarrow> (\<exists>n \<in> set ns. \<not> n_optional n \<and> cache (n_address n) \<noteq> None \<and> n_nonce n < the (cache (n_address n)))"

text \<open>The nonces that nothing simulated so far produces, and the orders that produce the others.\<close>

definition missing :: "(address \<Rightarrow> u64 option) \<Rightarrow> (NonceKey \<Rightarrow> SimulationId option) \<Rightarrow> Nonce list \<Rightarrow> NonceKey list" where
  "missing cache filled ns = map key_of (filter (\<lambda>n. ahead cache n \<and> filled (key_of n) = None) ns)"

definition parents_of :: "SimTree \<Rightarrow> Nonce \<Rightarrow> Order list" where
  "parents_of t n =
     (let sim = the (sims t (the (sims_that_update_one_nonce t (key_of n))))
      in previous_orders sim @ [so_order (simulated_order sim)])"

definition all_parents :: "SimTree \<Rightarrow> Nonce list \<Rightarrow> Order list" where
  "all_parents t ns = concat (map (parents_of t)
     (filter (\<lambda>n. ahead (st_nonces t) n \<and> sims_that_update_one_nonce t (key_of n) \<noteq> None) ns))"

definition sims_kept :: "SimTree \<Rightarrow> bool" where
  "sims_kept t \<longleftrightarrow> (\<forall>k i. sims_that_update_one_nonce t k = Some i \<longrightarrow> sims t i \<noteq> None)"

text \<open>What \<^verbatim>\<open>get_order_nonce_state\<close> returns, in terms of the cache it leaves behind.\<close>

definition nonce_state_ok ::
  "Nonce list \<Rightarrow> NonceKey list \<Rightarrow> Order list \<Rightarrow> (address \<Rightarrow> u64 option) \<Rightarrow> (OrderNonceState, 'e sim_tree_error) result
     \<Rightarrow> SimTree \<Rightarrow> bool" where
  "nonce_state_ok ns pending parents cache0 r t \<longleftrightarrow>
     (case r of
        Err We_never_delete_sims \<Rightarrow> False
      | Err (Provider_error _) \<Rightarrow> \<not> all_cached cache0 ns
      | Ok NS_Invalid \<Rightarrow> outdated (st_nonces t) ns
      | Ok (NS_PendingNonces ks) \<Rightarrow> all_cached (st_nonces t) ns \<and> \<not> outdated (st_nonces t) ns \<and> ks \<noteq> [] \<and>
          ks = pending @ missing (st_nonces t) (sims_that_update_one_nonce t) ns
      | Ok (NS_Ready ps) \<Rightarrow> all_cached (st_nonces t) ns \<and> \<not> outdated (st_nonces t) ns \<and> pending = [] \<and>
          missing (st_nonces t) (sims_that_update_one_nonce t) ns = [] \<and> ps = parents @ all_parents t ns)"

lemma nonce_cache_nonce_cases:
  assumes "nonce_cache_nonce pv cache a = (r, cache')"
  shows "cache \<subseteq>\<^sub>m cache' \<and> (case r of Ok n \<Rightarrow> cache' a = Some n | Err _ \<Rightarrow> cache' = cache \<and> cache a = None)"
  using assms by (auto simp: nonce_cache_nonce_def map_le_def Let_def split: option.splits sum.splits)

text \<open>Nothing is read from the provider for accounts in the cache.\<close>

lemma cached_loop:
  "all_cached (st_nonces t) ns \<Longrightarrow> nonce_state_loop pv ns inc pending parents t = (r, t') \<Longrightarrow> st_nonces t' = st_nonces t"
proof (induction ns arbitrary: inc pending parents)
  case (Cons n ns)
  from Cons.prems(1) obtain v where v: "st_nonces t (n_address n) = Some v" and rest: "all_cached (st_nonces t) ns"
    by (auto simp: all_cached_def)
  have "nonce_cache_nonce pv (st_nonces t) (n_address n) = (Ok v, st_nonces t)" using v by (simp add: nonce_cache_nonce_def)
  with Cons.prems(2) Cons.IH [OF rest] show ?case
    by (auto simp: Let_def split: ordering.splits if_splits option.splits)
qed simp

definition loop_post ::
  "Nonce list \<Rightarrow> NonceKey list \<Rightarrow> Order list \<Rightarrow> SimTree \<Rightarrow> (OrderNonceState, 'e sim_tree_error) result \<times> SimTree \<Rightarrow> bool" where
  "loop_post ns pending parents t rt \<longleftrightarrow>
     (\<exists>cache. snd rt = t\<lparr>st_nonces := cache\<rparr> \<and> st_nonces t \<subseteq>\<^sub>m cache) \<and>
     nonce_state_ok ns pending parents (st_nonces t) (fst rt) (snd rt)"

text \<open>One nonce in front: what it adds to the pending nonces and to the parents.\<close>

lemma loop_post_Cons:
  assumes post: "loop_post ns (pending @ pend1) (parents @ par1) (t\<lparr>st_nonces := c1\<rparr>) rt"
    and le: "st_nonces t \<subseteq>\<^sub>m c1" and c1: "c1 (n_address n) = Some v"
    and inc: "\<not> (v > n_nonce n \<and> \<not> n_optional n)"
    and pend: "pend1 = (if v < n_nonce n \<and> sims_that_update_one_nonce t (key_of n) = None then [key_of n] else [])"
    and par: "par1 = (if v < n_nonce n \<and> sims_that_update_one_nonce t (key_of n) \<noteq> None then parents_of t n else [])"
  shows "loop_post (n # ns) pending parents t rt"
proof -
  obtain r t' where rt: "rt = (r, t')" by (cases rt)
  from post rt obtain cache where t': "t' = t\<lparr>st_nonces := cache\<rparr>" and le': "c1 \<subseteq>\<^sub>m cache"
    and ok: "nonce_state_ok ns (pending @ pend1) (parents @ par1) c1 r t'"
    by (auto simp: loop_post_def)
  have v: "cache (n_address n) = Some v" using le' c1 by (auto simp: map_le_def dom_def)
  have le'': "st_nonces t \<subseteq>\<^sub>m cache" using le le' by (rule map_le_trans)
  have par': "parents_of t' x = parents_of t x" for x by (simp add: parents_of_def t')
  have cached: "all_cached cache (n # ns) \<longleftrightarrow> all_cached cache ns" using v by (simp add: all_cached_def)
  have out: "outdated cache (n # ns) \<longleftrightarrow> outdated cache ns" using v inc by (auto simp: outdated_def)
  have miss: "pending @ missing cache (sims_that_update_one_nonce t) (n # ns) =
      (pending @ pend1) @ missing cache (sims_that_update_one_nonce t) ns"
    using v pend by (simp add: missing_def ahead_def)
  have pars: "parents @ all_parents t' (n # ns) = (parents @ par1) @ all_parents t' ns"
    using v par par' by (auto simp: all_parents_def ahead_def t')
  have unc: "\<not> all_cached c1 ns \<Longrightarrow> \<not> all_cached (st_nonces t) (n # ns)"
    using le by (auto simp: all_cached_def map_le_def dom_def) (metis option.distinct(1))
  have "nonce_state_ok (n # ns) pending parents (st_nonces t) r t'"
    using ok cached out miss pars unc v pend
    by (auto simp: nonce_state_ok_def t' missing_def ahead_def
        split: sum.splits OrderNonceState.splits sim_tree_error.splits if_splits)
  with rt t' le'' show ?thesis by (auto simp: loop_post_def)
qed

lemma st_nonces_self: "t\<lparr>st_nonces := st_nonces t\<rparr> = t" for t :: SimTree
  by simp

lemma nonce_state_loop_post:
  "sims_kept t \<Longrightarrow> distinct (map n_address ns) \<Longrightarrow> n_address ` set ns \<inter> inc = {} \<Longrightarrow>
   loop_post ns pending parents t (nonce_state_loop pv ns inc pending parents t)"
proof (induction ns arbitrary: inc pending parents t)
  case Nil
  then show ?case
    by (simp add: loop_post_def nonce_state_ok_def all_cached_def outdated_def missing_def all_parents_def)
      (rule exI [of _ "st_nonces t"], simp add: st_nonces_self)
next
  case (Cons n ns)
  obtain v c1 where c1: "nonce_cache_nonce pv (st_nonces t) (n_address n) = (v, c1)" by fastforce
  note cc = nonce_cache_nonce_cases [OF c1]
  show ?case
  proof (cases v)
    case (Inl e)
    with c1 cc st_nonces_self [of t] show ?thesis
      by (auto simp: loop_post_def nonce_state_ok_def all_cached_def intro!: exI [of _ "st_nonces t"])
  next
    case (Inr onchain)
    let ?t = "t\<lparr>st_nonces := c1\<rparr>"
    have le: "st_nonces t \<subseteq>\<^sub>m c1" and v: "c1 (n_address n) = Some onchain" using cc Inr by auto
    have kept: "sims_kept ?t" using Cons.prems(1) by (simp add: sims_kept_def)
    have d: "distinct (map n_address ns)" and di: "n_address ` set ns \<inter> insert (n_address n) inc = {}"
      "n_address ` set ns \<inter> inc = {}" "n_address n \<notin> inc"
      using Cons.prems(2,3) by auto
    note IH = Cons.IH [OF kept d]
    show ?thesis
    proof (cases "cmp onchain (n_nonce n)")
      case Equal
      then show ?thesis
        using c1 Inr IH [OF di(1), of pending parents]
        by (simp, intro loop_post_Cons [OF _ le v, of ns pending "[]" parents "[]"]) simp_all
    next
      case Greater
      show ?thesis
      proof (cases "n_optional n")
        case True
        have gt: "\<not> onchain < n_nonce n" using Greater by auto
        from True Greater show ?thesis
          using c1 Inr IH [OF di(2), of pending parents]
          by (simp del: cmp_simps, intro loop_post_Cons [OF _ le v, of ns pending "[]" parents "[]"]) (simp_all add: gt)
      next
        case False
        have "nonce_state_loop pv (n # ns) inc pending parents t = (Ok NS_Invalid, ?t)"
          using False Greater c1 Inr by (simp del: cmp_simps)
        moreover have "n_nonce n < onchain" using Greater by simp
        ultimately show ?thesis using False v le by (auto simp: loop_post_def nonce_state_ok_def outdated_def)
      qed
    next
      case Less
      then have lt: "onchain < n_nonce n" "\<not> n_nonce n < onchain" by auto
      show ?thesis
      proof (cases "sims_that_update_one_nonce t (key_of n)")
        case None
        with Less show ?thesis
          using c1 Inr di(3) IH [OF di(1), of "pending @ [key_of n]" parents]
          by (simp del: cmp_simps add: key_of_def [symmetric],
            intro loop_post_Cons [OF _ le v, of ns pending "[key_of n]" parents "[]"]) (simp_all add: lt)
      next
        case (Some i)
        then obtain sim where sim: "sims t i = Some sim" using Cons.prems(1) by (auto simp: sims_kept_def)
        with Some have "parents_of t n = previous_orders sim @ [so_order (simulated_order sim)]"
          by (simp add: parents_of_def Let_def)
        with Less Some sim show ?thesis
          using c1 Inr di(3) IH [OF di(1), of pending "parents @ parents_of t n"]
          by (simp del: cmp_simps add: key_of_def [symmetric],
            intro loop_post_Cons [OF _ le v, of ns pending "[]" parents "parents_of t n"]) (simp_all add: lt)
      qed
    qed
  qed
qed

lemma get_order_nonce_state_post:
  "sims_kept t \<Longrightarrow> loop_post (order_nonces od) [] [] t (get_order_nonce_state pv od t)"
  unfolding get_order_nonce_state_def
  by (rule nonce_state_loop_post) (simp_all add: distinct_order_nonces)

section \<open>The invariant\<close>

definition waiting_ok :: "SimTree \<Rightarrow> OrderId \<Rightarrow> PendingOrder \<Rightarrow> bool" where
  "waiting_ok t i po \<longleftrightarrow>
     (let ns = order_nonces (po_order po); ks = missing (st_nonces t) (sims_that_update_one_nonce t) ns
      in order_id (po_order po) = i \<and> all_cached (st_nonces t) ns \<and> \<not> outdated (st_nonces t) ns \<and>
         unsatisfied_nonces po = length ks \<and> ks \<noteq> [] \<and> (\<forall>k. i \<in> ids_at (pending_nonces t) k \<longleftrightarrow> k \<in> set ks))"

definition st_inv :: "SimTree \<Rightarrow> bool" where
  "st_inv t \<longleftrightarrow> sims_kept t \<and> st_bugs t = [] \<and>
     (\<forall>i po. st_pending_orders t i = Some po \<longrightarrow> waiting_ok t i po) \<and>
     (\<forall>k i. i \<in> ids_at (pending_nonces t) k \<longrightarrow> st_pending_orders t i \<noteq> None) \<and>
     (\<forall>k ids. pending_nonces t k = Some ids \<longrightarrow> distinct ids)"

lemma distinct_keys: "distinct (map key_of (order_nonces od))"
proof -
  have "map n_address (order_nonces od) = map nk_address (map key_of (order_nonces od))"
    by (simp add: key_of_def)
  then show ?thesis by (metis distinct_order_nonces distinct_map)
qed

lemma distinct_missing: "distinct (missing cache filled (order_nonces od))"
  unfolding missing_def using distinct_keys by (rule distinct_map_filter)

text \<open>A larger cache and more pending orders of others do not change what an order waits for.\<close>

lemma missing_mono:
  assumes "cache \<subseteq>\<^sub>m cache'" and "all_cached cache ns"
  shows "missing cache' filled ns = missing cache filled ns" "all_cached cache' ns"
    "outdated cache' ns \<longleftrightarrow> outdated cache ns"
proof -
  have eq: "cache' (n_address n) = cache (n_address n)" if "n \<in> set ns" for n
  proof -
    have "n_address n \<in> dom cache" using assms(2) that by (auto simp: all_cached_def)
    with assms(1) show ?thesis by (simp add: map_le_def)
  qed
  then have "filter (\<lambda>n. ahead cache' n \<and> filled (key_of n) = None) ns = filter (\<lambda>n. ahead cache n \<and> filled (key_of n) = None) ns"
    by (intro filter_cong) (simp_all add: ahead_def)
  then show "missing cache' filled ns = missing cache filled ns" by (simp add: missing_def)
  show "all_cached cache' ns" using eq assms(2) by (simp add: all_cached_def)
  show "outdated cache' ns \<longleftrightarrow> outdated cache ns" using eq by (auto simp: outdated_def)
qed

lemma waiting_ok_cache:
  assumes "st_nonces t \<subseteq>\<^sub>m cache" and "waiting_ok t i po"
  shows "waiting_ok (t\<lparr>st_nonces := cache\<rparr>) i po"
  using assms missing_mono [OF assms(1), of "order_nonces (po_order po)"]
  by (auto simp: waiting_ok_def Let_def)

lemma st_inv_cache: "st_inv t \<Longrightarrow> st_nonces t \<subseteq>\<^sub>m cache \<Longrightarrow> st_inv (t\<lparr>st_nonces := cache\<rparr>)"
  using waiting_ok_cache by (auto simp: st_inv_def sims_kept_def)

lemma ids_at_add_pending:
  "ids_at (foldl (add_pending_nonce i) m ks) k = ids_at m k \<union> (if k \<in> set ks then {i} else {})"
proof (induction ks arbitrary: m)
  case (Cons x ks)
  have "ids_at (add_pending_nonce i m x) k = ids_at m k \<union> (if k = x then {i} else {})"
    by (auto simp: add_pending_nonce_def ids_at_def split: option.splits)
  with Cons show ?case by auto
qed simp

lemma distinct_add_pending:
  "distinct ks \<Longrightarrow> (\<And>k. k \<in> set ks \<Longrightarrow> i \<notin> ids_at m k) \<Longrightarrow> (\<And>k ids. m k = Some ids \<Longrightarrow> distinct ids) \<Longrightarrow>
   foldl (add_pending_nonce i) m ks k = Some ids \<Longrightarrow> distinct ids"
proof (induction ks arbitrary: m)
  case (Cons x ks)
  have at: "ids_at (add_pending_nonce i m x) k' = ids_at m k'" if "k' \<noteq> x" for k'
    using that by (simp add: add_pending_nonce_def ids_at_def)
  show ?case
  proof (rule Cons.IH [of "add_pending_nonce i m x"])
    show "i \<notin> ids_at (add_pending_nonce i m x) k'" if "k' \<in> set ks" for k'
      using that Cons.prems(1,2) at [of k'] by auto
    show "distinct ids'" if "add_pending_nonce i m x k' = Some ids'" for k' ids'
      using that Cons.prems(2) [of x] Cons.prems(3) by (auto simp: add_pending_nonce_def ids_at_def split: if_splits option.splits)
  qed (use Cons.prems in auto)
qed simp

lemma waiting_ok_upd:
  "waiting_ok (t\<lparr>ready_orders := r\<rparr>) i po = waiting_ok t i po"
  "waiting_ok (t\<lparr>st_pending_orders := p\<rparr>) i po = waiting_ok t i po"
  by (simp_all add: waiting_ok_def)

lemma st_inv_ready: "st_inv t \<Longrightarrow> st_inv (t\<lparr>ready_orders := r\<rparr>)"
  by (simp add: st_inv_def waiting_ok_upd sims_kept_def)

lemma st_inv_add_pending:
  assumes inv: "st_inv t" and fresh: "st_pending_orders t (order_id od) = None"
    and cached: "all_cached (st_nonces t) (order_nonces od)" "\<not> outdated (st_nonces t) (order_nonces od)"
    and ks: "ks = missing (st_nonces t) (sims_that_update_one_nonce t) (order_nonces od)" "ks \<noteq> []"
  shows "st_inv (t\<lparr>pending_nonces := foldl (add_pending_nonce (order_id od)) (pending_nonces t) ks,
      st_pending_orders := (st_pending_orders t)(order_id od \<mapsto> \<lparr>po_order = od, unsatisfied_nonces = length ks\<rparr>)\<rparr>)"
    (is "st_inv ?t")
proof -
  let ?i = "order_id od"
  have not_listed: "?i \<notin> ids_at (pending_nonces t) k" for k
    using inv fresh unfolding st_inv_def by (metis option.distinct(1))
  have at: "ids_at (pending_nonces ?t) k = ids_at (pending_nonces t) k \<union> (if k \<in> set ks then {?i} else {})" for k
    by (simp add: ids_at_add_pending)
  have "waiting_ok ?t ?i \<lparr>po_order = od, unsatisfied_nonces = length ks\<rparr>"
    unfolding waiting_ok_def Let_def at using cached ks not_listed by auto
  moreover have "waiting_ok ?t i po" if "st_pending_orders t i = Some po" "i \<noteq> ?i" for i po
    using inv that unfolding st_inv_def waiting_ok_def Let_def at by auto
  moreover have "distinct ids" if "pending_nonces ?t k = Some ids" for k ids
    using that distinct_add_pending [of ks ?i "pending_nonces t" k ids] not_listed inv ks(1) distinct_missing
    by (auto simp: st_inv_def)
  ultimately show ?thesis
    using inv at by (auto simp: st_inv_def sims_kept_def)
qed

lemma push_order_inv:
  assumes inv: "st_inv t" and step: "push_order pv rid od t = (r, t')"
  shows "st_inv t' \<and> r \<noteq> Err We_never_delete_sims"
proof (cases "st_pending_orders t (order_id od)")
  case (Some po)
  with step inv show ?thesis by (auto simp: push_order_def)
next
  case None
  obtain s t1 where s: "get_order_nonce_state pv od t = (s, t1)" by fastforce
  have "sims_kept t" using inv by (simp add: st_inv_def)
  from get_order_nonce_state_post [OF this, of od pv] s obtain cache where
    t1: "t1 = t\<lparr>st_nonces := cache\<rparr>" "st_nonces t \<subseteq>\<^sub>m cache" and ok: "nonce_state_ok (order_nonces od) [] [] (st_nonces t) s t1"
    by (auto simp: loop_post_def)
  have inv1: "st_inv t1" using st_inv_cache [OF inv t1(2)] t1(1) by simp
  have fresh: "st_pending_orders t1 (order_id od) = None" using None t1(1) by simp
  show ?thesis
  proof (cases s)
    case (Inl e)
    with step s None ok inv1 show ?thesis
      by (cases e) (auto simp: push_order_def nonce_state_ok_def)
  next
    case (Inr st)
    show ?thesis
    proof (cases st)
      case NS_Invalid
      with step s None Inr inv1 show ?thesis by (auto simp: push_order_def)
    next
      case (NS_PendingNonces ks)
      with st_inv_add_pending [OF inv1 fresh, of ks] ok Inr step s None show ?thesis
        by (auto simp: push_order_def nonce_state_ok_def)
    next
      case (NS_Ready ps)
      with st_inv_ready [OF inv1] step s None Inr show ?thesis by (auto simp: push_order_def)
    qed
  qed
qed

section \<open>Recording a new nonce\<close>

definition satisfied :: "PendingOrder \<Rightarrow> bool" where
  "satisfied po \<longleftrightarrow> unsatisfied_nonces po \<le> 1"

definition decrement :: "PendingOrder \<Rightarrow> PendingOrder option" where
  "decrement po = (if satisfied po then None else Some (po\<lparr>unsatisfied_nonces := unsatisfied_nonces po - 1\<rparr>))"

lemma satisfy_all:
  "distinct is \<Longrightarrow> (\<And>i. i \<in> set is \<Longrightarrow> st_pending_orders t i \<noteq> None) \<Longrightarrow>
   foldl satisfy_one (acc, t) is =
     (acc @ map (\<lambda>i. po_order (the (st_pending_orders t i))) (filter (\<lambda>i. satisfied (the (st_pending_orders t i))) is),
      t\<lparr>st_pending_orders := (\<lambda>i. if i \<in> set is then decrement (the (st_pending_orders t i)) else st_pending_orders t i)\<rparr>)"
proof (induction "is" arbitrary: acc t)
  case Nil
  then show ?case by simp
next
  case (Cons i "is")
  obtain po where po: "st_pending_orders t i = Some po" using Cons.prems(2) [of i] by auto
  let ?t = "t\<lparr>st_pending_orders := (st_pending_orders t)(i := decrement po)\<rparr>"
  let ?acc = "if satisfied po then acc @ [po_order po] else acc"
  have step: "satisfy_one (acc, t) i = (?acc, ?t)"
    using po by (auto simp: satisfy_one_def satisfied_def decrement_def Let_def)
  have "st_pending_orders ?t j \<noteq> None" if "j \<in> set is" for j using that Cons.prems by auto
  note IH = Cons.IH [OF _ this, of ?acc]
  have neq: "j \<noteq> i" if "j \<in> set is" for j using that Cons.prems(1) by auto
  have f: "filter (\<lambda>j. satisfied (the (st_pending_orders ?t j))) is = filter (\<lambda>j. satisfied (the (st_pending_orders t j))) is"
    using neq by (intro filter_cong) auto
  have m: "map (\<lambda>j. po_order (the (st_pending_orders ?t j))) (filter P is) =
      map (\<lambda>j. po_order (the (st_pending_orders t j))) (filter P is)" for P
    using neq by (intro map_cong) auto
  have upd: "(\<lambda>j. if j \<in> set is then decrement (the (st_pending_orders ?t j)) else st_pending_orders ?t j) =
      (\<lambda>j. if j \<in> set (i # is) then decrement (the (st_pending_orders t j)) else st_pending_orders t j)"
    by (intro ext) (use neq po in auto)
  have "foldl satisfy_one (acc, t) (i # is) = foldl satisfy_one (?acc, ?t) is" by (simp only: foldl_Cons step)
  also have "\<dots> = (?acc @ map (\<lambda>j. po_order (the (st_pending_orders ?t j))) (filter (\<lambda>j. satisfied (the (st_pending_orders ?t j))) is),
      ?t\<lparr>st_pending_orders := (\<lambda>j. if j \<in> set is then decrement (the (st_pending_orders ?t j)) else st_pending_orders ?t j)\<rparr>)"
    using Cons.prems(1) by (intro IH) simp
  finally show ?case unfolding f m upd using po by simp
qed

lemma missing_fill:
  "missing cache (filled(k \<mapsto> v)) ns = filter (\<lambda>x. x \<noteq> k) (missing cache filled ns)"
  by (induction ns) (auto simp: missing_def)

lemma length_filter_neq: "distinct xs \<Longrightarrow> k \<in> set xs \<Longrightarrow> length (filter (\<lambda>x. x \<noteq> k) xs) = length xs - 1"
proof (induction xs)
  case (Cons x xs)
  show ?case
  proof (cases "x = k")
    case True
    with Cons.prems have "filter (\<lambda>x. x \<noteq> k) xs = xs" by (auto simp: filter_id_conv)
    with True show ?thesis by simp
  next
    case False
    with Cons show ?thesis by (cases xs) auto
  qed
qed simp

text \<open>The tree after a new nonce was recorded: the orders that waited only for it are ready.\<close>

definition can_start :: "SimTree \<Rightarrow> Order \<Rightarrow> bool" where
  "can_start t od \<longleftrightarrow> all_cached (st_nonces t) (order_nonces od) \<and> \<not> outdated (st_nonces t) (order_nonces od) \<and>
     missing (st_nonces t) (sims_that_update_one_nonce t) (order_nonces od) = []"

lemma record_vacant:
  assumes inv: "st_inv t" and ids: "pending_nonces t k = Some ids"
    and vacant: "sims_that_update_one_nonce t k = None" and sim: "sims t (res_id result) \<noteq> None"
    and t1: "t1 = t\<lparr>sims_that_update_one_nonce := (sims_that_update_one_nonce t)(k \<mapsto> res_id result),
      pending_nonces := (pending_nonces t)(k := None)\<rparr>"
    and step: "foldl satisfy_one ([], t1) ids = (ready, t')"
  shows "st_inv t' \<and> list_all (can_start t') ready \<and>
    (\<forall>i po. st_pending_orders t i = Some po \<longrightarrow>
       (\<exists>po'. st_pending_orders t' i = Some po' \<and> po_order po' = po_order po) \<or> po_order po \<in> set ready)"
proof -
  have w: "waiting_ok t i po" if "st_pending_orders t i = Some po" for i po
    using inv that by (simp add: st_inv_def)
  have at_k: "i \<in> ids_at (pending_nonces t) k \<longleftrightarrow> i \<in> set ids" for i using ids by (simp add: ids_at_def)
  have pend: "st_pending_orders t i \<noteq> None" if "i \<in> set ids" for i
    using inv that at_k [of i] unfolding st_inv_def by metis
  have d: "distinct ids" using inv ids by (auto simp: st_inv_def)
  let ?pend = "\<lambda>i. if i \<in> set ids then decrement (the (st_pending_orders t i)) else st_pending_orders t i"
  have p1: "st_pending_orders t1 = st_pending_orders t" by (simp add: t1)
  have "foldl satisfy_one ([], t1) ids =
      (map (\<lambda>i. po_order (the (st_pending_orders t i))) (filter (\<lambda>i. satisfied (the (st_pending_orders t i))) ids),
       t1\<lparr>st_pending_orders := ?pend\<rparr>)"
    by (rule satisfy_all [OF d, of t1 "[]", unfolded p1 append_Nil, OF pend])
  with step have ready: "ready = map (\<lambda>i. po_order (the (st_pending_orders t i))) (filter (\<lambda>i. satisfied (the (st_pending_orders t i))) ids)"
    and t': "t' = t1\<lparr>st_pending_orders := ?pend\<rparr>" by auto
  have ids': "ids_at (pending_nonces t') k' = (if k' = k then {} else ids_at (pending_nonces t) k')" for k'
    by (simp add: t' t1)
  let ?miss = "\<lambda>po. missing (st_nonces t) (sims_that_update_one_nonce t) (order_nonces (po_order po))"
  have miss': "missing (st_nonces t') (sims_that_update_one_nonce t') ns =
      filter (\<lambda>x. x \<noteq> k) (missing (st_nonces t) (sims_that_update_one_nonce t) ns)" for ns
    by (simp add: t' t1 missing_fill)
  have listed: "k \<in> set (?miss po) \<longleftrightarrow> i \<in> set ids" if "st_pending_orders t i = Some po" for i po
  proof -
    have "\<forall>k. i \<in> ids_at (pending_nonces t) k \<longleftrightarrow> k \<in> set (?miss po)" using w [OF that] by (simp add: waiting_ok_def Let_def)
    with at_k show ?thesis by blast
  qed
  have len: "length (filter (\<lambda>x. x \<noteq> k) (?miss po)) = unsatisfied_nonces po - 1"
    if "st_pending_orders t i = Some po" "i \<in> set ids" for i po
    using w [OF that(1)] listed [OF that(1)] that(2) length_filter_neq [OF distinct_missing]
    by (simp add: waiting_ok_def Let_def)
  have new: "waiting_ok t' i po'" if "st_pending_orders t' i = Some po'" for i po'
  proof (cases "i \<in> set ids")
    case True
    then obtain po where po: "st_pending_orders t i = Some po" using pend by blast
    with that True have po': "po' = po\<lparr>unsatisfied_nonces := unsatisfied_nonces po - 1\<rparr>" "\<not> satisfied po"
      by (auto simp: t' decrement_def split: if_splits)
    have "filter (\<lambda>x. x \<noteq> k) (?miss po) \<noteq> []" using len [OF po True] po'(2) by (auto simp: satisfied_def)
    then show ?thesis
      using w [OF po] len [OF po True] po'(1)
      by (auto simp: waiting_ok_def Let_def ids' miss') (simp_all add: t' t1)
  next
    case False
    then have po: "st_pending_orders t i = Some po'" using that by (simp add: t')
    then have "filter (\<lambda>x. x \<noteq> k) (?miss po') = ?miss po'" using listed [OF po] False by (auto simp: filter_id_conv)
    then show ?thesis
      using w [OF po] listed [OF po] False at_k
      by (auto simp: waiting_ok_def Let_def ids' miss') (simp_all add: t' t1)
  qed
  have kept: "sims_kept t'" using inv sim by (auto simp: st_inv_def sims_kept_def t' t1)
  have still: "st_pending_orders t' i \<noteq> None" if "i \<in> ids_at (pending_nonces t') k'" for i k'
  proof -
    have k': "k' \<noteq> k" "i \<in> ids_at (pending_nonces t) k'" using that ids' by (auto split: if_splits)
    then obtain po where po: "st_pending_orders t i = Some po" using inv unfolding st_inv_def by blast
    have "k' \<in> set (filter (\<lambda>x. x \<noteq> k) (?miss po))" using w [OF po] k' by (simp add: waiting_ok_def Let_def)
    then have "\<not> satisfied po" if "i \<in> set ids"
      using len [OF po that] by (cases "filter (\<lambda>x. x \<noteq> k) (?miss po)") (auto simp: satisfied_def)
    with po show ?thesis by (simp add: t' decrement_def)
  qed
  have "can_start t' od" if mem: "od \<in> set ready" for od
  proof -
    obtain i where i: "i \<in> set ids" "satisfied (the (st_pending_orders t i))" "od = po_order (the (st_pending_orders t i))"
      using mem ready by auto
    then obtain po where po: "st_pending_orders t i = Some po" using pend by blast
    have "filter (\<lambda>x. x \<noteq> k) (?miss po) = []" using len [OF po i(1)] i(2) po by (simp add: satisfied_def)
    then show ?thesis
      using w [OF po] i(3) po miss' by (auto simp: can_start_def waiting_ok_def Let_def) (simp_all add: t' t1)
  qed
  moreover have "(\<exists>po'. st_pending_orders t' i = Some po' \<and> po_order po' = po_order po) \<or> po_order po \<in> set ready"
    if "st_pending_orders t i = Some po" for i po
    using that by (auto simp: t' ready decrement_def image_iff intro!: bexI [of _ i])
  moreover have "st_inv t'"
    using inv new kept still by (auto simp: st_inv_def t' t1 split: if_splits)
  ultimately show ?thesis by (simp add: list_all_iff)
qed

lemma record_nonce_inv:
  assumes inv: "st_inv t" and sim: "sims t (res_id result) \<noteq> None"
    and step: "(record_nonce result k t :: (Order list, 'e sim_tree_error) result \<times> SimTree) = (r, t')"
  shows "\<exists>ready. r = Ok ready \<and> st_inv t' \<and> list_all (can_start t') ready \<and>
    (\<forall>i po. st_pending_orders t i = Some po \<longrightarrow>
       (\<exists>po'. st_pending_orders t' i = Some po' \<and> po_order po' = po_order po) \<or> po_order po \<in> set ready)"
proof (cases "sims_that_update_one_nonce t k")
  case (Some i)
  then have "sims t i \<noteq> None" using inv unfolding st_inv_def sims_kept_def by blast
  then obtain old where old: "sims t i = Some old" by blast
  let ?t = "t\<lparr>sims_that_update_one_nonce := (sims_that_update_one_nonce t)(k \<mapsto> res_id result)\<rparr>"
  have filled: "missing cache ((sims_that_update_one_nonce t)(k \<mapsto> res_id result)) ns = missing cache (sims_that_update_one_nonce t) ns" for cache ns
  proof -
    have "k \<notin> set (missing cache (sims_that_update_one_nonce t) ns)" using Some by (auto simp: missing_def)
    then show ?thesis unfolding missing_fill by (auto simp: filter_id_conv)
  qed
  then have "waiting_ok ?t j po = waiting_ok t j po" for j po by (simp add: waiting_ok_def)
  then have "st_inv ?t" using inv sim by (auto simp: st_inv_def sims_kept_def)
  with step Some old inv show ?thesis by (auto simp: record_nonce_def split: if_splits)
next
  case None
  let ?t = "t\<lparr>sims_that_update_one_nonce := (sims_that_update_one_nonce t)(k \<mapsto> res_id result)\<rparr>"
  show ?thesis
  proof (cases "pending_nonces t k")
    case (Some ids)
    obtain ready t2 where t2: "foldl satisfy_one ([], ?t\<lparr>pending_nonces := (pending_nonces t)(k := None)\<rparr>) ids = (ready, t2)"
      by fastforce
    from record_vacant [OF inv Some None sim refl] t2 step None Some show ?thesis
      by (auto simp: record_nonce_def)
  next
    case none: None
    have "k \<notin> set (missing (st_nonces t) (sims_that_update_one_nonce t) (order_nonces (po_order po)))"
      if "st_pending_orders t i = Some po" for i po
    proof -
      have "waiting_ok t i po" using inv that by (simp add: st_inv_def)
      then have "i \<in> ids_at (pending_nonces t) k \<longleftrightarrow>
          k \<in> set (missing (st_nonces t) (sims_that_update_one_nonce t) (order_nonces (po_order po)))"
        by (simp add: waiting_ok_def Let_def)
      with none show ?thesis by (simp add: ids_at_def)
    qed
    then have same: "missing (st_nonces t) ((sims_that_update_one_nonce t)(k \<mapsto> res_id result)) (order_nonces (po_order po)) =
        missing (st_nonces t) (sims_that_update_one_nonce t) (order_nonces (po_order po))"
      if "st_pending_orders t i = Some po" for i po
      using that by (auto simp: missing_fill filter_id_conv)
    have "waiting_ok ?t i po = waiting_ok t i po" if "st_pending_orders t i = Some po" for i po
      by (simp add: waiting_ok_def same [OF that])
    then have "st_inv ?t" using inv sim by (auto simp: st_inv_def sims_kept_def)
    with step None none show ?thesis by (auto simp: record_nonce_def)
  qed
qed

lemma can_start_state:
  assumes "sims_kept t" and "can_start t od"
  shows "get_order_nonce_state pv od t = (Ok (NS_Ready (all_parents t (order_nonces od))), t)"
proof -
  obtain r t1 where r: "get_order_nonce_state pv od t = (r, t1)" by fastforce
  from get_order_nonce_state_post [OF assms(1), of od pv] r obtain cache where
    t1: "t1 = t\<lparr>st_nonces := cache\<rparr>" "st_nonces t \<subseteq>\<^sub>m cache" and ok: "nonce_state_ok (order_nonces od) [] [] (st_nonces t) r t1"
    by (auto simp: loop_post_def)
  have m: "missing cache (sims_that_update_one_nonce t) (order_nonces od) = []" "all_cached cache (order_nonces od)"
    "\<not> outdated cache (order_nonces od)"
    using assms(2) missing_mono [OF t1(2)] by (auto simp: can_start_def)
  obtain ps where ps: "r = Ok (NS_Ready ps)"
    using ok m assms(2) by (auto simp: nonce_state_ok_def t1(1) can_start_def split: sum.splits OrderNonceState.splits sim_tree_error.splits)
  have "all_cached (st_nonces t) (order_nonces od)" using assms(2) by (simp add: can_start_def)
  from cached_loop [OF this r [unfolded get_order_nonce_state_def]] have "cache = st_nonces t" using t1 by simp
  with t1 have "t1 = t" by simp
  with ps ok r show ?thesis by (simp add: nonce_state_ok_def)
qed

lemma schedule_ready_eq:
  "sims_kept t \<Longrightarrow> list_all (can_start t) (map snd ods) \<Longrightarrow>
   schedule_ready pv ods t = (Ok (), t\<lparr>ready_orders := ready_orders t @
     map (\<lambda>(rid, od). \<lparr>sr_id = rid, sr_order = od, sr_parents = all_parents t (order_nonces od)\<rparr>) ods\<rparr>)"
proof (induction ods arbitrary: t)
  case (Cons ro ods)
  obtain rid od where ro: "ro = (rid, od)" by (cases ro)
  let ?t = "t\<lparr>ready_orders := ready_orders t @ [\<lparr>sr_id = rid, sr_order = od, sr_parents = all_parents t (order_nonces od)\<rparr>]\<rparr>"
  have "sims_kept ?t" "list_all (can_start ?t) (map snd ods)" using Cons.prems
    by (simp_all add: sims_kept_def can_start_def list_all_iff)
  note IH = Cons.IH [OF this]
  have par: "all_parents (t\<lparr>ready_orders := r\<rparr>) ns = all_parents t ns" for r ns
  proof -
    have "parents_of (t\<lparr>ready_orders := r\<rparr>) = parents_of t" by (intro ext) (simp add: parents_of_def)
    then show ?thesis by (simp add: all_parents_def)
  qed
  have "can_start t od" using Cons.prems(2) ro by simp
  from can_start_state [OF Cons.prems(1) this, of pv] IH show ?case by (simp add: ro par)
qed simp

lemma process_result_inv:
  fixes pv :: "'e nonce_provider"
  assumes inv: "st_inv t" and step: "process_simulation_task_result pv random result t = (r, t')"
  shows "r = Ok () \<and> st_inv t' \<and>
    (\<forall>i po. st_pending_orders t i = Some po \<longrightarrow>
       (\<exists>po'. st_pending_orders t' i = Some po' \<and> po_order po' = po_order po) \<or>
       po_order po \<in> sr_order ` set (ready_orders t'))"
proof -
  let ?t1 = "t\<lparr>sims := (sims t)(res_id result \<mapsto> result)\<rparr>"
  have inv1: "st_inv ?t1" and sim1: "sims ?t1 (res_id result) \<noteq> None"
    using inv by (auto simp: st_inv_def sims_kept_def waiting_ok_def)
  show ?thesis
  proof (cases "\<exists>k. nonces_after result = [k]")
    case True
    then obtain k where k: "nonces_after result = [k]" by blast
    obtain r2 t2 where r2: "(record_nonce result k ?t1 :: (Order list, 'e sim_tree_error) result \<times> SimTree) = (r2, t2)"
      by fastforce
    from record_nonce_inv [OF inv1 sim1 r2] obtain ready where ready: "r2 = Ok ready" "st_inv t2" "list_all (can_start t2) ready"
      "\<forall>i po. st_pending_orders t i = Some po \<longrightarrow>
       (\<exists>po'. st_pending_orders t2 i = Some po' \<and> po_order po' = po_order po) \<or> po_order po \<in> set ready"
      by auto
    let ?ods = "zip (map random [0..<length ready]) ready"
    have ods: "map snd ?ods = ready" by simp
    have "sims_kept t2" using ready(2) by (simp add: st_inv_def)
    from schedule_ready_eq [OF this, of ?ods pv] ready(3) ods
    have sched: "schedule_ready pv ?ods t2 = (Ok (), t2\<lparr>ready_orders := ready_orders t2 @
        map (\<lambda>(rid, od). \<lparr>sr_id = rid, sr_order = od, sr_parents = all_parents t2 (order_nonces od)\<rparr>) ?ods\<rparr>)" by simp
    have eq: "(r, t') = schedule_ready pv ?ods t2"
      using step k r2 ready(1) by (simp add: process_simulation_task_result_def)
    have t': "r = Ok ()" "st_pending_orders t' = st_pending_orders t2" "st_inv t'" "ready_orders t' = ready_orders t2 @
        map (\<lambda>(rid, od). \<lparr>sr_id = rid, sr_order = od, sr_parents = all_parents t2 (order_nonces od)\<rparr>) ?ods"
      using eq sched st_inv_ready [OF ready(2)] by simp_all
    have "od \<in> sr_order ` set (ready_orders t')" if "od \<in> set ready" for od
    proof -
      have "od \<in> snd ` set ?ods" using that by (metis list.set_map ods)
      then show ?thesis unfolding t'(4) by (force simp: image_iff)
    qed
    with ready(4) t' show ?thesis by metis
  next
    case False
    then have "process_simulation_task_result pv random result t = (Ok (), ?t1)"
      by (cases "nonces_after result"; cases "tl (nonces_after result)")
        (auto simp: process_simulation_task_result_def)
    with step inv1 show ?thesis by auto
  qed
qed

section \<open>Runs of the tree\<close>

datatype 'e st_event =
    ST_Push "'e nonce_provider" SimulationId Order
  | ST_Pop nat
  | ST_Result "'e nonce_provider" "nat \<Rightarrow> SimulationId" SimulatedResult

fun st_step :: "SimTree \<Rightarrow> 'e st_event \<Rightarrow> SimTree" where
  "st_step t (ST_Push pv rid od) = snd (push_order pv rid od t)"
| "st_step t (ST_Pop n) = snd (pop_simulation_tasks n t)"
| "st_step t (ST_Result pv random result) = snd (process_simulation_task_result pv random result t)"

interpretation sim_tree: invariant_system st_step st_inv
proof
  fix t and e :: "'e st_event"
  assume inv: "st_inv t"
  show "st_inv (st_step t e)"
  proof (cases e)
    case (ST_Push pv rid od)
    with push_order_inv [OF inv, of pv rid od] show ?thesis by (cases "push_order pv rid od t") simp
  next
    case (ST_Pop n)
    with st_inv_ready [OF inv] show ?thesis by (simp add: pop_simulation_tasks_def Let_def)
  next
    case (ST_Result pv random result)
    with process_result_inv [OF inv, of pv random result] show ?thesis
      by (cases "process_simulation_task_result pv random result t") simp
  qed
qed

lemma st_inv_new: "st_inv (SimTree_new cache)"
  by (simp add: st_inv_def SimTree_new_def sims_kept_def ids_at_def)

section \<open>Properties\<close>

text \<open>
  C10: The simulation tree never reaches a state that its code reports as a bug.  Whatever orders are
  pushed, tasks popped and results submitted, and whatever the state provider answers at each read, no
  \<^verbatim>\<open>SimTree bug\<close> message is ever logged, the lookups that expect a simulation to be there find it, and
  submitting a result never fails, as every nonce it needs is in the cache.
\<close>

theorem sim_tree_no_bugs:
  "let t = foldl st_step (SimTree_new cache) es
   in st_bugs t = [] \<and> fst (push_order pv rid od t) \<noteq> Err We_never_delete_sims \<and>
      fst (process_simulation_task_result pv random result t) = Ok ()"
proof -
  let ?t = "foldl st_step (SimTree_new cache) es"
  have inv: "st_inv ?t" by (rule sim_tree.inv_run) (rule st_inv_new)
  obtain r1 t1 where r1: "push_order pv rid od ?t = (r1, t1)" by fastforce
  obtain r2 t2 where r2: "process_simulation_task_result pv random result ?t = (r2, t2)" by fastforce
  from push_order_inv [OF inv r1] process_result_inv [OF inv r2] inv r1 r2 show ?thesis by (simp add: st_inv_def)
qed

text \<open>
  C19: No order waits in vain.  In every reachable state an order that is kept pending needs, for at least
  one account, a nonce above the one on the chain that no simulated order has produced yet, its counter is
  the number of such nonces, and it has no mandatory nonce that has already passed; and when a result is
  submitted, every pending order stays pending or is scheduled for simulation.
\<close>

theorem pending_orders_wait_for_something:
  fixes es :: "'e st_event list" and pv :: "'f nonce_provider"
  assumes "t = foldl st_step (SimTree_new cache) es" and "st_pending_orders t i = Some po"
  shows "unsatisfied_nonces po = card {n \<in> set (order_nonces (po_order po)).
      the (st_nonces t (n_address n)) < n_nonce n \<and> sims_that_update_one_nonce t (key_of n) = None} \<and>
    0 < unsatisfied_nonces po \<and>
    (\<forall>n \<in> set (order_nonces (po_order po)). st_nonces t (n_address n) \<noteq> None \<and>
       (n_optional n \<or> the (st_nonces t (n_address n)) \<le> n_nonce n)) \<and>
    (let t' = snd (process_simulation_task_result pv random result t)
     in (\<exists>po'. st_pending_orders t' i = Some po' \<and> po_order po' = po_order po) \<or>
        po_order po \<in> sr_order ` set (ready_orders t'))"
proof -
  have inv: "st_inv t" unfolding assms(1) by (rule sim_tree.inv_run) (rule st_inv_new)
  have w: "waiting_ok t i po" using inv assms(2) by (simp add: st_inv_def)
  let ?ns = "order_nonces (po_order po)"
  let ?P = "\<lambda>n. ahead (st_nonces t) n \<and> sims_that_update_one_nonce t (key_of n) = None"
  have "length (missing (st_nonces t) (sims_that_update_one_nonce t) ?ns) = length (filter ?P ?ns)"
    by (simp add: missing_def)
  moreover have "distinct ?ns" using distinct_keys [of "po_order po"] by (simp add: distinct_map)
  then have "length (filter ?P ?ns) = card {n \<in> set ?ns. ?P n}"
    by (simp add: distinct_length_filter Int_commute Collect_conj_eq)
  moreover have "unsatisfied_nonces po = length (missing (st_nonces t) (sims_that_update_one_nonce t) ?ns)"
    "missing (st_nonces t) (sims_that_update_one_nonce t) ?ns \<noteq> []"
    using w by (auto simp: waiting_ok_def Let_def)
  ultimately have count: "unsatisfied_nonces po = card {n \<in> set ?ns. ?P n}" "0 < unsatisfied_nonces po"
    by (metis, metis length_greater_0_conv)
  have cached: "st_nonces t (n_address n) \<noteq> None \<and> (n_optional n \<or> the (st_nonces t (n_address n)) \<le> n_nonce n)"
    if "n \<in> set ?ns" for n
  proof -
    from w that have "st_nonces t (n_address n) \<noteq> None" "\<not> outdated (st_nonces t) ?ns"
      by (auto simp: waiting_ok_def all_cached_def Let_def)
    with that show ?thesis by (auto simp: outdated_def not_less)
  qed
  obtain r t' where r: "process_simulation_task_result pv random result t = (r, t')" by fastforce
  from process_result_inv [OF inv r] assms(2) r count cached show ?thesis by (auto simp: ahead_def)
qed

theorem pending_orders_wait_for_something_witness:
  "0 < unsatisfied_nonces (the (st_pending_orders
     (foldl st_step (SimTree_new (\<lambda>_. None)) [ST_Push (\<lambda>_. Ok (Some 5) :: (u64 option, unit) result) 1 (Order_Tx (MempoolTx (sample_tx 1 7 6)))])
     (OrderId_Tx 1)))"
proof -
  let ?t = "foldl st_step (SimTree_new (\<lambda>_. None)) [ST_Push (\<lambda>_. Ok (Some 5) :: (u64 option, unit) result) 1 (Order_Tx (MempoolTx (sample_tx 1 7 6)))]"
  have "cmp (5 :: u64) 6 = Less" by simp
  then have po: "st_pending_orders ?t (OrderId_Tx 1) =
      Some \<lparr>po_order = Order_Tx (MempoolTx (sample_tx 1 7 6)), unsatisfied_nonces = 1\<rparr>"
    by (simp add: SimTree_new_def push_order_def get_order_nonce_state_def nonce_cache_nonce_def del: cmp_simps)
  from pending_orders_wait_for_something [OF refl po] show ?thesis unfolding po by simp
qed

end
