(* ===== verification/Evm_Types.thy ===== *)
theory Evm_Types
  imports Order_Types State_Trace
begin

text \<open>
  What the execution of orders (\<^verbatim>\<open>rbuilder/src/building\<close>) shares: the data types of the EVM library it
  reads, the errors of \<^verbatim>\<open>order_commit.rs\<close>, the space accounting and the context of \<^verbatim>\<open>building/mod.rs\<close>, the
  operations of the EVM, of its database and of the signing library as a record of functions, and the
  accessors of \<^verbatim>\<open>BlockState\<close>.

  A \<^verbatim>\<open>BundleState\<close> together with the provider and the read caches below it is a value of a type \<open>'w\<close>.
  A \<^verbatim>\<open>Result<_, CriticalCommitOrderError>\<close> is a sum whose left side also has the panics of the code.
\<close>

section \<open>Accounts, executions and errors\<close>

text \<open>
  The errors of the provider and of the signing library are only passed on; they are represented by
  their messages.  Account information is compared without the byte code, which is left out.
\<close>

type_synonym ProviderError = string
type_synonym secp_error = string

record AccountInfo =
  ai_balance :: U256
  ai_nonce :: u64
  ai_code_hash :: B256

record EvmAccount =
  ea_info :: AccountInfo
  ea_storage :: "U256 \<Rightarrow> U256 option"
  ea_status :: u8

type_synonym EvmState = "address \<Rightarrow> EvmAccount option"

record Log =
  log_address :: address
  log_topics :: "B256 list"
  log_data :: "u8 list"

datatype EvmExecutionResult =
    Success u64 u64 "Log list"
  | Revert u64
  | Halt u64

fun er_gas_used :: "EvmExecutionResult \<Rightarrow> u64" where
  "er_gas_used (Success g _ _) = g"
| "er_gas_used (Revert g) = g"
| "er_gas_used (Halt g) = g"

fun er_is_success :: "EvmExecutionResult \<Rightarrow> bool" where
  "er_is_success (Success _ _ _) = True"
| "er_is_success _ = False"

fun er_logs :: "EvmExecutionResult \<Rightarrow> Log list" where
  "er_logs (Success _ _ ls) = ls"
| "er_logs _ = []"

record ResultAndState =
  ras_result :: EvmExecutionResult
  ras_state :: EvmState

datatype InvalidTransaction = NonceTooHigh u64 u64 | Other_invalid string

datatype EVMError =
    EVM_Transaction InvalidTransaction
  | EVM_Database ProviderError
  | EVM_Header string
  | EVM_Custom string

datatype TransactionErr =
    TE_InvalidTransaction InvalidTransaction
  | TE_Blocklist
  | TE_GasLeft
  | TE_BlobGasLeft
  | TE_BlockSpaceLeft

datatype CriticalCommitOrderError =
    CE_Reth ProviderError
  | CE_EVM EVMError
  | CE_BigIntConversionError

text \<open>A call that panics or does not return is a failure like a critical error.\<close>

datatype commit_failure = Critical CriticalCommitOrderError | Panicked string | Diverged

section \<open>State passing with early return\<close>

text \<open>The operator \<^verbatim>\<open>?\<close> on a call that also changes the state.\<close>

definition try_bind ::
  "('s \<Rightarrow> ('a, 'e) result \<times> 's) \<Rightarrow> ('a \<Rightarrow> 's \<Rightarrow> ('b, 'e) result \<times> 's) \<Rightarrow> 's \<Rightarrow> ('b, 'e) result \<times> 's" where
  "try_bind m k s = (case m s of (r, s') \<Rightarrow> (case r of Err e \<Rightarrow> (Err e, s') | Ok a \<Rightarrow> k a s'))"

definition return_ok :: "'a \<Rightarrow> 's \<Rightarrow> ('a, 'e) result \<times> 's" where
  "return_ok a s = (Ok a, s)"

definition return_err :: "'e \<Rightarrow> 's \<Rightarrow> ('a, 'e) result \<times> 's" where
  "return_err e s = (Err e, s)"

lemma try_bind_OkE:
  assumes "try_bind m k s = (Ok b, u)"
  obtains a t where "m s = (Ok a, t)" and "k a t = (Ok b, u)"
  using assms by (auto simp: try_bind_def split: prod.splits sum.splits)

lemma return_ok_simps [simp]:
  "return_ok a s = (Ok b, t) \<longleftrightarrow> b = a \<and> t = s"
  "return_ok a s = (Err e, t) \<longleftrightarrow> False"
  "return_err e s = (Ok b, t) \<longleftrightarrow> False"
  by (auto simp: return_ok_def return_err_def)

text \<open>An outcome that respects a relation between the states and fails in no excluded way.\<close>

definition outcome_ok :: "('s \<Rightarrow> 's \<Rightarrow> bool) \<Rightarrow> ('e \<Rightarrow> bool) \<Rightarrow> 's \<Rightarrow> ('a, 'e) result \<times> 's \<Rightarrow> bool" where
  "outcome_ok R bad s p \<longleftrightarrow> R s (snd p) \<and> (case fst p of Err e \<Rightarrow> \<not> bad e | Ok _ \<Rightarrow> True)"

named_theorems outcome_rules \<open>outcomes of the combinators and operations\<close>

locale step_relation =
  fixes R :: "'s \<Rightarrow> 's \<Rightarrow> bool" and bad :: "'e \<Rightarrow> bool"
  assumes R_refl: "R s s"
    and R_trans: "R s t \<Longrightarrow> R t u \<Longrightarrow> R s u"
begin

lemma outcome_return_ok: "outcome_ok R bad s (return_ok a s)"
  by (simp add: outcome_ok_def return_ok_def R_refl)

lemma outcome_return_err: "\<not> bad e \<Longrightarrow> outcome_ok R bad s (return_err e s)"
  by (simp add: outcome_ok_def return_err_def R_refl)

lemma outcome_try_bind:
  assumes "outcome_ok R bad s (m s)" and "\<And>a t. m s = (Ok a, t) \<Longrightarrow> outcome_ok R bad t (k a t)"
  shows "outcome_ok R bad s (try_bind m k s)"
proof -
  obtain r t where m: "m s = (r, t)" by (cases "m s")
  show ?thesis
  proof (cases r)
    case (Inl e)
    with m assms(1) show ?thesis by (simp add: try_bind_def outcome_ok_def)
  next
    case (Inr a)
    with m assms(1) assms(2) [of a t] show ?thesis
      by (auto simp: try_bind_def outcome_ok_def intro: R_trans)
  qed
qed

end

section \<open>Space accounting\<close>

record BlockBuildingSpaceState =
  ss_space_used :: BlockSpace
  ss_reserved_block_space :: BlockSpace

definition BlockBuildingSpaceState_new :: "BlockSpace \<Rightarrow> BlockSpace \<Rightarrow> BlockBuildingSpaceState" where
  "BlockBuildingSpaceState_new used reserved = \<lparr>ss_space_used = used, ss_reserved_block_space = reserved\<rparr>"

definition BlockBuildingSpaceState_ZERO :: BlockBuildingSpaceState where
  "BlockBuildingSpaceState_ZERO = \<lparr>ss_space_used = BlockSpace_ZERO, ss_reserved_block_space = BlockSpace_ZERO\<rparr>"

definition ss_free_reserved_block_space :: "BlockBuildingSpaceState \<Rightarrow> BlockBuildingSpaceState" where
  "ss_free_reserved_block_space s = s\<lparr>ss_reserved_block_space := BlockSpace_ZERO\<rparr>"

definition total_consumed_space :: "BlockBuildingSpaceState \<Rightarrow> BlockSpace" where
  "total_consumed_space s = BlockSpace_add (ss_space_used s) (ss_reserved_block_space s)"

definition ss_gas_used :: "BlockBuildingSpaceState \<Rightarrow> u64" where
  "ss_gas_used s = gas (ss_space_used s)"

definition ss_blob_gas_used :: "BlockBuildingSpaceState \<Rightarrow> u64" where
  "ss_blob_gas_used s = blob_gas (ss_space_used s)"

definition ss_reserve_block_space :: "BlockSpace \<Rightarrow> BlockBuildingSpaceState \<Rightarrow> BlockBuildingSpaceState" where
  "ss_reserve_block_space sp s =
     s\<lparr>ss_reserved_block_space := BlockSpace_add_assign (ss_reserved_block_space s) sp\<rparr>"

definition use_space :: "BlockSpace \<Rightarrow> BlockBuildingSpaceState \<Rightarrow> BlockBuildingSpaceState" where
  "use_space sp s = s\<lparr>ss_space_used := BlockSpace_add_assign (ss_space_used s) sp\<rparr>"

text \<open>\<open>None\<close> is the panic of the subtraction.\<close>

definition free_used_state :: "BlockSpace \<Rightarrow> BlockBuildingSpaceState \<Rightarrow> BlockBuildingSpaceState option" where
  "free_used_state sp s =
     map_option (\<lambda>used. s\<lparr>ss_space_used := used\<rparr>) (BlockSpace_sub_assign (ss_space_used s) sp)"

lemma space_state_simps [simp]:
  "ss_space_used (BlockBuildingSpaceState_new used reserved) = used"
  "ss_reserved_block_space (BlockBuildingSpaceState_new used reserved) = reserved"
  "ss_space_used (use_space sp s) = BlockSpace_add (ss_space_used s) sp"
  "ss_reserved_block_space (use_space sp s) = ss_reserved_block_space s"
  by (simp_all add: BlockBuildingSpaceState_new_def use_space_def BlockSpace_add_assign_eq)

section \<open>The context\<close>

record Signer =
  sg_address :: address
  sg_secret :: B256

record BlockBuildingContext =
  ctx_beneficiary :: address
  ctx_basefee :: u64
  ctx_gas_limit :: u64
  ctx_tx_gas_limit_cap :: "u64 option"
  ctx_timestamp :: u64
  ctx_block_number :: u64
  ctx_suggested_fee_recipient :: address
  ctx_chain_id :: u64
  ctx_max_blob_gas_per_block :: u64
  ctx_builder_signer :: Signer
  ctx_blocklist :: "address list"
  ctx_mev_blocker_price :: U256
  ctx_gas_available :: u64

section \<open>The libraries\<close>

text \<open>
  A run of the EVM: its outcome, the reads it made from the database, the addresses of the access list
  and the used state trace that the inspector collected.
\<close>

datatype db_request = Req_basic address | Req_storage address U256

record evm_run =
  run_outcome :: "(ResultAndState, EVMError) result"
  run_reads :: "db_request list"
  run_access_list :: "address list"
  run_used_state :: UsedStateTrace

record TxEip1559 =
  p_chain_id :: u64
  p_nonce :: u64
  p_gas_limit :: u64
  p_max_fee_per_gas :: u128
  p_max_priority_fee_per_gas :: u128
  p_to :: address
  p_value :: U256

text \<open>
  \<open>db_basic\<close> and \<open>db_storage\<close> read the database; \<open>db_commit\<close> applies the changes of an execution and merges
  them into the bundle state with a revert; \<open>db_revert\<close> undoes the last \<open>n\<close> of these; \<open>db_reverts\<close> lists the accounts in
  each revert, the oldest first; \<open>db_increment_balance\<close> adds to the balance of an account for one
  execution.
\<close>

record 'w evm_lib =
  db_basic :: "'w \<Rightarrow> address \<Rightarrow> (AccountInfo option, ProviderError) result"
  db_storage :: "'w \<Rightarrow> address \<Rightarrow> U256 \<Rightarrow> (U256, ProviderError) result"
  db_commit :: "'w \<Rightarrow> EvmState \<Rightarrow> 'w"
  db_revert :: "'w \<Rightarrow> nat \<Rightarrow> 'w"
  db_reverts :: "'w \<Rightarrow> address list list"
  db_increment_balance :: "'w \<Rightarrow> address \<Rightarrow> u128 \<Rightarrow> ('w, ProviderError) result"
  evm_transact :: "'w \<Rightarrow> Recovered \<Rightarrow> evm_run"
  KECCAK_EMPTY :: B256
  sign_message :: "B256 \<Rightarrow> B256 \<Rightarrow> (u8 list, secp_error) result"
  signature_hash :: "TxEip1559 \<Rightarrow> B256"
  signed_tx_hash :: "TxEip1559 \<Rightarrow> u8 list \<Rightarrow> B256"
  signed_tx_length :: "TxEip1559 \<Rightarrow> u8 list \<Rightarrow> usize"
  clock_now :: timestamp

text \<open>
  The contract of a bundle state that keeps reverts: reverting nothing changes nothing, reverting in two
  goes is reverting the sum, and one revert undoes one commit.
\<close>

definition revert_law :: "'w evm_lib \<Rightarrow> bool" where
  "revert_law lib \<longleftrightarrow>
     (\<forall>w. db_revert lib w 0 = w) \<and>
     (\<forall>w m n. db_revert lib (db_revert lib w m) n = db_revert lib w (m + n)) \<and>
     (\<forall>w c. db_revert lib (db_commit lib w c) 1 = w)"

section \<open>Block state\<close>

definition state_balance :: "'w evm_lib \<Rightarrow> address \<Rightarrow> 'w \<Rightarrow> (U256, ProviderError) result" where
  "state_balance lib a w =
     (case db_basic lib w a of Err e \<Rightarrow> Err e | Ok acc \<Rightarrow> Ok (case acc of None \<Rightarrow> 0 | Some i \<Rightarrow> ai_balance i))"

definition state_nonce :: "'w evm_lib \<Rightarrow> address \<Rightarrow> 'w \<Rightarrow> (u64, ProviderError) result" where
  "state_nonce lib a w =
     (case db_basic lib w a of Err e \<Rightarrow> Err e | Ok acc \<Rightarrow> Ok (case acc of None \<Rightarrow> 0 | Some i \<Rightarrow> ai_nonce i))"

definition state_code_hash :: "'w evm_lib \<Rightarrow> address \<Rightarrow> 'w \<Rightarrow> (B256, ProviderError) result" where
  "state_code_hash lib a w =
     (case db_basic lib w a of
        Err e \<Rightarrow> Err e
      | Ok acc \<Rightarrow> Ok (case acc of None \<Rightarrow> KECCAK_EMPTY lib | Some i \<Rightarrow> ai_code_hash i))"

text \<open>\<^verbatim>\<open>Vec::dedup\<close> removes consecutive repetitions (\<open>remdups_adj\<close>).\<close>

definition get_changes_for_last_reverts :: "'w evm_lib \<Rightarrow> nat \<Rightarrow> 'w \<Rightarrow> address list" where
  "get_changes_for_last_reverts lib n w =
     remdups_adj (sort (concat (take n (rev (db_reverts lib w)))))"

lemma revert_commit: "revert_law lib \<Longrightarrow> db_revert lib (db_commit lib w c) 1 = w"
  by (simp add: revert_law_def)

lemma revert_zero: "revert_law lib \<Longrightarrow> db_revert lib w 0 = w"
  by (simp add: revert_law_def)

lemma revert_add: "revert_law lib \<Longrightarrow> db_revert lib (db_revert lib w m) n = db_revert lib w (m + n)"
  by (simp add: revert_law_def)

lemma distinct_remdups_adj_sorted: "sorted xs \<Longrightarrow> distinct (remdups_adj xs)" for xs :: "'a::linorder list"
  by (induction xs rule: remdups_adj.induct) (auto simp: order.antisym)

lemma get_changes_distinct:
  "sorted (get_changes_for_last_reverts lib n w) \<and> distinct (get_changes_for_last_reverts lib n w) \<and>
   set (get_changes_for_last_reverts lib n w) = (\<Union>r \<in> set (take n (rev (db_reverts lib w))). set r)"
  by (simp add: get_changes_for_last_reverts_def distinct_remdups_adj_sorted)

section \<open>A sample library\<close>

text \<open>
  A world is a stack of account tables, the newest first.  A transaction with the right nonce uses 21000 gas,
  increments the nonce and gives 100 to the account 99; one of value 666 reverts.
\<close>

type_synonym sample_world = "(address \<Rightarrow> AccountInfo option) list"

definition sample_account :: "sample_world \<Rightarrow> address \<Rightarrow> AccountInfo option" where
  "sample_account w a = (case w of [] \<Rightarrow> None | m # _ \<Rightarrow> m a)"

definition sample_info :: "sample_world \<Rightarrow> address \<Rightarrow> AccountInfo" where
  "sample_info w a =
     (case sample_account w a of None \<Rightarrow> \<lparr>ai_balance = 0, ai_nonce = 0, ai_code_hash = 0\<rparr> | Some i \<Rightarrow> i)"

definition sample_transact :: "sample_world \<Rightarrow> Recovered \<Rightarrow> evm_run" where
  "sample_transact w tx =
     (let i = sample_info w (rec_signer tx); c = sample_info w 99
      in \<lparr>run_outcome =
            (if ts_nonce (rec_inner tx) \<noteq> ai_nonce i
             then Err (EVM_Transaction (NonceTooHigh (ts_nonce (rec_inner tx)) (ai_nonce i)))
             else Ok \<lparr>ras_result = (if ts_value (rec_inner tx) = 666 then Revert 21000 else Success 21000 0 []),
                      ras_state = [rec_signer tx \<mapsto>
                          \<lparr>ea_info = i\<lparr>ai_nonce := ai_nonce i + 1\<rparr>, ea_storage = (\<lambda>_. None), ea_status = 0\<rparr>,
                        99 \<mapsto> \<lparr>ea_info = c\<lparr>ai_balance := ai_balance c + 100\<rparr>, ea_storage = (\<lambda>_. None), ea_status = 0\<rparr>]\<rparr>),
          run_reads = [Req_basic (rec_signer tx), Req_basic 99],
          run_access_list = [rec_signer tx], run_used_state = empty_trace\<rparr>)"

definition sample_lib :: "sample_world evm_lib" where
  "sample_lib =
     \<lparr>db_basic = (\<lambda>w a. Ok (sample_account w a)),
      db_storage = (\<lambda>w a i. Ok 0),
      db_commit = (\<lambda>w ch. (\<lambda>a. case ch a of Some acc \<Rightarrow> Some (ea_info acc) | None \<Rightarrow> sample_account w a) # w),
      db_revert = (\<lambda>w n. drop n w),
      db_reverts = (\<lambda>w. []),
      db_increment_balance = (\<lambda>w a n. Ok w),
      evm_transact = sample_transact,
      KECCAK_EMPTY = 0,
      sign_message = (\<lambda>_ _. Ok []),
      signature_hash = (\<lambda>_. 0),
      signed_tx_hash = (\<lambda>_ _. 77),
      signed_tx_length = (\<lambda>_ _. 100),
      clock_now = 0\<rparr>"

lemma sample_lib_simps [simp]:
  "db_basic sample_lib w a = Ok (sample_account w a)"
  "db_storage sample_lib w a i = Ok 0"
  "db_commit sample_lib w ch = (\<lambda>a. case ch a of Some acc \<Rightarrow> Some (ea_info acc) | None \<Rightarrow> sample_account w a) # w"
  "db_revert sample_lib w n = drop n w"
  "db_increment_balance sample_lib w a x = Ok w"
  "evm_transact sample_lib w tx = sample_transact w tx"
  "KECCAK_EMPTY sample_lib = 0"
  "sign_message sample_lib k m = Ok []"
  "signed_tx_hash sample_lib t sg = 77"
  "signed_tx_length sample_lib t sg = 100"
  "clock_now sample_lib = 0"
  by (simp_all add: sample_lib_def)

lemma sample_revert_law: "revert_law sample_lib"
  by (simp add: revert_law_def add.commute)

end
