(* ===== verification/Tx_Sim_Cache.thy ===== *)
theory Tx_Sim_Cache
  imports Evm_Types
begin

text \<open>
  The cache of transaction executions (\<^verbatim>\<open>rbuilder/src/building/tx_sim_cache\<close>): the database wrapper that
  records reads, the store of results indexed by the reads they depend on with its walker, and the
  cache that replays a result on a state that agrees with the recorded reads, correcting the coinbase
  account.  Locks and atomic counters are plain fields; one operation runs at a time.
\<close>

section \<open>Recording reads (\<^verbatim>\<open>evm_db.rs\<close>)\<close>

datatype AccessRecord =
    AR_Account address "AccountInfo option"
  | AR_Storage address U256 U256

record EVMRecordingDatabase =
  should_record :: bool
  recorded_trace :: "AccessRecord list"

definition EVMRecordingDatabase_new :: "bool \<Rightarrow> EVMRecordingDatabase" where
  "EVMRecordingDatabase_new b = \<lparr>should_record = b, recorded_trace = []\<rparr>"

definition edb_basic ::
  "'w evm_lib \<Rightarrow> 'w \<Rightarrow> address \<Rightarrow> EVMRecordingDatabase \<Rightarrow> (AccountInfo option, ProviderError) result \<times> EVMRecordingDatabase" where
  "edb_basic lib w a db =
     (case db_basic lib w a of
        Err e \<Rightarrow> (Err e, db)
      | Ok res \<Rightarrow>
          if \<not> should_record db then (Ok res, db)
          else (Ok res, db\<lparr>recorded_trace := recorded_trace db @ [AR_Account a res]\<rparr>))"

definition edb_storage ::
  "'w evm_lib \<Rightarrow> 'w \<Rightarrow> address \<Rightarrow> U256 \<Rightarrow> EVMRecordingDatabase \<Rightarrow> (U256, ProviderError) result \<times> EVMRecordingDatabase" where
  "edb_storage lib w a i db =
     (case db_storage lib w a i of
        Err e \<Rightarrow> (Err e, db)
      | Ok res \<Rightarrow>
          if \<not> should_record db then (Ok res, db)
          else (Ok res, db\<lparr>recorded_trace := recorded_trace db @ [AR_Storage a i res]\<rparr>))"

text \<open>The EVM reads through the wrapper.\<close>

fun edb_request :: "'w evm_lib \<Rightarrow> 'w \<Rightarrow> EVMRecordingDatabase \<Rightarrow> db_request \<Rightarrow> EVMRecordingDatabase" where
  "edb_request lib w db (Req_basic a) = snd (edb_basic lib w a db)"
| "edb_request lib w db (Req_storage a i) = snd (edb_storage lib w a i db)"

section \<open>The store of results (\<^verbatim>\<open>result_store.rs\<close>)\<close>

datatype NextAction = CheckAccount address | CheckStorage address U256 | NA_DoNothing

datatype ActionResult = AccountValue "AccountInfo option" | StorageValue U256 | Res_DoNothing

record 'r StoredResult =
  stored_trace :: "(NextAction \<times> ActionResult) list"
  stored_value :: 'r

type_synonym 'r ExecutionResultStore = "'r StoredResult list"

fun trace_entry :: "AccessRecord \<Rightarrow> NextAction \<times> ActionResult" where
  "trace_entry (AR_Account a res) = (CheckAccount a, AccountValue res)"
| "trace_entry (AR_Storage a i res) = (CheckStorage a i, StorageValue res)"

definition insert_result :: "AccessRecord list \<Rightarrow> 'r \<Rightarrow> 'r ExecutionResultStore \<Rightarrow> 'r ExecutionResultStore" where
  "insert_result access_trace res nodes =
     (let trace = map trace_entry access_trace;
          trace = (if trace = [] then [(NA_DoNothing, Res_DoNothing)] else trace)
      in if list_ex (\<lambda>node. stored_trace node = trace) nodes then nodes
         else nodes @ [\<lparr>stored_trace = trace, stored_value = res\<rparr>])"

record ExecutionResultStoreWalker =
  trace_idx :: nat
  record_idx :: nat

definition get_walker :: ExecutionResultStoreWalker where
  "get_walker = \<lparr>trace_idx = 0, record_idx = 0\<rparr>"

text \<open>\<^verbatim>\<open>Vec::get\<close>\<close>

definition get_at :: "'a list \<Rightarrow> nat \<Rightarrow> 'a option" where
  "get_at xs i = (if i < length xs then Some (xs ! i) else None)"

definition next_action :: "'r ExecutionResultStore \<Rightarrow> ExecutionResultStoreWalker \<Rightarrow> NextAction option" where
  "next_action nodes wk =
     (case get_at nodes (trace_idx wk) of
        None \<Rightarrow> None
      | Some stored \<Rightarrow> map_option fst (get_at (stored_trace stored) (record_idx wk)))"

definition action_result ::
  "'r ExecutionResultStore \<Rightarrow> ActionResult \<Rightarrow> ExecutionResultStoreWalker
     \<Rightarrow> ('r option \<times> ExecutionResultStoreWalker, commit_failure) result" where
  "action_result nodes act wk =
     (case get_at nodes (trace_idx wk) of
        None \<Rightarrow> Ok (None, wk)
      | Some stored \<Rightarrow>
          (case get_at (stored_trace stored) (record_idx wk) of
             None \<Rightarrow> Err (Panicked ''must exist'')
           | Some (_, expected_result) \<Rightarrow>
               if act = expected_result then
                 (let wk = wk\<lparr>record_idx := record_idx wk + 1\<rparr>
                  in if record_idx wk = length (stored_trace stored) then Ok (Some (stored_value stored), wk)
                     else Ok (None, wk))
               else Ok (None, wk\<lparr>trace_idx := trace_idx wk + 1, record_idx := 0\<rparr>)))"

section \<open>The cache (\<^verbatim>\<open>mod.rs\<close>)\<close>

definition NUM_OF_CACHED_EXECUTIONS :: nat where
  "NUM_OF_CACHED_EXECUTIONS = 5"

record CachedExecutionResult =
  cer_tx_hash :: B256
  cer_coinbase :: address
  cer_recorded_trace :: "AccessRecord list"
  cer_result :: "(ResultAndState, TransactionErr) result"
  cer_used_state_trace :: UsedStateTrace

record CachingResult =
  cr_result :: "(ResultAndState, TransactionErr) result option"
  cr_used_state_trace :: UsedStateTrace
  cr_should_cache :: bool

definition new_cache_miss :: "bool \<Rightarrow> CachingResult" where
  "new_cache_miss b = \<lparr>cr_result = None, cr_used_state_trace = empty_trace, cr_should_cache = b\<rparr>"

record TxCacheEntryResult =
  read_coinbase_account :: "AccountInfo option option"
  ter_result :: "(ResultAndState, TransactionErr) result"
  ter_used_state_trace :: UsedStateTrace

record TxCacheEntry =
  tce_store :: "TxCacheEntryResult ExecutionResultStore"
  count_total_executions :: usize
  count_hits :: usize
  tce_never_cache :: bool

definition TxCacheEntry_default :: TxCacheEntry where
  "TxCacheEntry_default =
     \<lparr>tce_store = [], count_total_executions = 0, count_hits = 0, tce_never_cache = False\<rparr>"

definition has_storage_capacity :: "TxCacheEntry \<Rightarrow> bool" where
  "has_storage_capacity e \<longleftrightarrow> length (tce_store e) < NUM_OF_CACHED_EXECUTIONS"

definition trace_is_not_cacheable :: "UsedStateTrace \<Rightarrow> address \<Rightarrow> bool" where
  "trace_is_not_cacheable t coinbase \<longleftrightarrow>
     map_of (read_balances t) coinbase \<noteq> None \<or>
     list_ex (\<lambda>slot_key. sk_address slot_key = coinbase) (map fst (written_slot_values t))"

text \<open>\<open>take_coinbase\<close>: the first account record of the coinbase, taken out of the trace.\<close>

fun take_coinbase :: "address \<Rightarrow> AccessRecord list \<Rightarrow> AccountInfo option option \<times> AccessRecord list" where
  "take_coinbase coinbase [] = (None, [])"
| "take_coinbase coinbase (AR_Account a res # rs) =
     (if a = coinbase then (Some res, rs)
      else (case take_coinbase coinbase rs of (r, rs') \<Rightarrow> (r, AR_Account a res # rs')))"
| "take_coinbase coinbase (AR_Storage a i v # rs) =
     (case take_coinbase coinbase rs of (r, rs') \<Rightarrow> (r, AR_Storage a i v # rs'))"

definition entry_store_result :: "CachedExecutionResult \<Rightarrow> TxCacheEntry \<Rightarrow> TxCacheEntry" where
  "entry_store_result res e =
     (if \<not> has_storage_capacity e then e
      else if trace_is_not_cacheable (cer_used_state_trace res) (cer_coinbase res) then e\<lparr>tce_never_cache := True\<rparr>
      else (case take_coinbase (cer_coinbase res) (cer_recorded_trace res) of
              (coinbase_read_entry, trace) \<Rightarrow>
                e\<lparr>tce_store := insert_result trace
                    \<lparr>read_coinbase_account = coinbase_read_entry, ter_result = cer_result res,
                     ter_used_state_trace = cer_used_state_trace res\<rparr> (tce_store e)\<rparr>))"

definition inc_total_executions :: "TxCacheEntry \<Rightarrow> TxCacheEntry" where
  "inc_total_executions e = e\<lparr>count_total_executions := count_total_executions e + 1\<rparr>"

definition inc_hits :: "TxCacheEntry \<Rightarrow> TxCacheEntry" where
  "inc_hits e = e\<lparr>count_hits := count_hits e + 1\<rparr>"

record TxExecutionCache =
  cache_enabled :: bool
  stored_results :: "B256 \<times> address \<Rightarrow> TxCacheEntry option"
  cache_hits :: usize
  cache_asks :: usize

definition TxExecutionCache_new :: "bool \<Rightarrow> TxExecutionCache" where
  "TxExecutionCache_new b = \<lparr>cache_enabled = b, stored_results = (\<lambda>_. None), cache_hits = 0, cache_asks = 0\<rparr>"

definition get_tx_entry :: "B256 \<times> address \<Rightarrow> TxExecutionCache \<Rightarrow> TxCacheEntry" where
  "get_tx_entry key c = (case stored_results c key of Some e \<Rightarrow> e | None \<Rightarrow> TxCacheEntry_default)"

text \<open>\<open>modify_tx_entry\<close>: an operation on the shared entry that \<^verbatim>\<open>get_tx_entry\<close> returns.\<close>

definition modify_tx_entry ::
  "B256 \<times> address \<Rightarrow> (TxCacheEntry \<Rightarrow> TxCacheEntry) \<Rightarrow> TxExecutionCache \<Rightarrow> TxExecutionCache" where
  "modify_tx_entry key f c = c\<lparr>stored_results := (stored_results c)(key \<mapsto> f (get_tx_entry key c))\<rparr>"

definition cache_store_result :: "CachedExecutionResult \<Rightarrow> TxExecutionCache \<Rightarrow> TxExecutionCache" where
  "cache_store_result res c =
     (if \<not> cache_enabled c then c
      else modify_tx_entry (cer_tx_hash res, cer_coinbase res) (entry_store_result res) c)"

definition inc_cache_asks :: "TxExecutionCache \<Rightarrow> TxExecutionCache" where
  "inc_cache_asks c = c\<lparr>cache_asks := cache_asks c + 1\<rparr>"

definition inc_cache_hits :: "TxExecutionCache \<Rightarrow> TxExecutionCache" where
  "inc_cache_hits c = c\<lparr>cache_hits := cache_hits c + 1\<rparr>"

text \<open>The state is asked for what the walker wants to compare next.\<close>

definition answer_action :: "'w evm_lib \<Rightarrow> 'w \<Rightarrow> NextAction \<Rightarrow> (ActionResult, commit_failure) result" where
  "answer_action lib w act =
     (case act of
        CheckAccount a \<Rightarrow>
          (case db_basic lib w a of Err e \<Rightarrow> Err (Critical (CE_Reth e)) | Ok acc \<Rightarrow> Ok (AccountValue acc))
      | CheckStorage a i \<Rightarrow>
          (case db_basic lib w a of
             Err e \<Rightarrow> Err (Critical (CE_Reth e))
           | Ok _ \<Rightarrow>
               (case db_storage lib w a i of Err e \<Rightarrow> Err (Critical (CE_Reth e)) | Ok v \<Rightarrow> Ok (StorageValue v)))
      | NA_DoNothing \<Rightarrow> Ok Res_DoNothing)"

text \<open>The loop of \<^verbatim>\<open>get_cached_result\<close>; \<open>Ok None\<close> when the walker has nothing left to compare.\<close>

function cache_walk ::
  "'w evm_lib \<Rightarrow> 'w \<Rightarrow> 'r ExecutionResultStore \<Rightarrow> ExecutionResultStoreWalker \<Rightarrow> ('r option, commit_failure) result" where
  "cache_walk lib w nodes wk =
     (case next_action nodes wk of
        None \<Rightarrow> Ok None
      | Some act \<Rightarrow>
          (case answer_action lib w act of
             Err e \<Rightarrow> Err e
           | Ok res \<Rightarrow>
               (case action_result nodes res wk of
                  Err e \<Rightarrow> Err e
                | Ok (found, wk') \<Rightarrow>
                    (case found of Some r \<Rightarrow> Ok (Some r) | None \<Rightarrow> cache_walk lib w nodes wk'))))"
  by pat_completeness auto

termination
proof (relation "measures [\<lambda>(lib, w, nodes, wk). length nodes - trace_idx wk,
    \<lambda>(lib, w, nodes, wk). case get_at nodes (trace_idx wk) of None \<Rightarrow> 0
       | Some sr \<Rightarrow> length (stored_trace sr) - record_idx wk]", goal_cases)
  case 1
  then show ?case by simp
next
  case (2 lib w nodes wk act res wk')
  then show ?case
    by (auto simp: next_action_def action_result_def get_at_def Let_def split: if_splits)
qed

declare cache_walk.simps [simp del]

text \<open>\<^verbatim>\<open>signed_uint_delta\<close> of \<^verbatim>\<open>utils/mod.rs\<close>; the difference of two values that fit always fits.\<close>

definition signed_uint_delta :: "U256 \<Rightarrow> U256 \<Rightarrow> (I256, commit_failure) result" where
  "signed_uint_delta a b =
     (if 2 ^ 255 \<le> uint a then Err (Panicked ''A is too big'')
      else if 2 ^ 255 \<le> uint b then Err (Panicked ''B is too big'')
      else Ok (uint a - uint b))"

text \<open>\<^verbatim>\<open>u64::checked_add_signed\<close>; the delta is an \<^verbatim>\<open>i64\<close>.\<close>

definition checked_add_signed :: "u64 \<Rightarrow> u64 \<Rightarrow> u64 option" where
  "checked_add_signed n d =
     (let r = uint n + sint d in if 0 \<le> r \<and> r < 2 ^ 64 then Some (word_of_int r) else None)"

text \<open>\<^verbatim>\<open>checked_add\<close>\<close>

definition checked_add :: "'a::len word \<Rightarrow> 'a word \<Rightarrow> 'a word option" where
  "checked_add a b = (if a + b < a then None else Some (a + b))"

definition checked_add_balance :: "U256 \<Rightarrow> I256 \<Rightarrow> U256 option" where
  "checked_add_balance balance delta =
     (let negative = delta < 0; delta_abs = word_of_int \<bar>delta\<bar>
      in if negative \<and> balance < delta_abs then None
         else if negative then checked_sub balance delta_abs else checked_add balance delta_abs)"

text \<open>The changes of nonce and balance to apply, or \<open>None\<close> where the cached result is rejected.\<close>

fun coinbase_deltas ::
  "AccountInfo option \<Rightarrow> AccountInfo option \<Rightarrow> ((u64 \<times> I256) option, commit_failure) result" where
  "coinbase_deltas None None = Ok (Some (0, 0))"
| "coinbase_deltas (Some cached) (Some current) =
     (if ai_code_hash cached \<noteq> ai_code_hash current then Ok None
      else (case signed_uint_delta (ai_balance current) (ai_balance cached) of
              Err e \<Rightarrow> Err e
            | Ok d \<Rightarrow> Ok (Some (ai_nonce current - ai_nonce cached, d))))"
| "coinbase_deltas _ _ = Ok None"

definition shift_account :: "u64 \<times> I256 \<Rightarrow> EvmAccount \<Rightarrow> EvmAccount option" where
  "shift_account d acc =
     (case checked_add_signed (ai_nonce (ea_info acc)) (fst d) of
        None \<Rightarrow> None
      | Some new_nonce \<Rightarrow>
          (case checked_add_balance (ai_balance (ea_info acc)) (snd d) of
             None \<Rightarrow> None
           | Some new_balance \<Rightarrow>
               Some (acc\<lparr>ea_info := (ea_info acc)\<lparr>ai_nonce := new_nonce, ai_balance := new_balance\<rparr>\<rparr>)))"

definition get_cached_result ::
  "'w evm_lib \<Rightarrow> 'w \<Rightarrow> B256 \<Rightarrow> address \<Rightarrow> TxExecutionCache
     \<Rightarrow> (CachingResult, commit_failure) result \<times> TxExecutionCache" where
  "get_cached_result lib w h coinbase c =
     (if \<not> cache_enabled c then (Ok (new_cache_miss False), c)
      else
        let key = (h, coinbase);
            c = modify_tx_entry key inc_total_executions (inc_cache_asks c);
            entry = get_tx_entry key c;
            miss = (Ok (new_cache_miss (has_storage_capacity entry)), c);
            hit = (\<lambda>res cached. (Ok \<lparr>cr_result = Some res, cr_used_state_trace = ter_used_state_trace cached,
                     cr_should_cache = False\<rparr>, modify_tx_entry key inc_hits (inc_cache_hits c)))
        in if tce_never_cache entry then (Ok (new_cache_miss False), c)
           else (case cache_walk lib w (tce_store entry) get_walker of
             Err e \<Rightarrow> (Err e, c)
           | Ok None \<Rightarrow> miss
           | Ok (Some cached) \<Rightarrow>
               (case ter_result cached of
                  Err e \<Rightarrow> hit (Err e) cached
                | Ok evm_result \<Rightarrow>
                    (case read_coinbase_account cached of
                       None \<Rightarrow> (Err (Panicked ''tx_sim_cache: tx did not read coinbase account''), c)
                     | Some used_coinbase \<Rightarrow>
                         (case db_basic lib w coinbase of
                            Err e \<Rightarrow> (Err (Critical (CE_Reth e)), c)
                          | Ok current_coinbase \<Rightarrow>
                              (case coinbase_deltas used_coinbase current_coinbase of
                                 Err e \<Rightarrow> (Err e, c)
                               | Ok None \<Rightarrow> miss
                               | Ok (Some d) \<Rightarrow>
                                   (case Option.bind (ras_state evm_result coinbase) (shift_account d) of
                                      None \<Rightarrow> miss
                                    | Some acc \<Rightarrow>
                                        hit (Ok (evm_result\<lparr>ras_state := (ras_state evm_result)(coinbase \<mapsto> acc)\<rparr>)) cached)))))))"

section \<open>The walker finds the first result that agrees with the state\<close>

definition agrees :: "'w evm_lib \<Rightarrow> 'w \<Rightarrow> 'r StoredResult \<Rightarrow> bool" where
  "agrees lib w sr \<longleftrightarrow> list_all (\<lambda>(act, res). answer_action lib w act = Ok res) (stored_trace sr)"

lemma get_at_Some_iff: "get_at xs i = Some x \<longleftrightarrow> i < length xs \<and> xs ! i = x"
  by (auto simp: get_at_def)

lemma get_at_None_iff: "get_at xs i = None \<longleftrightarrow> length xs \<le> i"
  by (auto simp: get_at_def)

lemma next_action_SomeE:
  assumes "next_action nodes wk = Some act"
  obtains sr res where "trace_idx wk < length nodes" "nodes ! trace_idx wk = sr"
    "record_idx wk < length (stored_trace sr)" "stored_trace sr ! record_idx wk = (act, res)"
  using assms by (auto simp: next_action_def get_at_def split: if_splits)

lemma action_result_at:
  assumes "trace_idx wk < length nodes" and "nodes ! trace_idx wk = sr"
    and "record_idx wk < length (stored_trace sr)" and "stored_trace sr ! record_idx wk = (act, expected)"
  shows "action_result nodes res wk =
    (if res \<noteq> expected then Ok (None, wk\<lparr>trace_idx := trace_idx wk + 1, record_idx := 0\<rparr>)
     else if record_idx wk + 1 = length (stored_trace sr)
     then Ok (Some (stored_value sr), wk\<lparr>record_idx := record_idx wk + 1\<rparr>)
     else Ok (None, wk\<lparr>record_idx := record_idx wk + 1\<rparr>))"
  using assms by (simp add: action_result_def get_at_def Let_def)

lemma cache_walk_at:
  assumes "trace_idx wk < length nodes" and "nodes ! trace_idx wk = sr"
    and "record_idx wk < length (stored_trace sr)" and "stored_trace sr ! record_idx wk = (act, expected)"
  shows "cache_walk lib w nodes wk =
    (case answer_action lib w act of
       Err e \<Rightarrow> Err e
     | Ok res \<Rightarrow>
         if res \<noteq> expected then cache_walk lib w nodes (wk\<lparr>trace_idx := trace_idx wk + 1, record_idx := 0\<rparr>)
         else if record_idx wk + 1 = length (stored_trace sr) then Ok (Some (stored_value sr))
         else cache_walk lib w nodes (wk\<lparr>record_idx := record_idx wk + 1\<rparr>))"
proof -
  have "next_action nodes wk = Some act" using assms by (simp add: next_action_def get_at_def)
  then show ?thesis
    using cache_walk.simps [of lib w nodes wk] action_result_at [OF assms]
    by (simp split: sum.split)
qed

lemma cache_walk_sound:
  assumes "cache_walk lib w nodes wk = Ok (Some r)"
    and "trace_idx wk < length nodes \<Longrightarrow>
      list_all (\<lambda>(act, res). answer_action lib w act = Ok res) (take (record_idx wk) (stored_trace (nodes ! trace_idx wk)))"
  shows "\<exists>sr \<in> set nodes. agrees lib w sr \<and> r = stored_value sr"
  using assms
proof (induction lib w nodes wk rule: cache_walk.induct)
  case (1 lib w nodes wk)
  from "1.prems"(1) obtain act where act: "next_action nodes wk = Some act"
    by (cases "next_action nodes wk") (simp_all add: cache_walk.simps)
  then obtain sr expected where at: "trace_idx wk < length nodes" "nodes ! trace_idx wk = sr"
    "record_idx wk < length (stored_trace sr)" "stored_trace sr ! record_idx wk = (act, expected)"
    by (rule next_action_SomeE)
  note walk = cache_walk_at [OF at, of lib w] and res_at = action_result_at [OF at]
  from "1.prems"(1) walk obtain res where res: "answer_action lib w act = Ok res"
    by (cases "answer_action lib w act") simp_all
  have sofar: "list_all (\<lambda>(act, res). answer_action lib w act = Ok res) (take (record_idx wk) (stored_trace sr))"
    using "1.prems"(2) at(1,2) by simp
  show ?case
  proof (cases "res = expected")
    case False
    then show ?thesis using "1.IH" [OF act res] "1.prems"(1) walk res res_at by simp
  next
    case True
    have next_ok: "list_all (\<lambda>(act, res). answer_action lib w act = Ok res) (take (record_idx wk + 1) (stored_trace sr))"
      using sofar at(3,4) True res by (simp add: take_Suc_conv_app_nth)
    show ?thesis
    proof (cases "record_idx wk + 1 = length (stored_trace sr)")
      case fin: True
      with next_ok have "agrees lib w sr" by (simp add: agrees_def)
      moreover have "r = stored_value sr" using "1.prems"(1) walk res True fin by simp
      ultimately show ?thesis using at(1,2) nth_mem by blast
    next
      case False
      then show ?thesis using "1.IH" [OF act res] "1.prems"(1) walk res res_at True next_ok at(2) by simp
    qed
  qed
qed

lemma cache_walk_node:
  assumes "ti < length nodes" and "nodes ! ti = sr" and "ri < length (stored_trace sr)"
    and "\<forall>act. is_ok (answer_action lib w act)"
  shows "cache_walk lib w nodes \<lparr>trace_idx = ti, record_idx = ri\<rparr> =
    (if list_all (\<lambda>(act, res). answer_action lib w act = Ok res) (drop ri (stored_trace sr))
     then Ok (Some (stored_value sr)) else cache_walk lib w nodes \<lparr>trace_idx = Suc ti, record_idx = 0\<rparr>)"
  using assms(3)
proof (induction "length (stored_trace sr) - ri" arbitrary: ri)
  case 0
  then show ?case by simp
next
  case (Suc k)
  obtain act expected where e: "stored_trace sr ! ri = (act, expected)" by (cases "stored_trace sr ! ri")
  obtain res where res: "answer_action lib w act = Ok res"
    using assms(4) by (cases "answer_action lib w act") (auto dest: spec [of _ act])
  have dr: "drop ri (stored_trace sr) = (act, expected) # drop (Suc ri) (stored_trace sr)"
    using Suc.prems e by (simp add: Cons_nth_drop_Suc [symmetric])
  note walk = cache_walk_at [of "\<lparr>trace_idx = ti, record_idx = ri\<rparr>" nodes sr act expected lib w]
  show ?case
  proof (cases "Suc ri = length (stored_trace sr)")
    case True
    then show ?thesis using walk assms(1,2) Suc.prems e res dr by auto
  next
    case False
    then show ?thesis using walk assms(1,2) Suc.prems e res dr Suc.hyps by auto
  qed
qed

lemma cache_walk_find_from:
  assumes "\<forall>act. is_ok (answer_action lib w act)" and "\<forall>sr \<in> set nodes. stored_trace sr \<noteq> []"
  shows "cache_walk lib w nodes \<lparr>trace_idx = ti, record_idx = 0\<rparr> =
    Ok (map_option stored_value (find (agrees lib w) (drop ti nodes)))"
proof (induction "length nodes - ti" arbitrary: ti)
  case 0
  then show ?case by (simp add: cache_walk.simps next_action_def get_at_def)
next
  case (Suc k)
  then have ti: "ti < length nodes" by simp
  then have "stored_trace (nodes ! ti) \<noteq> []" using assms(2) by simp
  then show ?case
    using cache_walk_node [OF ti refl _ assms(1), of 0] Suc ti
    by (simp add: Cons_nth_drop_Suc [symmetric] agrees_def)
qed

section \<open>What a hit returns\<close>

text \<open>The trace an execution is stored under: its reads without the first one of the coinbase account.\<close>

definition other_reads :: "CachedExecutionResult \<Rightarrow> AccessRecord list" where
  "other_reads ex = snd (take_coinbase (cer_coinbase ex) (cer_recorded_trace ex))"

definition coinbase_read :: "CachedExecutionResult \<Rightarrow> AccountInfo option option" where
  "coinbase_read ex = fst (take_coinbase (cer_coinbase ex) (cer_recorded_trace ex))"

fun record_holds :: "'w evm_lib \<Rightarrow> 'w \<Rightarrow> AccessRecord \<Rightarrow> bool" where
  "record_holds lib w (AR_Account a res) \<longleftrightarrow> db_basic lib w a = Ok res"
| "record_holds lib w (AR_Storage a i v) \<longleftrightarrow> db_storage lib w a i = Ok v"

definition key_trace :: "AccessRecord list \<Rightarrow> (NextAction \<times> ActionResult) list" where
  "key_trace rs = (if rs = [] then [(NA_DoNothing, Res_DoNothing)] else map trace_entry rs)"

definition stored_from :: "CachedExecutionResult list \<Rightarrow> B256 \<times> address \<Rightarrow> TxCacheEntryResult StoredResult \<Rightarrow> bool" where
  "stored_from hist key sr \<longleftrightarrow> (\<exists>ex \<in> set hist.
     key = (cer_tx_hash ex, cer_coinbase ex) \<and>
     \<not> trace_is_not_cacheable (cer_used_state_trace ex) (cer_coinbase ex) \<and>
     stored_trace sr = key_trace (other_reads ex) \<and>
     stored_value sr = \<lparr>read_coinbase_account = coinbase_read ex, ter_result = cer_result ex,
       ter_used_state_trace = cer_used_state_trace ex\<rparr>)"

definition entry_inv :: "CachedExecutionResult list \<Rightarrow> B256 \<times> address \<Rightarrow> TxCacheEntry \<Rightarrow> bool" where
  "entry_inv hist key e \<longleftrightarrow>
     length (tce_store e) \<le> NUM_OF_CACHED_EXECUTIONS \<and> distinct (map stored_trace (tce_store e)) \<and>
     (\<forall>sr \<in> set (tce_store e). stored_from hist key sr)"

definition cache_inv :: "CachedExecutionResult list \<Rightarrow> TxExecutionCache \<Rightarrow> bool" where
  "cache_inv hist c \<longleftrightarrow> (\<forall>key. entry_inv hist key (get_tx_entry key c))"

lemma insert_result_eq:
  "insert_result tr r nodes =
    (if key_trace tr \<in> stored_trace ` set nodes then nodes
     else nodes @ [\<lparr>stored_trace = key_trace tr, stored_value = r\<rparr>])"
  by (auto simp: insert_result_def key_trace_def Let_def list_ex_iff intro: rev_image_eqI)

lemma get_tx_entry_modify:
  "get_tx_entry key (modify_tx_entry k f c) = (if key = k then f (get_tx_entry key c) else get_tx_entry key c)"
  by (simp add: get_tx_entry_def modify_tx_entry_def)

lemma get_tx_entry_counters [simp]:
  "get_tx_entry key (inc_cache_asks c) = get_tx_entry key c"
  "get_tx_entry key (inc_cache_hits c) = get_tx_entry key c"
  by (simp_all add: get_tx_entry_def inc_cache_asks_def inc_cache_hits_def)

lemma entry_inv_counters [simp]:
  "entry_inv hist key (inc_total_executions e) = entry_inv hist key e"
  "entry_inv hist key (inc_hits e) = entry_inv hist key e"
  by (simp_all add: entry_inv_def inc_total_executions_def inc_hits_def)

lemma stored_from_mono: "stored_from hist key sr \<Longrightarrow> set hist \<subseteq> set hist' \<Longrightarrow> stored_from hist' key sr"
  unfolding stored_from_def by blast

lemma stored_from_trace: "stored_from hist key sr \<Longrightarrow> stored_trace sr \<noteq> []"
  by (auto simp: stored_from_def key_trace_def split: if_splits)

lemma entry_inv_mono: "entry_inv hist key e \<Longrightarrow> set hist \<subseteq> set hist' \<Longrightarrow> entry_inv hist' key e"
  by (auto simp: entry_inv_def intro: stored_from_mono)

lemma entry_inv_store:
  assumes "entry_inv hist key e" and "key = (cer_tx_hash ex, cer_coinbase ex)"
  shows "entry_inv (hist @ [ex]) key (entry_store_result ex e)"
proof -
  have mono: "entry_inv (hist @ [ex]) key e" by (rule entry_inv_mono [OF assms(1)]) auto
  have new: "stored_from (hist @ [ex]) key \<lparr>stored_trace = key_trace (other_reads ex),
      stored_value = \<lparr>read_coinbase_account = coinbase_read ex, ter_result = cer_result ex,
        ter_used_state_trace = cer_used_state_trace ex\<rparr>\<rparr>"
    if "\<not> trace_is_not_cacheable (cer_used_state_trace ex) (cer_coinbase ex)"
    using that assms(2) by (auto simp: stored_from_def)
  show ?thesis
    using mono new
    by (auto simp: entry_store_result_def entry_inv_def has_storage_capacity_def insert_result_eq case_prod_beta
        other_reads_def coinbase_read_def)
qed

lemma cache_inv_store:
  assumes "cache_inv hist c"
  shows "cache_inv (hist @ [ex]) (cache_store_result ex c)"
proof -
  have "entry_inv (hist @ [ex]) key (get_tx_entry key c)" for key
    by (rule entry_inv_mono [of hist]) (use assms in \<open>auto simp: cache_inv_def simp del: split_paired_All\<close>)
  then show ?thesis
    using assms entry_inv_store [of hist] by (auto simp: cache_inv_def cache_store_result_def get_tx_entry_modify)
qed

text \<open>Asking the cache only changes counters.\<close>

lemma get_cached_result_entries:
  "tce_store (get_tx_entry key (snd (get_cached_result lib w h cb c))) = tce_store (get_tx_entry key c)"
proof -
  have [simp]: "tce_store (get_tx_entry key (modify_tx_entry k inc_hits d)) = tce_store (get_tx_entry key d)"
    "tce_store (get_tx_entry key (modify_tx_entry k inc_total_executions d)) = tce_store (get_tx_entry key d)" for k d
    by (simp_all add: get_tx_entry_modify inc_hits_def inc_total_executions_def)
  show ?thesis
    by (simp add: get_cached_result_def Let_def split: sum.split option.split)
qed

lemma cache_inv_ask: "cache_inv hist c \<Longrightarrow> cache_inv hist (snd (get_cached_result lib w h cb c))"
  by (simp add: cache_inv_def entry_inv_def get_cached_result_entries)


datatype 'w cache_event = Ev_Store CachedExecutionResult | Ev_Ask 'w B256 address

fun cache_step :: "'w evm_lib \<Rightarrow> TxExecutionCache \<Rightarrow> 'w cache_event \<Rightarrow> TxExecutionCache" where
  "cache_step lib c (Ev_Store ex) = cache_store_result ex c"
| "cache_step lib c (Ev_Ask w h cb) = snd (get_cached_result lib w h cb c)"

fun stores_of :: "'w cache_event list \<Rightarrow> CachedExecutionResult list" where
  "stores_of [] = []"
| "stores_of (Ev_Store ex # es) = ex # stores_of es"
| "stores_of (Ev_Ask w h cb # es) = stores_of es"

lemma stores_of_append [simp]: "stores_of (es @ es') = stores_of es @ stores_of es'"
  by (induction es rule: stores_of.induct) auto

lemma cache_inv_run: "cache_inv (stores_of es) (foldl (cache_step lib) (TxExecutionCache_new b) es)"
proof (induction es rule: rev_induct)
  case Nil
  then show ?case
    by (simp add: cache_inv_def TxExecutionCache_new_def get_tx_entry_def TxCacheEntry_default_def entry_inv_def
        NUM_OF_CACHED_EXECUTIONS_def)
next
  case (snoc e es)
  then show ?case by (cases e) (simp_all add: cache_inv_store cache_inv_ask)
qed

lemma answer_trace_entry:
  assumes "case trace_entry rec of (act, res) \<Rightarrow> answer_action lib w act = Ok res"
  shows "record_holds lib w rec"
  using assms by (cases rec) (auto simp: answer_action_def split: sum.splits)

lemma agrees_other_reads:
  assumes "agrees lib w sr" and "stored_trace sr = key_trace rs"
  shows "list_all (record_holds lib w) rs"
  using assms by (auto simp: agrees_def key_trace_def list_all_iff intro!: answer_trace_entry split: if_splits)

lemma checked_sub_uint: "checked_sub a b = Some c \<Longrightarrow> uint c = uint a - uint b"
  by (auto simp: checked_sub_def uint_sub_lem word_le_def split: if_splits)

lemma checked_add_uint: "checked_add a b = Some c \<Longrightarrow> uint c = uint a + uint b"
  by (auto simp: checked_add_def not_less no_olen_add uint_add_lem split: if_splits)

lemma checked_add_balance_uint:
  assumes "checked_add_balance b d = Some b'" and "\<bar>d\<bar> < 2 ^ 255"
  shows "uint b' = uint b + d"
proof -
  have abs: "uint (word_of_int \<bar>d\<bar> :: U256) = \<bar>d\<bar>"
    using assms(2) by (simp add: unsigned_of_int take_bit_int_eq_self)
  show ?thesis
  proof (cases "d < 0")
    case True
    then have "checked_sub b (word_of_int \<bar>d\<bar>) = Some b'"
      using assms(1) by (simp add: checked_add_balance_def Let_def split: if_splits)
    from checked_sub_uint [OF this] abs True show ?thesis by simp
  next
    case False
    then have "checked_add b (word_of_int \<bar>d\<bar>) = Some b'"
      using assms(1) by (simp add: checked_add_balance_def Let_def)
    from checked_add_uint [OF this] abs False show ?thesis by simp
  qed
qed

lemma checked_add_signed_eq: "checked_add_signed n d = Some n' \<Longrightarrow> n' = n + d"
  by (auto simp: checked_add_signed_def Let_def split: if_splits)

text \<open>The balance and the nonce of an account that may not exist.\<close>

definition balance_of :: "AccountInfo option \<Rightarrow> int" where
  "balance_of i = (case i of None \<Rightarrow> 0 | Some acc \<Rightarrow> uint (ai_balance acc))"

definition nonce_of :: "AccountInfo option \<Rightarrow> u64" where
  "nonce_of i = (case i of None \<Rightarrow> 0 | Some acc \<Rightarrow> ai_nonce acc)"

lemma coinbase_deltas_spec:
  assumes "coinbase_deltas used current = Ok (Some d)"
  shows "fst d = nonce_of current - nonce_of used \<and> snd d = balance_of current - balance_of used \<and>
    \<bar>snd d\<bar> < 2 ^ 255"
proof (cases "(used, current)" rule: coinbase_deltas.cases)
  case (2 c1 c2)
  have "\<bar>x - y\<bar> < k" if "0 \<le> x" "x < k" "0 \<le> y" "y < k" for x y k :: int using that by linarith
  from this [of "uint (ai_balance c2)" "2 ^ 255" "uint (ai_balance c1)"] 2 show ?thesis
    using assms by (auto simp: signed_uint_delta_def nonce_of_def balance_of_def split: if_splits)
qed (use assms in \<open>auto simp: nonce_of_def balance_of_def\<close>)

lemma shift_account_spec:
  assumes "coinbase_deltas used current = Ok (Some d)" and "shift_account d acc = Some acc'"
  shows "uint (ai_balance (ea_info acc')) - balance_of current = uint (ai_balance (ea_info acc)) - balance_of used"
    and "ai_nonce (ea_info acc') - nonce_of current = ai_nonce (ea_info acc) - nonce_of used"
proof -
  obtain n b where "checked_add_signed (ai_nonce (ea_info acc)) (fst d) = Some n"
    "checked_add_balance (ai_balance (ea_info acc)) (snd d) = Some b"
    "acc' = acc\<lparr>ea_info := (ea_info acc)\<lparr>ai_nonce := n, ai_balance := b\<rparr>\<rparr>"
    using assms(2) by (auto simp: shift_account_def split: option.splits)
  moreover from this(2) coinbase_deltas_spec [OF assms(1)]
  have "uint b = uint (ai_balance (ea_info acc)) + (balance_of current - balance_of used)"
    using checked_add_balance_uint by metis
  moreover from calculation(1) coinbase_deltas_spec [OF assms(1)]
  have "n = ai_nonce (ea_info acc) + (nonce_of current - nonce_of used)"
    using checked_add_signed_eq by metis
  ultimately show "uint (ai_balance (ea_info acc')) - balance_of current = uint (ai_balance (ea_info acc)) - balance_of used"
    "ai_nonce (ea_info acc') - nonce_of current = ai_nonce (ea_info acc) - nonce_of used"
    by simp_all
qed

text \<open>\<open>replays\<close>: what a cached execution becomes on a state whose coinbase account is \<open>current\<close>.\<close>

definition replays :: "CachedExecutionResult \<Rightarrow> AccountInfo option \<Rightarrow> ResultAndState \<Rightarrow> ResultAndState \<Rightarrow> bool" where
  "replays ex current r0 r \<longleftrightarrow> (\<exists>used acc acc'.
     coinbase_read ex = Some used \<and>
     ras_result r = ras_result r0 \<and> ras_state r0 (cer_coinbase ex) = Some acc \<and>
     ras_state r = (ras_state r0)(cer_coinbase ex \<mapsto> acc') \<and>
     uint (ai_balance (ea_info acc')) - balance_of current = uint (ai_balance (ea_info acc)) - balance_of used \<and>
     ai_nonce (ea_info acc') - nonce_of current = ai_nonce (ea_info acc) - nonce_of used)"

lemma replaysI:
  assumes "coinbase_read ex = Some used" and "coinbase_deltas used current = Ok (Some d)"
    and "ras_state r0 (cer_coinbase ex) = Some acc" and "shift_account d acc = Some acc'"
    and "r = r0\<lparr>ras_state := (ras_state r0)(cer_coinbase ex \<mapsto> acc')\<rparr>"
  shows "replays ex current r0 r"
  unfolding replays_def
  by (rule exI [of _ used], rule exI [of _ acc], rule exI [of _ acc'])
    (use assms shift_account_spec [OF assms(2,4)] in simp)

lemma get_cached_result_hitE:
  assumes "fst (get_cached_result lib w h cb c) = Ok cr" and "cr_result cr = Some res"
  obtains cached where
    "cache_walk lib w (tce_store (get_tx_entry (h, cb) c)) get_walker = Ok (Some cached)"
    "case ter_result cached of
       Err e \<Rightarrow> res = Err e
     | Ok r0 \<Rightarrow> \<exists>used current d acc acc'. read_coinbase_account cached = Some used \<and> db_basic lib w cb = Ok current \<and>
         coinbase_deltas used current = Ok (Some d) \<and> ras_state r0 cb = Some acc \<and> shift_account d acc = Some acc' \<and>
         res = Ok (r0\<lparr>ras_state := (ras_state r0)(cb \<mapsto> acc')\<rparr>)"
proof -
  have "tce_store (inc_total_executions e) = tce_store e" for e by (simp add: inc_total_executions_def)
  with assms that show ?thesis
    by (auto simp: get_cached_result_def Let_def new_cache_miss_def get_tx_entry_modify bind_eq_Some_conv
        split: if_splits sum.splits option.splits)
qed

text \<open>
  C15: The cache of executions replays only what the state allows.  After any stores and requests, a hit
  for a transaction and a coinbase comes from a stored execution of this transaction with this coinbase
  that did not read the coinbase balance or write its storage; every other read of that execution has the same
  result in the current state; an error is returned as it was, and a success with the same result
  and the same changes, except that the coinbase account is changed by the same amounts relative to its
  current balance and nonce.
\<close>

theorem cache_hits_replay:
  assumes "c = foldl (cache_step lib) (TxExecutionCache_new b) es"
    and "fst (get_cached_result lib w h cb c) = Ok cr" and "cr_result cr = Some res"
  shows "\<exists>ex \<in> set (stores_of es). cer_tx_hash ex = h \<and> cer_coinbase ex = cb \<and>
    \<not> trace_is_not_cacheable (cer_used_state_trace ex) cb \<and>
    list_all (record_holds lib w) (other_reads ex) \<and>
    (case cer_result ex of
       Err e \<Rightarrow> res = Err e
     | Ok r0 \<Rightarrow> \<exists>current r. db_basic lib w cb = Ok current \<and> res = Ok r \<and> replays ex current r0 r)"
proof -
  obtain cached where walk: "cache_walk lib w (tce_store (get_tx_entry (h, cb) c)) get_walker = Ok (Some cached)"
    and res: "case ter_result cached of
       Err e \<Rightarrow> res = Err e
     | Ok r0 \<Rightarrow> \<exists>used current d acc acc'. read_coinbase_account cached = Some used \<and> db_basic lib w cb = Ok current \<and>
         coinbase_deltas used current = Ok (Some d) \<and> ras_state r0 cb = Some acc \<and> shift_account d acc = Some acc' \<and>
         res = Ok (r0\<lparr>ras_state := (ras_state r0)(cb \<mapsto> acc')\<rparr>)"
    using get_cached_result_hitE [OF assms(2,3)] by blast
  from cache_walk_sound [OF walk] obtain sr where
    sr: "sr \<in> set (tce_store (get_tx_entry (h, cb) c))" "agrees lib w sr" "cached = stored_value sr"
    by (auto simp: get_walker_def)
  with cache_inv_run [of es lib b] assms(1) have "stored_from (stores_of es) (h, cb) sr"
    by (auto simp: cache_inv_def entry_inv_def)
  then obtain ex where ex: "ex \<in> set (stores_of es)" "cer_tx_hash ex = h" "cer_coinbase ex = cb"
    "\<not> trace_is_not_cacheable (cer_used_state_trace ex) cb" "stored_trace sr = key_trace (other_reads ex)"
    "read_coinbase_account cached = coinbase_read ex" "ter_result cached = cer_result ex"
    using sr(3) by (auto simp: stored_from_def)
  have "\<exists>current r. db_basic lib w cb = Ok current \<and> res = Ok r \<and> replays ex current r0 r" if "cer_result ex = Ok r0" for r0
    using res ex that by (auto intro!: replaysI)
  with ex res agrees_other_reads [OF sr(2) ex(5)] show ?thesis
    by (intro bexI [of _ ex]) (auto split: sum.splits)
qed

text \<open>
  The cache is bounded and the walker is an optimised search.  After any stores and requests an entry holds
  at most five results with distinct traces, and where the database can be read the walker returns the
  first stored result whose whole trace agrees with the state, or nothing if there is none.
\<close>

theorem cache_lookup_first_match:
  assumes "\<forall>act. is_ok (answer_action lib w act)"
    and "nodes = tce_store (get_tx_entry key (foldl (cache_step lib) (TxExecutionCache_new b) es))"
  shows "length nodes \<le> 5 \<and> distinct (map stored_trace nodes) \<and>
    cache_walk lib w nodes get_walker = Ok (map_option stored_value (find (agrees lib w) nodes))"
proof -
  from cache_inv_run [of es lib b] have "entry_inv (stores_of es) key (get_tx_entry key (foldl (cache_step lib) (TxExecutionCache_new b) es))"
    by (auto simp: cache_inv_def simp del: split_paired_All)
  moreover from this assms(2) have "\<forall>sr \<in> set nodes. stored_trace sr \<noteq> []"
    by (auto simp: entry_inv_def dest: stored_from_trace)
  ultimately show ?thesis
    using cache_walk_find_from [OF assms(1), of nodes 0] assms(2)
    by (simp add: get_walker_def entry_inv_def NUM_OF_CACHED_EXECUTIONS_def)
qed

section \<open>Witnesses\<close>

definition sample_coinbase :: "U256 \<Rightarrow> AccountInfo" where
  "sample_coinbase b = \<lparr>ai_balance = b, ai_nonce = 0, ai_code_hash = 0\<rparr>"

definition sample_execution :: CachedExecutionResult where
  "sample_execution =
     \<lparr>cer_tx_hash = 5, cer_coinbase = 99,
      cer_recorded_trace = [AR_Account 7 None, AR_Account 99 (Some (sample_coinbase 30))],
      cer_result = Ok \<lparr>ras_result = Success 21000 0 [], ras_state = [99 \<mapsto>
        \<lparr>ea_info = sample_coinbase 130, ea_storage = (\<lambda>_. None), ea_status = 0\<rparr>]\<rparr>,
      cer_used_state_trace = empty_trace\<rparr>"

definition sample_cache :: TxExecutionCache where
  "sample_cache = foldl (cache_step sample_lib) (TxExecutionCache_new True) [Ev_Store sample_execution]"

lemma sample_cache_entry:
  "tce_store (get_tx_entry (5, 99) sample_cache) =
    [\<lparr>stored_trace = [(CheckAccount 7, AccountValue None)], stored_value =
      \<lparr>read_coinbase_account = Some (Some (sample_coinbase 30)), ter_result = cer_result sample_execution,
       ter_used_state_trace = empty_trace\<rparr>\<rparr>]"
  "cache_enabled sample_cache" "tce_never_cache (get_tx_entry (5, 99) sample_cache) = False"
  by (simp_all add: sample_cache_def TxExecutionCache_new_def cache_store_result_def get_tx_entry_modify)
    (simp_all add: get_tx_entry_def TxCacheEntry_default_def entry_store_result_def has_storage_capacity_def
      NUM_OF_CACHED_EXECUTIONS_def sample_execution_def trace_is_not_cacheable_def empty_trace_def insert_result_def
      modify_tx_entry_def)

lemma sample_cache_hit:
  "\<exists>cr. fst (get_cached_result sample_lib [[99 \<mapsto> sample_coinbase 50]] 5 99 sample_cache) = Ok cr \<and>
    cr_result cr = Some (Ok \<lparr>ras_result = Success 21000 0 [], ras_state = [99 \<mapsto>
        \<lparr>ea_info = sample_coinbase 150, ea_storage = (\<lambda>_. None), ea_status = 0\<rparr>]\<rparr>)"
proof -
  have "tce_store (inc_total_executions e) = tce_store e" "tce_never_cache (inc_total_executions e) = tce_never_cache e" for e
    by (simp_all add: inc_total_executions_def)
  moreover have "cache_walk sample_lib w
      [\<lparr>stored_trace = [(CheckAccount 7, AccountValue None)], stored_value = r\<rparr>] get_walker = Ok (Some r)"
    if "sample_account w 7 = None" for w and r :: TxCacheEntryResult
    using that by (simp add: get_walker_def cache_walk.simps next_action_def get_at_def answer_action_def action_result_def Let_def)
  ultimately show ?thesis
    by (simp add: get_cached_result_def get_tx_entry_modify sample_cache_entry Let_def sample_account_def)
      (simp add: sample_account_def sample_execution_def sample_coinbase_def signed_uint_delta_def shift_account_def checked_add_signed_def
        checked_add_balance_def checked_add_def fun_upd_twist)
qed

theorem cache_hits_replay_witness:
  "\<exists>ex \<in> set (stores_of [Ev_Store sample_execution :: sample_world cache_event]).
     list_all (record_holds sample_lib [[99 \<mapsto> sample_coinbase 50]]) (other_reads ex) \<and>
     (\<exists>r0. cer_result ex = Ok r0 \<and> (\<exists>current r. replays ex current r0 r))"
proof -
  obtain cr res where "fst (get_cached_result sample_lib [[99 \<mapsto> sample_coinbase 50]] 5 99 sample_cache) = Ok cr"
    "cr_result cr = Some (Ok res)"
    using sample_cache_hit by blast
  from cache_hits_replay [OF sample_cache_def this] show ?thesis
    by (auto simp: sample_execution_def)
qed

theorem cache_lookup_first_match_witness:
  "cache_walk sample_lib [[7 \<mapsto> sample_coinbase 1]] (tce_store (get_tx_entry (5, 99) sample_cache)) get_walker = Ok None"
proof -
  have "is_ok (answer_action sample_lib w act)" for w act by (cases act) (simp_all add: answer_action_def)
  with cache_lookup_first_match [of sample_lib "[[7 \<mapsto> sample_coinbase 1]]" _ "(5, 99)" True "[Ev_Store sample_execution]", OF _ refl, folded sample_cache_def]
  show ?thesis
    unfolding sample_cache_entry
    by (simp add: agrees_def answer_action_def sample_account_def)
qed

end
