(* ===== verification/Payout_Tx.thy ===== *)
theory Payout_Tx
  imports Tx_Sim_Cache
begin

text \<open>
  Payout transactions (\<^verbatim>\<open>rbuilder/src/building/payout_tx.rs\<close> and \<^verbatim>\<open>utils/tx_signer.rs\<close>): creating and
  signing them, trying one with a given gas limit, and the estimation of the gas limit a recipient needs
  with its binary search.  The search need not end when the two limits are so large that their sum
  overflows; a search that does not return is the value \<open>None\<close>.
\<close>

section \<open>Creating a payout\<close>

definition BASE_TX_GAS :: u64 where
  "BASE_TX_GAS = 21000"

definition get_percent :: "U256 \<Rightarrow> usize \<Rightarrow> U256" where
  "get_percent v percent = (v * ucast percent) div 100"

definition sign_tx :: "'w evm_lib \<Rightarrow> Signer \<Rightarrow> TxEip1559 \<Rightarrow> (Recovered, secp_error) result" where
  "sign_tx lib signer tx =
     (case sign_message lib (sg_secret signer) (signature_hash lib tx) of
        Err e \<Rightarrow> Err e
      | Ok sig \<Rightarrow> Ok
          \<lparr>rec_inner = \<lparr>ts_hash = signed_tx_hash lib tx sig, ts_nonce = p_nonce tx, ts_gas_limit = p_gas_limit tx,
             ts_max_fee_per_gas = p_max_fee_per_gas tx, ts_to = Some (p_to tx), ts_value = p_value tx,
             ts_length = signed_tx_length lib tx sig, ts_blob_versioned_hashes = None\<rparr>,
           rec_signer = sg_address signer\<rparr>)"

definition create_payout_tx ::
  "'w evm_lib \<Rightarrow> u64 \<Rightarrow> u64 \<Rightarrow> Signer \<Rightarrow> u64 \<Rightarrow> address \<Rightarrow> u64 \<Rightarrow> U256 \<Rightarrow> (Recovered, secp_error) result" where
  "create_payout_tx lib chain_id basefee signer nonce to gas_limit value =
     sign_tx lib signer
       \<lparr>p_chain_id = chain_id, p_nonce = nonce, p_gas_limit = gas_limit, p_max_fee_per_gas = ucast basefee,
        p_max_priority_fee_per_gas = 0, p_to = to, p_value = value\<rparr>"

datatype PayoutTxErr =
    PTE_Reth ProviderError
  | PTE_SignError secp_error
  | PTE_EvmError EVMError

datatype EstimatePayoutGasErr =
    EPE_Reth ProviderError
  | EPE_PayoutTxErr PayoutTxErr
  | EPE_FailedToEstimate

section \<open>Trying a gas limit\<close>

text \<open>The value of the test transaction is 10 to the 18th.\<close>

definition insert_test_payout_tx ::
  "'w evm_lib \<Rightarrow> BlockBuildingContext \<Rightarrow> 'w \<Rightarrow> address \<Rightarrow> u64 \<Rightarrow> (u64 option, PayoutTxErr) result" where
  "insert_test_payout_tx lib ctx w to gas_limit =
     (case state_nonce lib (sg_address (ctx_builder_signer ctx)) w of
        Err e \<Rightarrow> Err (PTE_Reth e)
      | Ok nonce \<Rightarrow>
          (let tx_value = (10 ^ 18 :: u128)
           in case create_payout_tx lib (ctx_chain_id ctx) (ctx_basefee ctx) (ctx_builder_signer ctx) nonce to gas_limit
                    (ucast tx_value) of
                Err e \<Rightarrow> Err (PTE_SignError e)
              | Ok tx \<Rightarrow>
                  (let gas_fee = (ucast (ctx_basefee ctx) * ucast gas_limit :: u128)
                   in case db_increment_balance lib w (sg_address (ctx_builder_signer ctx)) ((tx_value + gas_fee) * 2) of
                        Err e \<Rightarrow> Err (PTE_Reth e)
                      | Ok w' \<Rightarrow>
                          (case run_outcome (evm_transact lib w' tx) of
                             Err e \<Rightarrow> Err (PTE_EvmError e)
                           | Ok res \<Rightarrow>
                               (case ras_result res of
                                  Success gas_used gas_refunded _ \<Rightarrow> Ok (Some (gas_used + gas_refunded))
                                | _ \<Rightarrow> Ok None)))))"

definition max_tx_gas_limit :: "BlockBuildingContext \<Rightarrow> u64" where
  "max_tx_gas_limit ctx = (case ctx_tx_gas_limit_cap ctx of Some c \<Rightarrow> c | None \<Rightarrow> ctx_gas_limit ctx)"

definition estimate_payout_tx_space :: "'w evm_lib \<Rightarrow> BlockBuildingContext \<Rightarrow> (BlockSpace, secp_error) result" where
  "estimate_payout_tx_space lib ctx =
     (case create_payout_tx lib (ctx_chain_id ctx) (ctx_basefee ctx) (ctx_builder_signer ctx) 0 0 (max_tx_gas_limit ctx) 0 of
        Err e \<Rightarrow> Err e
      | Ok tx \<Rightarrow> Ok (BlockSpace_new BASE_TX_GAS (ts_length (rec_inner tx) + 32 * 4) 0))"

section \<open>The binary search\<close>

partial_function (option) gas_search ::
  "(u64 \<Rightarrow> (u64 option, PayoutTxErr) result) \<Rightarrow> u64 \<Rightarrow> u64 \<Rightarrow> (u64, EstimatePayoutGasErr) result option" where
  "gas_search test left right =
     (let mid = (left + right) div 2
      in if mid = left \<or> mid = right then Some (Ok right)
         else (case test mid of
                 Err e \<Rightarrow> Some (Err (EPE_PayoutTxErr e))
               | Ok res \<Rightarrow> if res \<noteq> None then gas_search test left mid else gas_search test mid right))"

declare gas_search.simps [code]

definition estimate_payout_gas_limit ::
  "'w evm_lib \<Rightarrow> address \<Rightarrow> BlockBuildingContext \<Rightarrow> 'w \<Rightarrow> BlockSpace \<Rightarrow> (BlockSpace, EstimatePayoutGasErr) result option" where
  "estimate_payout_gas_limit lib to ctx w space_used =
     (case estimate_payout_tx_space lib ctx of
        Err _ \<Rightarrow> Some (Err EPE_FailedToEstimate)
      | Ok default_space \<Rightarrow>
          (case state_code_hash lib to w of
             Err e \<Rightarrow> Some (Err (EPE_Reth e))
           | Ok code_hash \<Rightarrow>
               if code_hash = KECCAK_EMPTY lib then Some (Ok default_space)
               else
                 (let gas_left = (case checked_sub (max_tx_gas_limit ctx) (gas space_used) of None \<Rightarrow> 0 | Some g \<Rightarrow> g);
                      test = insert_test_payout_tx lib ctx w to
                  in case test gas_left of
                       Err e \<Rightarrow> Some (Err (EPE_PayoutTxErr e))
                     | Ok None \<Rightarrow> Some (Err EPE_FailedToEstimate)
                     | Ok (Some estimation) \<Rightarrow>
                         (case test estimation of
                            Err e \<Rightarrow> Some (Err (EPE_PayoutTxErr e))
                          | Ok res \<Rightarrow>
                              if res \<noteq> None then Some (Ok (BlockSpace_new estimation (rlp_length default_space) 0))
                              else (case gas_search test estimation gas_left of
                                      None \<Rightarrow> None
                                    | Some (Err e) \<Rightarrow> Some (Err e)
                                    | Some (Ok g) \<Rightarrow> Some (Ok (BlockSpace_new g (rlp_length default_space) 0)))))))"

section \<open>The estimate is enough and not more than needed\<close>

lemma unat_mid:
  fixes l r :: u64
  assumes "unat l + unat r < 2 ^ 64"
  shows "unat ((l + r) div 2) = (unat l + unat r) div 2"
  using assms by (simp add: unat_div unat_add_noof)

lemma gas_search_minimal:
  assumes "test left = Ok None" and "test right = Ok (Some e)" and "left < right" and "unat right < 2 ^ 63"
  shows "\<exists>res. gas_search test left right = Some res \<and>
    (\<forall>g. res = Ok g \<longrightarrow> (\<exists>e. test g = Ok (Some e)) \<and> test (g - 1) = Ok None \<and> g \<le> right)"
  using assms
proof (induction "unat right - unat left" arbitrary: left right e rule: less_induct)
  case less
  define mid where "mid = (left + right) div 2"
  have lr: "unat left < unat right" using less.prems(3) by (simp add: word_less_nat_alt)
  then have mid: "unat mid = (unat left + unat right) div 2"
    using less.prems(4) by (simp add: mid_def unat_mid)
  then have not_right: "mid \<noteq> right" using lr by auto
  show ?case
  proof (cases "mid = left")
    case True
    then have "unat right = unat left + 1" using mid lr by presburger
    then have "unat left = unat (right - 1)"
      using unat_sub_le [of 1 right] by (simp add: word_le_nat_alt)
    then have "right - 1 = left" by (simp add: word_unat_eq_iff)
    then show ?thesis
      using True less.prems(1,2) by (simp add: gas_search.simps mid_def [symmetric] Let_def)
  next
    case False
    then have between: "left < mid" "mid < right"
      using mid lr by (auto simp: word_less_nat_alt word_unat_eq_iff)
    have step: "gas_search test left right =
        (case test mid of
           Err e \<Rightarrow> Some (Err (EPE_PayoutTxErr e))
         | Ok res \<Rightarrow> if res \<noteq> None then gas_search test left mid else gas_search test mid right)"
      using False not_right by (subst gas_search.simps) (simp add: mid_def [symmetric] Let_def)
    show ?thesis
    proof (cases "test mid")
      case (Inl e)
      then show ?thesis by (simp add: step)
    next
      case (Inr res)
      show ?thesis
      proof (cases res)
        case None
        then show ?thesis
          using less.hyps [of right mid e] less.prems Inr between step by (simp add: word_less_nat_alt diff_less_mono2)
      next
        case (Some e')
        have small: "unat mid < 2 ^ 63" using between(2) less.prems(4) by (simp add: word_less_nat_alt)
        have "unat mid - unat left < unat right - unat left"
          using between by (simp add: word_less_nat_alt diff_less_mono)
        from less.hyps [OF this less.prems(1) _ between(1) small, of e'] Inr Some between(2) step
        show ?thesis by force
      qed
    qed
  qed
qed

text \<open>
  C16: The gas limit of a payout is enough and not larger than needed.  For gas limits below \<open>2 ^ 63\<close>, and if a
  successful transfer never takes more than its gas limit, the estimation returns; when it gives a limit
  for a recipient with code, a payout with this limit succeeds, the limit is not more than the gas that is
  left, and either it is what the first try took or a payout with one unit less fails.  A recipient
  without code gets the cost of a plain transfer.
\<close>

theorem payout_gas_limit_minimal:
  assumes "unat (max_tx_gas_limit ctx) < 2 ^ 63"
    and "\<forall>g e. insert_test_payout_tx lib ctx w to g = Ok (Some e) \<longrightarrow> e \<le> g"
  shows "\<exists>res. estimate_payout_gas_limit lib to ctx w used = Some res \<and>
    (\<forall>space. res = Ok space \<longrightarrow>
       (if state_code_hash lib to w = Ok (KECCAK_EMPTY lib) then gas space = BASE_TX_GAS
        else (\<exists>e. insert_test_payout_tx lib ctx w to (gas space) = Ok (Some e)) \<and>
          gas space \<le> saturating_sub (max_tx_gas_limit ctx) (gas used) \<and>
          (insert_test_payout_tx lib ctx w to (saturating_sub (max_tx_gas_limit ctx) (gas used)) = Ok (Some (gas space)) \<or>
           insert_test_payout_tx lib ctx w to (gas space - 1) = Ok None)))"
proof -
  define test where "test = insert_test_payout_tx lib ctx w to"
  define gl where "gl = saturating_sub (max_tx_gas_limit ctx) (gas used)"
  have gl: "(case checked_sub (max_tx_gas_limit ctx) (gas used) of None \<Rightarrow> 0 | Some g \<Rightarrow> g) = gl"
    by (simp add: gl_def checked_sub_def saturating_sub_def)
  have small: "unat gl < 2 ^ 63" using assms(1) by (simp add: gl_def unat_saturating_sub)
  have search: "\<exists>res. gas_search test e gl = Some res \<and>
      (\<forall>g. res = Ok g \<longrightarrow> (\<exists>e. test g = Ok (Some e)) \<and> test (g - 1) = Ok None \<and> g \<le> gl)"
    if "test gl = Ok (Some e)" "test e = Ok None" for e
  proof -
    have "e \<le> gl" "e \<noteq> gl" using that assms(2) by (auto simp: test_def)
    then show ?thesis using gas_search_minimal [OF that(2,1) _ small] by simp
  qed
  have space: "estimate_payout_tx_space lib ctx = Ok sp \<Longrightarrow> gas sp = BASE_TX_GAS" for sp
    by (auto simp: estimate_payout_tx_space_def split: sum.splits)
  have bound: "test gl = Ok (Some e) \<Longrightarrow> e \<le> gl" for e using assms(2) by (simp add: test_def)
  show ?thesis
    unfolding estimate_payout_gas_limit_def gl test_def [symmetric] gl_def [symmetric] Let_def
    using search space bound by (auto split: sum.split option.split)
qed

definition sample_ctx :: BlockBuildingContext where
  "sample_ctx =
     \<lparr>ctx_beneficiary = 99, ctx_basefee = 1, ctx_gas_limit = 30000000, ctx_tx_gas_limit_cap = None,
      ctx_timestamp = 1000, ctx_block_number = 100, ctx_suggested_fee_recipient = 55, ctx_chain_id = 1,
      ctx_max_blob_gas_per_block = 786432, ctx_builder_signer = \<lparr>sg_address = 99, sg_secret = 1\<rparr>,
      ctx_blocklist = [13], ctx_mev_blocker_price = 0, ctx_gas_available = 30000000\<rparr>"

lemma sample_ctx_simps [simp]:
  "ctx_beneficiary sample_ctx = 99" "ctx_basefee sample_ctx = 1" "ctx_gas_limit sample_ctx = 30000000"
  "ctx_tx_gas_limit_cap sample_ctx = None" "ctx_timestamp sample_ctx = 1000" "ctx_block_number sample_ctx = 100"
  "ctx_suggested_fee_recipient sample_ctx = 55" "ctx_max_blob_gas_per_block sample_ctx = 786432"
  "ctx_builder_signer sample_ctx = \<lparr>sg_address = 99, sg_secret = 1\<rparr>" "ctx_blocklist sample_ctx = [13]"
  "ctx_mev_blocker_price sample_ctx = 0" "ctx_gas_available sample_ctx = 30000000"
  by (simp_all add: sample_ctx_def)

text \<open>Here a contract at address 7 needs 30000 gas, of which 5000 are not reported as used.\<close>

definition contract_transact :: "sample_world \<Rightarrow> Recovered \<Rightarrow> evm_run" where
  "contract_transact w tx = (sample_transact w tx)\<lparr>run_outcome :=
     Ok \<lparr>ras_result = (if ts_gas_limit (rec_inner tx) < 30000 then Halt (ts_gas_limit (rec_inner tx)) else Success 25000 0 []),
         ras_state = (\<lambda>_. None)\<rparr>\<rparr>"

theorem payout_gas_limit_minimal_witness:
  "\<exists>res. estimate_payout_gas_limit (sample_lib\<lparr>evm_transact := contract_transact\<rparr>) 7 sample_ctx
      [[7 \<mapsto> sample_coinbase 0\<lparr>ai_code_hash := 4\<rparr>]] BlockSpace_ZERO = Some res"
proof -
  let ?lib = "sample_lib\<lparr>evm_transact := contract_transact\<rparr>"
  have test: "insert_test_payout_tx ?lib sample_ctx w to g = Ok (if g < 30000 then None else Some 25000)" for w to g
    by (simp add: insert_test_payout_tx_def state_nonce_def create_payout_tx_def sign_tx_def contract_transact_def Let_def)
  have "25000 \<le> g" if "\<not> g < 30000" for g :: u64
  proof -
    have "(25000 :: u64) \<le> 30000" by simp
    then show ?thesis using that by (meson le_less_trans not_less)
  qed
  then have law: "\<forall>g e. insert_test_payout_tx ?lib sample_ctx w to g = Ok (Some e) \<longrightarrow> e \<le> g" for w to
    by (auto simp: test)
  have "unat (max_tx_gas_limit sample_ctx) < 2 ^ 63" by (simp add: max_tx_gas_limit_def)
  from payout_gas_limit_minimal [OF this law] show ?thesis by blast
qed

end
