(* ===== verification/Order_Commit.thy ===== *)
theory Order_Commit
  imports Payout_Tx
begin

text \<open>
  The execution of orders on a fork of the block (\<^verbatim>\<open>rbuilder/src/building/order_commit.rs\<close> and
  \<^verbatim>\<open>tracers.rs\<close>): transactions, bundles with their refunds, mev-share bundles with nested bundles and
  kickbacks, and the rollbacks between them.  A fork is a record that every operation returns updated; a
  \<^verbatim>\<open>Result<Result<T, E>, CriticalCommitOrderError>\<close> is a nested sum.  The tracer for partial blocks is
  the null one.  Hash maps that are iterated are association lists, and \<open>hash_orders\<close> gives the
  order of each iteration.
\<close>

section \<open>Tracers\<close>

datatype SimulationTracer =
    NoTracer
  | GasUsedSimulationTracer u64
  | AccumulatorSimulationTracer u64 UsedStateTrace

fun add_gas_used :: "u64 \<Rightarrow> SimulationTracer \<Rightarrow> SimulationTracer" where
  "add_gas_used g NoTracer = NoTracer"
| "add_gas_used g (GasUsedSimulationTracer used) = GasUsedSimulationTracer (used + g)"
| "add_gas_used g (AccumulatorSimulationTracer used t) = AccumulatorSimulationTracer (used + g) t"

fun should_collect_used_state_trace :: "SimulationTracer \<Rightarrow> bool" where
  "should_collect_used_state_trace (AccumulatorSimulationTracer _ _) = True"
| "should_collect_used_state_trace _ = False"

fun add_used_state_trace :: "UsedStateTrace \<Rightarrow> SimulationTracer \<Rightarrow> SimulationTracer" where
  "add_used_state_trace t (AccumulatorSimulationTracer used t0) = AccumulatorSimulationTracer used (append_trace t0 t)"
| "add_used_state_trace t tr = tr"

fun get_used_state_tracer :: "SimulationTracer \<Rightarrow> UsedStateTrace option" where
  "get_used_state_tracer (AccumulatorSimulationTracer _ t) = Some t"
| "get_used_state_tracer _ = None"

section \<open>Results\<close>

text \<open>The type of a transaction in its receipt is that of the transaction and is left out.\<close>

record Receipt =
  rcp_success :: bool
  rcp_cumulative_gas_used :: u64
  rcp_logs :: "Log list"

record TransactionExecutionInfo =
  tei_tx :: TransactionSignedEcRecoveredWithBlobs
  tei_receipt :: Receipt
  tei_space_used :: BlockSpace
  tei_coinbase_profit :: I256

record TransactionOk =
  to_exec_result :: EvmExecutionResult
  to_cumulative_space_used :: BlockSpace
  to_tx_info :: TransactionExecutionInfo
  to_nonce_updated :: "address \<times> u64"

definition to_space_used :: "TransactionOk \<Rightarrow> BlockSpace" where
  "to_space_used ok = tei_space_used (to_tx_info ok)"

record DelayedKickback =
  dk_recipient :: address
  dk_payout_value :: U256
  dk_payout_tx_fee :: U256
  dk_payout_tx_space_needed :: BlockSpace
  dk_should_pay_in_block :: bool

record BundleOk =
  bo_space_used :: BlockSpace
  bo_cumulative_space_used :: BlockSpace
  bo_tx_infos :: "TransactionExecutionInfo list"
  bo_nonces_updated :: "(address \<times> u64) list"
  bo_paid_kickbacks :: "(address \<times> U256) list"
  bo_delayed_kickback :: "DelayedKickback option"
  bo_original_order_ids :: "OrderId list"

definition bo_space_state :: "BundleOk \<Rightarrow> BlockSpace \<Rightarrow> BlockBuildingSpaceState" where
  "bo_space_state ok reserved = BlockBuildingSpaceState_new (bo_cumulative_space_used ok) reserved"

datatype BundleErr =
    BE_InvalidTransaction B256 TransactionErr
  | BE_TransactionReverted B256
  | BE_EmptyBundle
  | BE_TargetBlockIncorrect u64 u64 u64
  | BE_NotEnoughRefundForGas address U256 U256
  | BE_FailedToCommitPayoutTx address u64 U256 "TransactionErr option"
  | BE_EstimatePayoutGas EstimatePayoutGasErr
  | BE_PayoutTx secp_error
  | BE_IncorrectRefundableElement usize
  | BE_IncorrectTimestamp u64 u64 u64

record OrderOk =
  oo_coinbase_profit :: U256
  oo_space_used :: BlockSpace
  oo_cumulative_space_used :: BlockSpace
  oo_tx_infos :: "TransactionExecutionInfo list"
  oo_original_order_ids :: "OrderId list"
  oo_nonces_updated :: "(address \<times> u64) list"
  oo_paid_kickbacks :: "(address \<times> U256) list"
  oo_delayed_kickback :: "DelayedKickback option"
  oo_used_state_trace :: "UsedStateTrace option"

datatype OrderErr =
    OE_Transaction TransactionErr
  | OE_Bundle BundleErr
  | OE_NegativeProfit U256

record ReservedPayout =
  rp_space_limit :: BlockSpace
  rp_tx_value :: U256
  rp_total_refundable_value :: U256
  rp_base_fee :: U256

record ShareBundleCommitResult =
  sbr_bundle_ok :: BundleOk
  coinbase_diff_before_payouts :: U256
  total_payouts_promissed :: U256
  payouts_promissed :: "(address \<times> ReservedPayout) list"

section \<open>The fork\<close>

record 'w PartialBlockFork =
  rollbacks :: nat
  pbf_state :: 'w
  pbf_tracer :: "SimulationTracer option"
  tmp_used_state_tracer :: UsedStateTrace
  pbf_tx_cache :: TxExecutionCache

type_synonym ('a, 'w) commit = "'w PartialBlockFork \<Rightarrow> ('a, commit_failure) result \<times> 'w PartialBlockFork"

definition PartialBlockFork_new :: "'w \<Rightarrow> TxExecutionCache \<Rightarrow> 'w PartialBlockFork" where
  "PartialBlockFork_new w cache =
     \<lparr>rollbacks = 0, pbf_state = w, pbf_tracer = None, tmp_used_state_tracer = empty_trace, pbf_tx_cache = cache\<rparr>"

definition with_tracer :: "SimulationTracer \<Rightarrow> 'w PartialBlockFork \<Rightarrow> 'w PartialBlockFork" where
  "with_tracer t s = s\<lparr>pbf_tracer := Some t\<rparr>"

definition rollback :: "'w evm_lib \<Rightarrow> nat \<Rightarrow> (unit, 'w) commit" where
  "rollback lib point s =
     (if rollbacks s < point then (Err (Panicked ''incorrect rollback''), s)
      else (Ok (), s\<lparr>pbf_state := db_revert lib (pbf_state s) (rollbacks s - point), rollbacks := point\<rparr>))"

text \<open>A read of the state; an error of the provider is critical.\<close>

definition read_state :: "('w \<Rightarrow> ('a, ProviderError) result) \<Rightarrow> ('a, 'w) commit" where
  "read_state f s = (case f (pbf_state s) of Err e \<Rightarrow> (Err (Critical (CE_Reth e)), s) | Ok a \<Rightarrow> (Ok a, s))"

definition coinbase_balance :: "'w evm_lib \<Rightarrow> BlockBuildingContext \<Rightarrow> (U256, 'w) commit" where
  "coinbase_balance lib ctx = read_state (state_balance lib (ctx_beneficiary ctx))"

definition saturating_coinbase_delta ::
  "'w evm_lib \<Rightarrow> BlockBuildingContext \<Rightarrow> U256 \<Rightarrow> (U256, 'w) commit" where
  "saturating_coinbase_delta lib ctx initial_balance =
     try_bind (coinbase_balance lib ctx) (\<lambda>balance. return_ok (saturating_sub balance initial_balance))"

definition execute_with_rollback ::
  "'w evm_lib \<Rightarrow> (('a, 'e) result, 'w) commit \<Rightarrow> (('a, 'e) result, 'w) commit" where
  "execute_with_rollback lib f s =
     (let rollback_point = rollbacks s
      in try_bind f (\<lambda>res.
           if \<not> is_ok res then try_bind (rollback lib rollback_point) (\<lambda>_. return_ok res) else return_ok res) s)"

section \<open>Transactions\<close>

definition MAX_RLP_BLOCK_SIZE :: usize where
  "MAX_RLP_BLOCK_SIZE = 8388608"

definition can_fit_tx ::
  "BlockBuildingContext \<Rightarrow> BlockSpace \<Rightarrow> u64 \<Rightarrow> BlockBuildingSpaceState \<Rightarrow> (unit, TransactionErr) result" where
  "can_fit_tx ctx space_needed blob_gas_needed space_state =
     (let consumed = total_consumed_space space_state
      in if rlp_length space_needed + rlp_length consumed > MAX_RLP_BLOCK_SIZE then Err TE_BlockSpaceLeft
         else if gas space_needed + gas consumed > ctx_gas_available ctx then Err TE_GasLeft
         else if blob_gas_needed + ss_blob_gas_used space_state > ctx_max_blob_gas_per_block ctx then Err TE_BlobGasLeft
         else Ok ())"

definition I256_try_from :: "U256 \<Rightarrow> (I256, commit_failure) result" where
  "I256_try_from v = (if uint v < 2 ^ 255 then Ok (uint v) else Err (Critical CE_BigIntConversionError))"

definition coinbase_balance_I256 :: "'w evm_lib \<Rightarrow> BlockBuildingContext \<Rightarrow> (I256, 'w) commit" where
  "coinbase_balance_I256 lib ctx =
     try_bind (coinbase_balance lib ctx) (\<lambda>balance s. (I256_try_from balance, s))"

definition execute_evm ::
  "address list \<Rightarrow> evm_run \<Rightarrow> ((ResultAndState, TransactionErr) result, commit_failure) result" where
  "execute_evm blocklist run =
     (case run_outcome run of
        Err (EVM_Transaction tx_err) \<Rightarrow> Ok (Err (TE_InvalidTransaction tx_err))
      | Err e \<Rightarrow> Err (Critical (CE_EVM e))
      | Ok res \<Rightarrow>
          if list_ex (\<lambda>a. a \<in> set blocklist) (run_access_list run) then Ok (Err TE_Blocklist) else Ok (Ok res))"

definition is_recording_used_state :: "'w PartialBlockFork \<Rightarrow> bool" where
  "is_recording_used_state s =
     (case pbf_tracer s of None \<Rightarrow> False | Some t \<Rightarrow> should_collect_used_state_trace t)"

text \<open>The result of the transaction from the cache or from the EVM, with the trace to show to the tracer.\<close>

definition run_tx ::
  "'w evm_lib \<Rightarrow> BlockBuildingContext \<Rightarrow> TransactionSignedEcRecoveredWithBlobs
     \<Rightarrow> ((ResultAndState, TransactionErr) result \<times> UsedStateTrace option, 'w) commit" where
  "run_tx lib ctx tx s =
     (case get_cached_result lib (pbf_state s) (tx_hash tx) (ctx_beneficiary ctx) (pbf_tx_cache s) of
        (Err e, cache) \<Rightarrow> (Err e, s\<lparr>pbf_tx_cache := cache\<rparr>)
      | (Ok caching_result, cache) \<Rightarrow>
          (let s = s\<lparr>pbf_tx_cache := cache\<rparr>
           in case cr_result caching_result of
                Some res \<Rightarrow> (Ok (res, Some (cr_used_state_trace caching_result)), s)
              | None \<Rightarrow>
                  (let should_cache = cr_should_cache caching_result;
                       run = evm_transact lib (pbf_state s) (tx_inner tx);
                       s = (if is_recording_used_state s \<or> should_cache
                            then s\<lparr>tmp_used_state_tracer := run_used_state run\<rparr> else s);
                       db = foldl (edb_request lib (pbf_state s)) (EVMRecordingDatabase_new should_cache) (run_reads run)
                   in case execute_evm (ctx_blocklist ctx) run of
                        Err e \<Rightarrow> (Err e, s)
                      | Ok res \<Rightarrow>
                          (let s = (if should_cache then s\<lparr>pbf_tx_cache := cache_store_result
                                      \<lparr>cer_tx_hash = tx_hash tx, cer_coinbase = ctx_beneficiary ctx,
                                       cer_recorded_trace = recorded_trace db, cer_result = res,
                                       cer_used_state_trace = tmp_used_state_tracer s\<rparr> (pbf_tx_cache s)\<rparr> else s)
                           in (Ok (res, if is_recording_used_state s then Some (tmp_used_state_tracer s) else None), s)))))"

text \<open>The tracer is told of the gas and of the used state; then the changes are committed.\<close>

definition trace_tx :: "u64 \<Rightarrow> UsedStateTrace option \<Rightarrow> 'w PartialBlockFork \<Rightarrow> 'w PartialBlockFork" where
  "trace_tx gas_used used_state_trace s =
     (case pbf_tracer s of
        None \<Rightarrow> s
      | Some tracer \<Rightarrow>
          (let tracer = add_gas_used gas_used tracer
           in s\<lparr>pbf_tracer := Some (case used_state_trace of
                  Some t \<Rightarrow> if is_recording_used_state s then add_used_state_trace t tracer else tracer
                | None \<Rightarrow> tracer)\<rparr>))"

definition commit_state :: "'w evm_lib \<Rightarrow> EvmState \<Rightarrow> 'w PartialBlockFork \<Rightarrow> 'w PartialBlockFork" where
  "commit_state lib changes s =
     s\<lparr>pbf_state := db_commit lib (pbf_state s) changes, rollbacks := rollbacks s + 1\<rparr>"

definition commit_tx_result ::
  "'w evm_lib \<Rightarrow> BlockBuildingContext \<Rightarrow> TransactionSignedEcRecoveredWithBlobs \<Rightarrow> BlockBuildingSpaceState \<Rightarrow> I256
     \<Rightarrow> ResultAndState \<Rightarrow> UsedStateTrace option \<Rightarrow> ((TransactionOk, TransactionErr) result, 'w) commit" where
  "commit_tx_result lib ctx tx space_state balance_before res used_state_trace s =
     (let s = commit_state lib (ras_state res) (trace_tx (er_gas_used (ras_result res)) used_state_trace s);
          space_used = BlockSpace_new (er_gas_used (ras_result res)) (length_eip7934 tx) (blobs_gas_used tx);
          space_state = use_space space_used space_state;
          receipt = \<lparr>rcp_success = er_is_success (ras_result res), rcp_cumulative_gas_used = ss_gas_used space_state,
                     rcp_logs = er_logs (ras_result res)\<rparr>
      in try_bind (coinbase_balance_I256 lib ctx) (\<lambda>balance_after. return_ok (Ok
           \<lparr>to_exec_result = ras_result res, to_cumulative_space_used = ss_space_used space_state,
            to_tx_info = \<lparr>tei_tx = tx, tei_receipt = receipt, tei_space_used = space_used,
                          tei_coinbase_profit = balance_after - balance_before\<rparr>,
            to_nonce_updated = (tx_signer tx, tx_nonce tx + 1)\<rparr>)) s)"

definition is_blocked :: "BlockBuildingContext \<Rightarrow> TransactionSignedEcRecoveredWithBlobs \<Rightarrow> bool" where
  "is_blocked ctx tx \<longleftrightarrow> tx_signer tx \<in> set (ctx_blocklist ctx) \<or>
     (case tx_to tx of None \<Rightarrow> False | Some to \<Rightarrow> to \<in> set (ctx_blocklist ctx))"

definition commit_tx_inner ::
  "'w evm_lib \<Rightarrow> BlockBuildingContext \<Rightarrow> TransactionSignedEcRecoveredWithBlobs \<Rightarrow> BlockBuildingSpaceState
     \<Rightarrow> ((TransactionOk, TransactionErr) result, 'w) commit" where
  "commit_tx_inner lib ctx tx space_state =
     (case can_fit_tx ctx (tx_space_needed tx) (blobs_gas_used tx) space_state of
        Err e \<Rightarrow> return_ok (Err e)
      | Ok _ \<Rightarrow>
          try_bind (coinbase_balance_I256 lib ctx) (\<lambda>balance_before.
            if is_blocked ctx tx then return_ok (Err TE_Blocklist)
            else try_bind (run_tx lib ctx tx) (\<lambda>(res, used_state_trace).
              case res of
                Err e \<Rightarrow> return_ok (Err e)
              | Ok res \<Rightarrow> commit_tx_result lib ctx tx space_state balance_before res used_state_trace)))"

definition commit_tx ::
  "'w evm_lib \<Rightarrow> BlockBuildingContext \<Rightarrow> TransactionSignedEcRecoveredWithBlobs \<Rightarrow> BlockBuildingSpaceState
     \<Rightarrow> ((TransactionOk, TransactionErr) result, 'w) commit" where
  "commit_tx lib ctx tx space_state = commit_tx_inner lib ctx tx space_state"

section \<open>Payouts and refunds\<close>

fun update_nonce_list :: "(address \<times> u64) list \<Rightarrow> address \<times> u64 \<Rightarrow> (address \<times> u64) list" where
  "update_nonce_list [] new_update = [new_update]"
| "update_nonce_list ((a, n) # ns) new_update =
     (if a = fst new_update then (a, snd new_update) # ns else (a, n) # update_nonce_list ns new_update)"

definition update_nonce_list_with_updates ::
  "(address \<times> u64) list \<Rightarrow> (address \<times> u64) list \<Rightarrow> (address \<times> u64) list" where
  "update_nonce_list_with_updates ns new_updates = foldl update_nonce_list ns new_updates"

definition accumulate_tx_execution :: "TransactionOk \<Rightarrow> BundleOk \<Rightarrow> BundleOk" where
  "accumulate_tx_execution ok b =
     b\<lparr>bo_space_used := BlockSpace_add_assign (bo_space_used b) (to_space_used ok),
       bo_cumulative_space_used := to_cumulative_space_used ok,
       bo_tx_infos := bo_tx_infos b @ [to_tx_info ok],
       bo_nonces_updated := update_nonce_list (bo_nonces_updated b) (to_nonce_updated ok)\<rparr>"

definition estimate_refund_payout_tx ::
  "'w evm_lib \<Rightarrow> BlockBuildingContext \<Rightarrow> address \<Rightarrow> U256 \<Rightarrow> BlockSpace \<Rightarrow> ((ReservedPayout, BundleErr) result, 'w) commit" where
  "estimate_refund_payout_tx lib ctx to refundable_value space_used s =
     (case estimate_payout_gas_limit lib to ctx (pbf_state s) space_used of
        None \<Rightarrow> return_err Diverged s
      | Some (Err e) \<Rightarrow> return_ok (Err (BE_EstimatePayoutGas e)) s
      | Some (Ok space_limit) \<Rightarrow>
          (let base_fee = (ucast (ctx_basefee ctx) * ucast (gas space_limit) :: U256)
           in if base_fee > refundable_value
              then return_ok (Err (BE_NotEnoughRefundForGas to refundable_value base_fee)) s
              else return_ok (Ok \<lparr>rp_space_limit = space_limit, rp_tx_value = refundable_value - base_fee,
                     rp_total_refundable_value = refundable_value, rp_base_fee = base_fee\<rparr>) s))"

text \<open>\<^verbatim>\<open>TransactionSignedEcRecoveredWithBlobs::new_no_blobs(tx).unwrap()\<close>\<close>

definition no_blobs_unwrap ::
  "'w evm_lib \<Rightarrow> Recovered \<Rightarrow> (TransactionSignedEcRecoveredWithBlobs, commit_failure) result" where
  "no_blobs_unwrap lib tx =
     (case (TxWithBlobs_new_no_blobs (clock_now lib) tx :: (_, string TxWithBlobsCreateError) result) of
        Err e \<Rightarrow> Err (Panicked ''unwrap'')
      | Ok t \<Rightarrow> Ok t)"

definition insert_refund_payout_tx ::
  "'w evm_lib \<Rightarrow> BlockBuildingContext \<Rightarrow> ReservedPayout \<Rightarrow> address \<Rightarrow> BlockSpace \<Rightarrow> BundleOk
     \<Rightarrow> ((BundleOk, BundleErr) result, 'w) commit" where
  "insert_refund_payout_tx lib ctx payout to reserved ins =
     try_bind (read_state (state_nonce lib (sg_address (ctx_builder_signer ctx)))) (\<lambda>nonce.
       case create_payout_tx lib (ctx_chain_id ctx) (ctx_basefee ctx) (ctx_builder_signer ctx) nonce to
              (gas (rp_space_limit payout)) (rp_tx_value payout) of
         Err e \<Rightarrow> return_ok (Err (BE_PayoutTx e))
       | Ok tx \<Rightarrow>
           try_bind (\<lambda>s. (no_blobs_unwrap lib tx, s)) (\<lambda>payout_tx.
           try_bind (commit_tx lib ctx payout_tx (bo_space_state ins reserved)) (\<lambda>res.
             case res of
               Ok res \<Rightarrow>
                 if \<not> rcp_success (tei_receipt (to_tx_info res))
                 then return_ok (Err (BE_FailedToCommitPayoutTx to (gas (rp_space_limit payout)) (rp_tx_value payout) None))
                 else (let ins = accumulate_tx_execution res ins
                       in return_ok (Ok (ins\<lparr>bo_paid_kickbacks := bo_paid_kickbacks ins @ [(to, rp_tx_value payout)]\<rparr>)))
             | Err e \<Rightarrow>
                 return_ok (Err (BE_FailedToCommitPayoutTx to (gas (rp_space_limit payout)) (rp_tx_value payout) (Some e))))))"

section \<open>Bundles\<close>

definition BundleOk_start :: "BlockBuildingSpaceState \<Rightarrow> BundleOk" where
  "BundleOk_start space_state =
     \<lparr>bo_space_used = BlockSpace_ZERO, bo_cumulative_space_used = ss_space_used space_state, bo_tx_infos = [],
      bo_nonces_updated = [], bo_paid_kickbacks = [], bo_delayed_kickback = None, bo_original_order_ids = []\<rparr>"

text \<open>The loop over the transactions; it returns the refundable profit and what was inserted.\<close>

fun bundle_txs_loop ::
  "'w evm_lib \<Rightarrow> BlockBuildingContext \<Rightarrow> Bundle \<Rightarrow> BlockSpace \<Rightarrow> bool \<Rightarrow> TransactionSignedEcRecoveredWithBlobs list
     \<Rightarrow> U256 \<Rightarrow> BundleOk \<Rightarrow> ((U256 \<times> BundleOk, BundleErr) result, 'w) commit" where
  "bundle_txs_loop lib ctx bundle reserved allow_tx_skip [] refundable_profit ins =
     return_ok (Ok (refundable_profit, ins))"
| "bundle_txs_loop lib ctx bundle reserved allow_tx_skip (tx # txs) refundable_profit ins = (\<lambda>s.
     let rollback_point = rollbacks s
     in try_bind (commit_tx lib ctx tx (bo_space_state ins reserved)) (\<lambda>result.
          case result of
            Ok res \<Rightarrow>
              let reverted = \<not> rcp_success (tei_receipt (to_tx_info res));
                  profit = tei_coinbase_profit (to_tx_info res)
              in if reverted \<and> tx_hash tx \<in> set (b_dropping_tx_hashes bundle)
                 then try_bind (rollback lib rollback_point)
                        (\<lambda>_. bundle_txs_loop lib ctx bundle reserved allow_tx_skip txs refundable_profit ins)
                 else if reverted \<and> tx_hash tx \<notin> set (b_reverting_tx_hashes bundle)
                 then return_ok (Err (BE_TransactionReverted (tx_hash tx)))
                 else bundle_txs_loop lib ctx bundle reserved allow_tx_skip txs
                        (if profit > 0 \<and> is_tx_refundable bundle (tx_hash tx)
                         then refundable_profit + word_of_int profit else refundable_profit)
                        (accumulate_tx_execution res ins)
          | Err e \<Rightarrow>
              if (allow_tx_skip \<and> tx_hash tx \<in> set (b_reverting_tx_hashes bundle)) \<or>
                 tx_hash tx \<in> set (b_dropping_tx_hashes bundle)
              then bundle_txs_loop lib ctx bundle reserved allow_tx_skip txs refundable_profit ins
              else return_ok (Err (BE_InvalidTransaction (tx_hash tx) e))) s)"

text \<open>The block labelled \<^verbatim>\<open>'refund\<close>.\<close>

definition bundle_refund ::
  "'w evm_lib \<Rightarrow> BlockBuildingContext \<Rightarrow> Bundle \<Rightarrow> BlockSpace \<Rightarrow> (address \<times> U256) list \<Rightarrow> U256 \<Rightarrow> BundleOk
     \<Rightarrow> ((BundleOk, BundleErr) result, 'w) commit" where
  "bundle_refund lib ctx bundle reserved combined_refunds refundable_profit ins =
     (case b_refund bundle of
        None \<Rightarrow> return_ok (Ok ins)
      | Some cfg \<Rightarrow>
          (let refundable_value = get_percent refundable_profit (ucast (br_percent cfg));
               kickback = (\<lambda>v fee space in_block. \<lparr>dk_recipient = br_recipient cfg, dk_payout_value = v,
                  dk_payout_tx_fee = fee, dk_payout_tx_space_needed = space, dk_should_pay_in_block = in_block\<rparr>)
           in if br_delayed cfg
              then return_ok (Ok (ins\<lparr>bo_delayed_kickback := Some (kickback refundable_value 0 BlockSpace_ZERO False)\<rparr>))
              else if map_of combined_refunds (br_recipient cfg) \<noteq> None
              then return_ok (Ok (ins\<lparr>bo_delayed_kickback := Some (kickback refundable_value 0 BlockSpace_ZERO True)\<rparr>))
              else try_bind (estimate_refund_payout_tx lib ctx (br_recipient cfg) refundable_value
                               (bo_cumulative_space_used ins)) (\<lambda>payout.
                case payout of
                  Err e \<Rightarrow> return_ok (Err e)
                | Ok payout \<Rightarrow>
                    if gas (rp_space_limit payout) = BASE_TX_GAS \<and>
                       is_ok (can_fit_tx ctx (rp_space_limit payout) 0 (bo_space_state ins reserved))
                    then return_ok (Ok (ins\<lparr>bo_delayed_kickback := Some
                           (kickback (rp_tx_value payout) (rp_base_fee payout) (rp_space_limit payout) True)\<rparr>))
                    else insert_refund_payout_tx lib ctx payout (br_recipient cfg) reserved ins)))"

definition commit_bundle_no_rollback ::
  "'w evm_lib \<Rightarrow> BlockBuildingContext \<Rightarrow> Bundle \<Rightarrow> BlockBuildingSpaceState \<Rightarrow> bool \<Rightarrow> (address \<times> U256) list
     \<Rightarrow> ((BundleOk, BundleErr) result, 'w) commit" where
  "commit_bundle_no_rollback lib ctx bundle space_state allow_tx_skip combined_refunds =
     (let reserved = ss_reserved_block_space space_state
      in try_bind (bundle_txs_loop lib ctx bundle reserved allow_tx_skip (b_txs bundle) 0 (BundleOk_start space_state)) (\<lambda>res.
           case res of
             Err e \<Rightarrow> return_ok (Err e)
           | Ok (refundable_profit, ins) \<Rightarrow>
               if gas (bo_space_used ins) = 0 then return_ok (Err BE_EmptyBundle)
               else bundle_refund lib ctx bundle reserved combined_refunds refundable_profit ins))"

definition commit_bundle ::
  "'w evm_lib \<Rightarrow> BlockBuildingContext \<Rightarrow> Bundle \<Rightarrow> BlockBuildingSpaceState \<Rightarrow> bool \<Rightarrow> (address \<times> U256) list
     \<Rightarrow> ((BundleOk, BundleErr) result, 'w) commit" where
  "commit_bundle lib ctx bundle space_state allow_tx_skip combined_refunds =
     (let current_block = ctx_block_number ctx;
          min_ts = (case b_min_timestamp bundle of None \<Rightarrow> 0 | Some t \<Rightarrow> t);
          max_ts = (case b_max_timestamp bundle of None \<Rightarrow> - 1 | Some t \<Rightarrow> t);
          block_ts = ctx_timestamp ctx;
          wrong_block = (case b_block bundle of None \<Rightarrow> None | Some b \<Rightarrow> if b \<noteq> current_block then Some b else None)
      in case wrong_block of
           Some b \<Rightarrow> return_ok (Err (BE_TargetBlockIncorrect current_block b b))
         | None \<Rightarrow>
             if \<not> (min_ts \<le> block_ts \<and> block_ts \<le> max_ts)
             then return_ok (Err (BE_IncorrectTimestamp min_ts max_ts block_ts))
             else execute_with_rollback lib
                    (commit_bundle_no_rollback lib ctx bundle space_state allow_tx_skip combined_refunds))"

section \<open>Mev-share bundles\<close>

record hash_orders =
  ho_elements :: "(usize \<times> usize) list \<Rightarrow> (usize \<times> usize) list"
  ho_payouts :: "(address \<times> U256) list \<Rightarrow> (address \<times> U256) list"
  ho_promissed :: "(address \<times> ReservedPayout) list \<Rightarrow> (address \<times> ReservedPayout) list"

record share_acc =
  sa_insert :: BundleOk
  sa_refundable_profit :: U256
  sa_inner_payouts :: "(address \<times> U256) list"

text \<open>\<^verbatim>\<open>entry(addr).and_modify(|v| *v += value).or_insert(value)\<close>\<close>

definition add_payout :: "address \<Rightarrow> U256 \<Rightarrow> (address \<times> U256) list \<Rightarrow> (address \<times> U256) list" where
  "add_payout a v m = alist_modify a (\<lambda>e. case e of None \<Rightarrow> v | Some x \<Rightarrow> x + v) m"

definition refundable_elements :: "Refund list \<Rightarrow> (usize \<times> usize) list" where
  "refundable_elements refunds = foldl (\<lambda>m r. alist_update (body_idx r) (refund_percent r) m) [] refunds"

text \<open>What a successful inner bundle adds to the outer one.\<close>

definition merge_inner ::
  "hash_orders \<Rightarrow> OrderId option \<Rightarrow> bool \<Rightarrow> ShareBundleCommitResult \<Rightarrow> share_acc \<Rightarrow> share_acc" where
  "merge_inner ho original_order_id is_refundable_element res acc =
     (let ok = sbr_bundle_ok res; ins = sa_insert acc;
          own_id = (case original_order_id of
                      Some i \<Rightarrow> if bo_tx_infos ok \<noteq> [] then [i] else []
                    | None \<Rightarrow> [])
      in \<lparr>sa_insert = ins\<lparr>bo_original_order_ids := bo_original_order_ids ins @ own_id @ bo_original_order_ids ok,
            bo_space_used := BlockSpace_add_assign (bo_space_used ins) (bo_space_used ok),
            bo_cumulative_space_used := bo_cumulative_space_used ok,
            bo_tx_infos := bo_tx_infos ins @ bo_tx_infos ok,
            bo_nonces_updated := update_nonce_list_with_updates (bo_nonces_updated ins) (bo_nonces_updated ok)\<rparr>,
          sa_refundable_profit =
            (if total_payouts_promissed res < coinbase_diff_before_payouts res \<and> \<not> is_refundable_element
             then sa_refundable_profit acc + (coinbase_diff_before_payouts res - total_payouts_promissed res)
             else sa_refundable_profit acc),
          sa_inner_payouts = foldl (\<lambda>m (a, reserve). add_payout a (rp_total_refundable_value reserve) m)
            (sa_inner_payouts acc) (ho_promissed ho (payouts_promissed res))\<rparr>)"

text \<open>The loop over the refunded elements.\<close>

fun refund_elements_loop ::
  "ShareBundleBody list \<Rightarrow> U256 \<Rightarrow> (usize \<times> usize) list \<Rightarrow> (address \<times> U256) list
     \<Rightarrow> ((address \<times> U256) list, BundleErr) result" where
  "refund_elements_loop body refundable_profit [] payouts = Ok payouts"
| "refund_elements_loop body refundable_profit ((idx, percent) # es) payouts =
     (case Option.bind (get_at body (unat idx)) body_refund_config of
        None \<Rightarrow> Err (BE_IncorrectRefundableElement idx)
      | Some config \<Rightarrow>
          (let total_value = get_percent refundable_profit percent
           in refund_elements_loop body refundable_profit es
                (foldl (\<lambda>m c. add_payout (rc_address c) (get_percent total_value (rc_percent c)) m) payouts config)))"

text \<open>The loop that reserves the payouts.\<close>

fun reserve_payouts ::
  "'w evm_lib \<Rightarrow> BlockBuildingContext \<Rightarrow> BlockSpace \<Rightarrow> (address \<times> U256) list \<Rightarrow> (address \<times> ReservedPayout) list
     \<Rightarrow> (((address \<times> ReservedPayout) list, BundleErr) result, 'w) commit" where
  "reserve_payouts lib ctx used [] promised = return_ok (Ok promised)"
| "reserve_payouts lib ctx used ((to, refundable_value) # ps) promised =
     try_bind (estimate_refund_payout_tx lib ctx to refundable_value used) (\<lambda>payout.
       case payout of
         Err e \<Rightarrow> return_ok (Err e)
       | Ok payout \<Rightarrow> reserve_payouts lib ctx used ps (alist_update to payout promised))"

text \<open>The end of \<^verbatim>\<open>commit_share_bundle_inner_no_rollback\<close>, after the loop over the body.\<close>

definition share_finish ::
  "'w evm_lib \<Rightarrow> BlockBuildingContext \<Rightarrow> hash_orders \<Rightarrow> ShareBundleBody list \<Rightarrow> (usize \<times> usize) list \<Rightarrow> U256 \<Rightarrow> share_acc
     \<Rightarrow> ((ShareBundleCommitResult, BundleErr) result, 'w) commit" where
  "share_finish lib ctx ho body elements coinbase_balance_before acc =
     (case refund_elements_loop body (sa_refundable_profit acc) (ho_elements ho elements) (sa_inner_payouts acc) of
        Err e \<Rightarrow> return_ok (Err e)
      | Ok payouts \<Rightarrow>
          try_bind (reserve_payouts lib ctx (bo_cumulative_space_used (sa_insert acc)) (ho_payouts ho payouts) []) (\<lambda>promised.
            case promised of
              Err e \<Rightarrow> return_ok (Err e)
            | Ok promised \<Rightarrow> (\<lambda>s.
                let diff = (case fst (saturating_coinbase_delta lib ctx coinbase_balance_before s) of Err _ \<Rightarrow> 0 | Ok d \<Rightarrow> d)
                in return_ok (Ok \<lparr>sbr_bundle_ok = sa_insert acc, coinbase_diff_before_payouts = diff,
                     total_payouts_promissed = sum_list (map (rp_total_refundable_value \<circ> snd) promised),
                     payouts_promissed = promised\<rparr>) s)))"

fun commit_share_bundle_inner ::
  "'w evm_lib \<Rightarrow> BlockBuildingContext \<Rightarrow> hash_orders \<Rightarrow> bool \<Rightarrow> ShareBundleInner \<Rightarrow> BlockBuildingSpaceState
     \<Rightarrow> ((ShareBundleCommitResult, BundleErr) result, 'w) commit"
and share_body_loop ::
  "'w evm_lib \<Rightarrow> BlockBuildingContext \<Rightarrow> hash_orders \<Rightarrow> bool \<Rightarrow> BlockSpace \<Rightarrow> (usize \<times> usize) list \<Rightarrow> ShareBundleBody list
     \<Rightarrow> nat \<Rightarrow> share_acc \<Rightarrow> ((share_acc, BundleErr) result, 'w) commit" where
  "commit_share_bundle_inner lib ctx ho allow_tx_skip (ShareBundleInner body refund refund_config can_skip original_order_id) space_state =
     execute_with_rollback lib
       (try_bind (coinbase_balance lib ctx) (\<lambda>coinbase_balance_before.
          try_bind (share_body_loop lib ctx ho allow_tx_skip (ss_reserved_block_space space_state) (refundable_elements refund) body 0
              \<lparr>sa_insert = BundleOk_start space_state, sa_refundable_profit = 0, sa_inner_payouts = []\<rparr>) (\<lambda>res.
            case res of
              Err e \<Rightarrow> return_ok (Err e)
            | Ok acc \<Rightarrow> share_finish lib ctx ho body (refundable_elements refund) coinbase_balance_before acc)))"
| "share_body_loop lib ctx ho allow_tx_skip reserved elements [] idx acc = return_ok (Ok acc)"
| "share_body_loop lib ctx ho allow_tx_skip reserved elements (Body_Tx sbundle_tx # body) idx acc = (\<lambda>s.
     let rollback_point = rollbacks s; tx = sbt_tx sbundle_tx
     in try_bind (commit_tx lib ctx tx (bo_space_state (sa_insert acc) reserved)) (\<lambda>result.
          case result of
            Ok res \<Rightarrow>
              let reverted = \<not> rcp_success (tei_receipt (to_tx_info res));
                  profit = tei_coinbase_profit (to_tx_info res)
              in if reverted \<and> sbt_revert_behavior sbundle_tx = NotAllowed
                 then return_ok (Err (BE_TransactionReverted (tx_hash tx)))
                 else if reverted \<and> sbt_revert_behavior sbundle_tx = AllowedExcluded
                 then try_bind (rollback lib rollback_point)
                        (\<lambda>_. share_body_loop lib ctx ho allow_tx_skip reserved elements body (Suc idx) acc)
                 else share_body_loop lib ctx ho allow_tx_skip reserved elements body (Suc idx)
                        (acc\<lparr>sa_refundable_profit :=
                           (if profit > 0 \<and> map_of elements (of_nat idx) = None
                            then sa_refundable_profit acc + word_of_int profit else sa_refundable_profit acc),
                           sa_insert := accumulate_tx_execution res (sa_insert acc)\<rparr>)
          | Err e \<Rightarrow>
              if allow_tx_skip \<and> can_revert (sbt_revert_behavior sbundle_tx)
              then share_body_loop lib ctx ho allow_tx_skip reserved elements body (Suc idx) acc
              else return_ok (Err (BE_InvalidTransaction (tx_hash tx) e))) s)"
| "share_body_loop lib ctx ho allow_tx_skip reserved elements (Body_Bundle inner # body) idx acc =
     try_bind (commit_share_bundle_inner lib ctx ho allow_tx_skip inner (bo_space_state (sa_insert acc) reserved)) (\<lambda>inner_res.
       case inner_res of
         Ok res \<Rightarrow>
           share_body_loop lib ctx ho allow_tx_skip reserved elements body (Suc idx)
             (merge_inner ho (sbi_original_order_id inner) (map_of elements (of_nat idx) \<noteq> None) res acc)
       | Err e \<Rightarrow>
           if sbi_can_skip inner then share_body_loop lib ctx ho allow_tx_skip reserved elements body (Suc idx) acc
           else return_ok (Err e))"

text \<open>The kickbacks are paid in the order of the addresses.\<close>

fun pay_kickbacks ::
  "'w evm_lib \<Rightarrow> BlockBuildingContext \<Rightarrow> BlockSpace \<Rightarrow> (address \<times> ReservedPayout) list \<Rightarrow> BundleOk
     \<Rightarrow> ((BundleOk, BundleErr) result, 'w) commit" where
  "pay_kickbacks lib ctx reserved [] ins = return_ok (Ok ins)"
| "pay_kickbacks lib ctx reserved ((to, payout) # ps) ins =
     try_bind (insert_refund_payout_tx lib ctx payout to reserved ins) (\<lambda>res.
       case res of
         Err e \<Rightarrow> return_ok (Err e)
       | Ok ins \<Rightarrow> pay_kickbacks lib ctx reserved ps ins)"

definition commit_share_bundle_no_rollback ::
  "'w evm_lib \<Rightarrow> BlockBuildingContext \<Rightarrow> hash_orders \<Rightarrow> ShareBundle \<Rightarrow> BlockBuildingSpaceState \<Rightarrow> bool
     \<Rightarrow> ((BundleOk, BundleErr) result, 'w) commit" where
  "commit_share_bundle_no_rollback lib ctx ho bundle space_state allow_tx_skip =
     try_bind (commit_share_bundle_inner lib ctx ho allow_tx_skip (sb_inner_bundle bundle) space_state) (\<lambda>res.
       case res of
         Err e \<Rightarrow> return_ok (Err e)
       | Ok r \<Rightarrow> pay_kickbacks lib ctx (ss_reserved_block_space space_state)
                   (sort_key fst (ho_promissed ho (payouts_promissed r))) (sbr_bundle_ok r))"

definition commit_share_bundle ::
  "'w evm_lib \<Rightarrow> BlockBuildingContext \<Rightarrow> hash_orders \<Rightarrow> ShareBundle \<Rightarrow> BlockBuildingSpaceState \<Rightarrow> bool
     \<Rightarrow> ((BundleOk, BundleErr) result, 'w) commit" where
  "commit_share_bundle lib ctx ho bundle space_state allow_tx_skip =
     (let current_block = ctx_block_number ctx
      in if \<not> (sb_block bundle \<le> current_block \<and> current_block \<le> sb_max_block bundle)
         then return_ok (Err (BE_TargetBlockIncorrect current_block (sb_block bundle) (sb_max_block bundle)))
         else execute_with_rollback lib (commit_share_bundle_no_rollback lib ctx ho bundle space_state allow_tx_skip))"

section \<open>Orders\<close>

definition get_used_state_trace :: "'w PartialBlockFork \<Rightarrow> UsedStateTrace option" where
  "get_used_state_trace s = Option.bind (pbf_tracer s) get_used_state_tracer"

definition coinbase_profit_when_refunds ::
  "'w evm_lib \<Rightarrow> BlockBuildingContext \<Rightarrow> U256 \<Rightarrow> U256 \<Rightarrow> ((U256, OrderErr) result, 'w) commit" where
  "coinbase_profit_when_refunds lib ctx initial_balance delayed_refund_cost =
     try_bind (coinbase_balance lib ctx) (\<lambda>balance_after.
       let min_balance = initial_balance + delayed_refund_cost
       in if balance_after \<ge> min_balance then return_ok (Ok (balance_after - min_balance))
          else return_ok (Err (OE_NegativeProfit (min_balance - balance_after))))"

definition bundle_to_order_result ::
  "'w evm_lib \<Rightarrow> BlockBuildingContext \<Rightarrow> (BundleOk, BundleErr) result \<Rightarrow> U256 \<Rightarrow> ((OrderOk, OrderErr) result, 'w) commit" where
  "bundle_to_order_result lib ctx bundle_result coinbase_balance_before =
     (case bundle_result of
        Err e \<Rightarrow> return_ok (Err (OE_Bundle e))
      | Ok ok \<Rightarrow>
          (let delayed_refund_cost =
                 (case bo_delayed_kickback ok of None \<Rightarrow> 0 | Some r \<Rightarrow> dk_payout_value r + dk_payout_tx_fee r)
           in try_bind (coinbase_profit_when_refunds lib ctx coinbase_balance_before delayed_refund_cost) (\<lambda>profit.
                case profit of
                  Err e \<Rightarrow> return_ok (Err e)
                | Ok profit \<Rightarrow> (\<lambda>s. return_ok (Ok
                    \<lparr>oo_coinbase_profit = profit, oo_space_used = bo_space_used ok,
                     oo_cumulative_space_used = bo_cumulative_space_used ok, oo_tx_infos = bo_tx_infos ok,
                     oo_original_order_ids = bo_original_order_ids ok, oo_nonces_updated = bo_nonces_updated ok,
                     oo_paid_kickbacks = bo_paid_kickbacks ok, oo_delayed_kickback = bo_delayed_kickback ok,
                     oo_used_state_trace = get_used_state_trace s\<rparr>) s))))"

definition commit_order_no_rollback ::
  "'w evm_lib \<Rightarrow> BlockBuildingContext \<Rightarrow> hash_orders \<Rightarrow> Order \<Rightarrow> BlockBuildingSpaceState \<Rightarrow> bool \<Rightarrow> (address \<times> U256) list
     \<Rightarrow> ((OrderOk, OrderErr) result, 'w) commit" where
  "commit_order_no_rollback lib ctx ho od space_state allow_tx_skip combined_refunds =
     (case od of
        Order_Tx tx \<Rightarrow>
          try_bind (commit_tx lib ctx (tx_with_blobs tx) space_state) (\<lambda>res.
            case res of
              Err e \<Rightarrow> return_ok (Err (OE_Transaction e))
            | Ok ok \<Rightarrow>
                (let profit = tei_coinbase_profit (to_tx_info ok)
                 in if profit < 0 \<and> \<not> is_system (tx_metadata (tx_with_blobs tx))
                    then return_ok (Err (OE_NegativeProfit (word_of_int (- profit))))
                    else (\<lambda>s. return_ok (Ok
                      \<lparr>oo_coinbase_profit = (if profit < 0 then 0 else word_of_int profit),
                       oo_space_used = to_space_used ok, oo_cumulative_space_used = to_cumulative_space_used ok,
                       oo_tx_infos = [to_tx_info ok], oo_original_order_ids = [], oo_nonces_updated = [to_nonce_updated ok],
                       oo_paid_kickbacks = [], oo_delayed_kickback = None,
                       oo_used_state_trace = get_used_state_trace s\<rparr>) s)))
      | Order_Bundle bundle \<Rightarrow>
          try_bind (coinbase_balance lib ctx) (\<lambda>coinbase_balance_before.
            try_bind (commit_bundle lib ctx bundle space_state allow_tx_skip combined_refunds) (\<lambda>res.
              bundle_to_order_result lib ctx res coinbase_balance_before))
      | Order_ShareBundle bundle \<Rightarrow>
          try_bind (coinbase_balance lib ctx) (\<lambda>coinbase_balance_before.
            try_bind (commit_share_bundle lib ctx ho bundle space_state allow_tx_skip) (\<lambda>res.
              bundle_to_order_result lib ctx res coinbase_balance_before)))"

definition commit_order ::
  "'w evm_lib \<Rightarrow> BlockBuildingContext \<Rightarrow> hash_orders \<Rightarrow> Order \<Rightarrow> BlockBuildingSpaceState \<Rightarrow> bool \<Rightarrow> (address \<times> U256) list
     \<Rightarrow> ((OrderOk, OrderErr) result, 'w) commit" where
  "commit_order lib ctx ho od space_state allow_tx_skip combined_refunds =
     execute_with_rollback lib (commit_order_no_rollback lib ctx ho od space_state allow_tx_skip combined_refunds)"

end
