(* ===== verification/Order_Commit_Laws.thy ===== *)
theory Order_Commit_Laws
  imports Order_Commit Order_Laws "HOL-Library.Sublist"
begin

text \<open>
  What the execution of orders guarantees: every operation on a fork can be undone by as many reverts as it
  counts, an order that fails leaves the state as it was, the space, receipts and nonces of a
  committed order are exact, mandatory transactions of a bundle are executed in order and succeed, and the builder
  does not lose money on an order.
\<close>

section \<open>Everything can be undone\<close>

definition undoable :: "'w evm_lib \<Rightarrow> 'w PartialBlockFork \<Rightarrow> 'w PartialBlockFork \<Rightarrow> bool" where
  "undoable lib s t \<longleftrightarrow> rollbacks s \<le> rollbacks t \<and>
     (revert_law lib \<longrightarrow> db_revert lib (pbf_state t) (rollbacks t - rollbacks s) = pbf_state s)"

definition incorrect_rollback :: "commit_failure \<Rightarrow> bool" where
  "incorrect_rollback e \<longleftrightarrow> e = Panicked ''incorrect rollback''"

lemma undoable_refl: "undoable lib s s"
  by (simp add: undoable_def revert_zero)

lemma undoable_trans:
  assumes "undoable lib s t" and "undoable lib t u"
  shows "undoable lib s u"
proof -
  have "db_revert lib (pbf_state u) (rollbacks u - rollbacks s) = pbf_state s" if law: "revert_law lib"
  proof -
    have r1: "db_revert lib (pbf_state t) (rollbacks t - rollbacks s) = pbf_state s"
      and r2: "db_revert lib (pbf_state u) (rollbacks u - rollbacks t) = pbf_state t"
      using assms law by (auto simp only: undoable_def)
    have "rollbacks u - rollbacks s = (rollbacks u - rollbacks t) + (rollbacks t - rollbacks s)"
      using assms by (simp add: undoable_def)
    then show ?thesis by (simp only: revert_add [OF law, symmetric] r2 r1)
  qed
  with assms show ?thesis unfolding undoable_def by linarith
qed

interpretation undo: step_relation "undoable lib" incorrect_rollback for lib
  by unfold_locales (fact undoable_refl, rule undoable_trans)

abbreviation undo_ok :: "'w evm_lib \<Rightarrow> 'w PartialBlockFork \<Rightarrow> ('a, commit_failure) result \<times> 'w PartialBlockFork \<Rightarrow> bool" where
  "undo_ok lib \<equiv> outcome_ok (undoable lib) incorrect_rollback"

lemma undo_ok_trans: "undoable lib s t \<Longrightarrow> undo_ok lib t p \<Longrightarrow> undo_ok lib s p"
  using undoable_trans by (fastforce simp: outcome_ok_def)

lemma undo_try_bind_from:
  assumes "undo_ok lib s (m s)" and "\<And>a t. undoable lib s t \<Longrightarrow> undo_ok lib s (k a t)"
  shows "undo_ok lib s (try_bind m k s)"
proof (cases "m s")
  case (Pair r t)
  then have "undoable lib s t" using assms(1) by (simp add: outcome_ok_def)
  with assms Pair show ?thesis by (cases r) (simp_all add: try_bind_def outcome_ok_def)
qed

lemma undoable_frame: "rollbacks t = rollbacks s \<Longrightarrow> pbf_state t = pbf_state s \<Longrightarrow> undoable lib s t"
  by (simp add: undoable_def revert_zero)

lemma undo_ok_frame:
  assumes "m = (r, t)" and "rollbacks t = rollbacks s" and "pbf_state t = pbf_state s"
    and "\<And>e. r = Err e \<Longrightarrow> \<not> incorrect_rollback e"
  shows "undo_ok lib s m"
  using assms undoable_frame [OF assms(2,3)] by (auto simp: outcome_ok_def split: sum.split)

lemma undo_read_state: "undo_ok lib s (read_state f s)"
  by (auto simp: read_state_def outcome_ok_def undoable_refl incorrect_rollback_def split: sum.split)

lemma undo_coinbase_balance: "undo_ok lib s (coinbase_balance lib ctx s)"
  by (simp add: coinbase_balance_def undo_read_state)

lemma undo_coinbase_balance_I256: "undo_ok lib s (coinbase_balance_I256 lib ctx s)"
  unfolding coinbase_balance_I256_def
  by (rule undo.outcome_try_bind [OF undo_coinbase_balance])
    (simp add: outcome_ok_def undoable_refl I256_try_from_def incorrect_rollback_def)

text \<open>A rollback to a point that was passed gives back the state of that point.\<close>

lemma undo_rollback:
  assumes "undoable lib s t"
  shows "fst (rollback lib (rollbacks s) t) = Ok ()"
    and "undoable lib s (snd (rollback lib (rollbacks s) t))"
    and "revert_law lib \<Longrightarrow> pbf_state (snd (rollback lib (rollbacks s) t)) = pbf_state s"
    and "rollbacks (snd (rollback lib (rollbacks s) t)) = rollbacks s"
  using assms by (simp_all add: rollback_def undoable_def revert_zero)

lemma undo_after_rollback:
  assumes "undoable lib s t" and "\<And>u. undoable lib s u \<Longrightarrow> rollbacks u = rollbacks s \<Longrightarrow> undo_ok lib u (k () u)"
  shows "undo_ok lib s (try_bind (rollback lib (rollbacks s)) k t)"
proof -
  obtain u where u: "rollback lib (rollbacks s) t = (Ok (), u)"
    using undo_rollback(1) [OF assms(1)] by (cases "rollback lib (rollbacks s) t") auto
  with undo_rollback(2,4) [OF assms(1)] have su: "undoable lib s u" and "rollbacks u = rollbacks s" by simp_all
  with assms(2) [of u] have "undo_ok lib u (k () u)" by blast
  from undo_ok_trans [OF su this] show ?thesis by (simp add: try_bind_def u)
qed

lemma undo_execute_with_rollback:
  assumes "undo_ok lib s (f s)"
  shows "undo_ok lib s (execute_with_rollback lib f s)"
proof -
  obtain r t where f: "f s = (r, t)" by (cases "f s")
  then have st: "undoable lib s t" using assms by (simp add: outcome_ok_def)
  show ?thesis
  proof (cases r)
    case (Inl e)
    then show ?thesis using f assms by (simp add: execute_with_rollback_def try_bind_def outcome_ok_def)
  next
    case (Inr res)
    have "undo_ok lib s (try_bind (rollback lib (rollbacks s)) (\<lambda>_. return_ok res) t)"
      by (rule undo_after_rollback [OF st]) (rule undo.outcome_return_ok)
    then show ?thesis
      using f Inr st by (simp add: execute_with_rollback_def try_bind_def outcome_ok_def return_ok_def)
  qed
qed

lemma execute_with_rollback_Err:
  assumes "undo_ok lib s (f s)" and "revert_law lib" and "execute_with_rollback lib f s = (Ok (Err e), t)"
  shows "pbf_state t = pbf_state s \<and> rollbacks t = rollbacks s"
proof -
  obtain res u where u: "f s = (Ok res, u)"
    "(if \<not> is_ok res then try_bind (rollback lib (rollbacks s)) (\<lambda>_. return_ok res) else return_ok res) u = (Ok (Err e), t)"
    using assms(3) unfolding execute_with_rollback_def Let_def by (rule try_bind_OkE)
  then have su: "undoable lib s u" using assms(1) by (simp add: outcome_ok_def)
  have "res = Err e" using u(2) by (cases res) (auto elim: try_bind_OkE)
  then have "t = snd (rollback lib (rollbacks s) u)" using u(2) by (auto elim!: try_bind_OkE)
  then show ?thesis using undo_rollback(3,4) [OF su] assms(2) by simp
qed

section \<open>Transactions\<close>

lemma cache_walk_error: "cache_walk lib w nodes wk = Err e \<Longrightarrow> \<not> incorrect_rollback e"
proof (induction lib w nodes wk rule: cache_walk.induct)
  case (1 lib w nodes wk)
  then show ?case
    by (subst (asm) cache_walk.simps)
      (auto simp: answer_action_def action_result_def incorrect_rollback_def Let_def
        split: option.splits sum.splits NextAction.splits prod.splits if_splits)
qed

lemma coinbase_deltas_error: "coinbase_deltas used current = Err e \<Longrightarrow> \<not> incorrect_rollback e"
  by (cases "(used, current)" rule: coinbase_deltas.cases)
    (auto simp: signed_uint_delta_def incorrect_rollback_def split: if_splits)

lemma get_cached_result_error: "fst (get_cached_result lib w h cb c) = Err e \<Longrightarrow> \<not> incorrect_rollback e"
  using cache_walk_error coinbase_deltas_error
  by (force simp: get_cached_result_def Let_def incorrect_rollback_def split: if_splits sum.splits option.splits)

lemma undo_run_tx: "undo_ok lib s (run_tx lib ctx tx s)"
proof (rule undo_ok_frame)
  show "run_tx lib ctx tx s = (fst (run_tx lib ctx tx s), snd (run_tx lib ctx tx s))" by simp
  show "rollbacks (snd (run_tx lib ctx tx s)) = rollbacks s"
    by (simp add: run_tx_def Let_def split: prod.split sum.split option.split)
  show "pbf_state (snd (run_tx lib ctx tx s)) = pbf_state s"
    by (simp add: run_tx_def Let_def split: prod.split sum.split option.split)
  show "\<not> incorrect_rollback e" if "fst (run_tx lib ctx tx s) = Err e" for e
    using that get_cached_result_error [of lib "pbf_state s" "tx_hash tx" "ctx_beneficiary ctx" "pbf_tx_cache s"]
    by (auto simp: run_tx_def Let_def execute_evm_def incorrect_rollback_def
        split: prod.splits sum.splits option.splits EVMError.splits if_splits)
qed

lemma trace_tx_frame [simp]:
  "rollbacks (trace_tx g u s) = rollbacks s" "pbf_state (trace_tx g u s) = pbf_state s"
  by (simp_all add: trace_tx_def Let_def split: option.split)

lemma undoable_commit_state: "undoable lib s (commit_state lib changes (trace_tx g u s))"
  using revert_commit [of lib] by (simp add: undoable_def commit_state_def)

lemma undo_commit_tx_result: "undo_ok lib s (commit_tx_result lib ctx tx ss before res used s)"
  unfolding commit_tx_result_def Let_def
  by (rule undo_ok_trans [OF undoable_commit_state],
      rule undo.outcome_try_bind [OF undo_coinbase_balance_I256], rule undo.outcome_return_ok)

lemma undo_commit_tx: "undo_ok lib s (commit_tx lib ctx tx ss s)"
proof (cases "can_fit_tx ctx (tx_space_needed tx) (blobs_gas_used tx) ss")
  case (Inl e)
  then show ?thesis by (simp add: commit_tx_def commit_tx_inner_def undo.outcome_return_ok)
next
  case (Inr u)
  then show ?thesis
    unfolding commit_tx_def commit_tx_inner_def
    by (auto intro!: undo.outcome_try_bind undo_coinbase_balance_I256 undo_run_tx undo.outcome_return_ok undo_commit_tx_result
        split: sum.split prod.split if_split)
qed

section \<open>Bundles and orders\<close>

lemma undo_estimate_refund_payout_tx: "undo_ok lib s (estimate_refund_payout_tx lib ctx to v used s)"
  unfolding estimate_refund_payout_tx_def Let_def
  by (auto simp: incorrect_rollback_def intro: undo.outcome_return_ok undo.outcome_return_err
      split: option.split sum.split)

lemma undo_no_blobs_unwrap: "undo_ok lib s (no_blobs_unwrap lib tx, s)"
  by (simp add: outcome_ok_def undoable_refl no_blobs_unwrap_def incorrect_rollback_def split: sum.split)

lemmas undo_intros =
  undo.outcome_return_ok undo.outcome_try_bind undo_read_state undo_coinbase_balance undo_commit_tx
  undo_estimate_refund_payout_tx undo_no_blobs_unwrap

lemma undo_insert_refund_payout_tx: "undo_ok lib s (insert_refund_payout_tx lib ctx payout to reserved ins s)"
  unfolding insert_refund_payout_tx_def Let_def
  by (auto intro!: undo_intros split: sum.split if_split)

lemma undo_bundle_txs_loop: "undo_ok lib s (bundle_txs_loop lib ctx bundle reserved skip txs r ins s)"
proof (induction txs arbitrary: r ins s)
  case Nil
  then show ?case by (simp add: undo.outcome_return_ok)
next
  case (Cons tx txs)
  have next_ok: "undo_ok lib s (bundle_txs_loop lib ctx bundle reserved skip txs r' ins' t)"
    if "undoable lib s t" for r' ins' t
    using that Cons.IH by (rule undo_ok_trans)
  have stop: "undo_ok lib s (return_ok a t)" if "undoable lib s t" for a t
    using that undo.outcome_return_ok by (rule undo_ok_trans)
  have undone: "undo_ok lib s (try_bind (rollback lib (rollbacks s)) (\<lambda>_. bundle_txs_loop lib ctx bundle reserved skip txs r' ins') t)"
    if "undoable lib s t" for r' ins' t
    using that by (rule undo_after_rollback) (rule Cons.IH)
  show ?case
    by (simp only: bundle_txs_loop.simps Let_def, rule undo_try_bind_from [OF undo_commit_tx])
      (simp add: next_ok stop undone split: sum.split)
qed

lemma undo_bundle_refund: "undo_ok lib s (bundle_refund lib ctx bundle reserved combined r ins s)"
  unfolding bundle_refund_def Let_def
  by (auto intro!: undo_intros undo_insert_refund_payout_tx split: option.split sum.split if_split)

lemma undo_commit_bundle: "undo_ok lib s (commit_bundle lib ctx bundle ss skip combined s)"
proof -
  have "undo_ok lib t (commit_bundle_no_rollback lib ctx bundle ss skip combined t)" for t
    unfolding commit_bundle_no_rollback_def Let_def
    by (auto intro!: undo_intros undo_bundle_txs_loop undo_bundle_refund split: sum.split prod.split if_split)
  then show ?thesis
    unfolding commit_bundle_def Let_def
    by (auto intro!: undo_intros undo_execute_with_rollback split: option.split if_split)
qed

lemma undo_reserve_payouts: "undo_ok lib s (reserve_payouts lib ctx used ps promised s)"
  by (induction ps arbitrary: promised s)
    (auto intro!: undo_intros split: sum.split)

lemma undo_share_finish: "undo_ok lib s (share_finish lib ctx ho body es before acc s)"
  unfolding share_finish_def Let_def
  by (auto intro!: undo_intros undo_reserve_payouts split: sum.split)

text \<open>Induction over the bundles nested in a mev-share bundle.\<close>

lemma share_bundle_induct [case_names Inner]:
  assumes "\<And>body refund refund_config can_skip oid. (\<And>inner. Body_Bundle inner \<in> set body \<Longrightarrow> P inner) \<Longrightarrow>
    P (ShareBundleInner body refund refund_config can_skip oid)"
  shows "P inner"
proof (induction inner rule: measure_induct_rule [of size])
  case (less inner)
  obtain body refund refund_config can_skip oid where inner: "inner = ShareBundleInner body refund refund_config can_skip oid"
    by (cases inner)
  have "size b < size inner" if "Body_Bundle b \<in> set body" for b
  proof -
    have "size b < size (Body_Bundle b)" by simp
    also have "\<dots> \<le> size_list size body" using that by (rule size_list_estimation') simp
    also have "\<dots> < size inner" by (simp add: inner)
    finally show ?thesis .
  qed
  then have "P b" if "Body_Bundle b \<in> set body" for b using that less.IH by blast
  then show ?case unfolding inner by (rule assms)
qed

lemma undo_share_body_loop:
  assumes "\<And>inner ss t. Body_Bundle inner \<in> set body \<Longrightarrow> undo_ok lib t (commit_share_bundle_inner lib ctx ho skip inner ss t)"
  shows "undo_ok lib s (share_body_loop lib ctx ho skip reserved es body idx acc s)"
  using assms
proof (induction body arbitrary: idx acc s)
  case Nil
  then show ?case by (simp add: undo.outcome_return_ok)
next
  case (Cons b body)
  have IH: "undo_ok lib t (share_body_loop lib ctx ho skip reserved es body (Suc idx) acc' t)" for acc' t
    using Cons by simp
  show ?case
  proof (cases b)
    case (Body_Tx stx)
    have next_ok: "undo_ok lib s (share_body_loop lib ctx ho skip reserved es body (Suc idx) acc' t)"
      if "undoable lib s t" for acc' t
      using that IH by (rule undo_ok_trans)
    have stop: "undo_ok lib s (return_ok a t)" if "undoable lib s t" for a t
      using that undo.outcome_return_ok by (rule undo_ok_trans)
    have undone: "undo_ok lib s (try_bind (rollback lib (rollbacks s)) (\<lambda>_. share_body_loop lib ctx ho skip reserved es body (Suc idx) acc') t)"
      if "undoable lib s t" for acc' t
      using that by (rule undo_after_rollback) (rule IH)
    show ?thesis
      by (simp only: Body_Tx share_body_loop.simps Let_def, rule undo_try_bind_from [OF undo_commit_tx])
        (use next_ok undone in \<open>cases skip; simp add: stop split: sum.split\<close>)
  next
    case (Body_Bundle inner)
    then have "undo_ok lib t (commit_share_bundle_inner lib ctx ho skip inner ss t)" for ss t
      using Cons.prems by simp
    then show ?thesis
      unfolding Body_Bundle share_body_loop.simps
      by (auto intro!: undo_intros IH split: sum.split if_split)
  qed
qed

lemma undo_commit_share_bundle_inner: "undo_ok lib s (commit_share_bundle_inner lib ctx ho skip inner ss s)"
proof (induction inner arbitrary: ss s rule: share_bundle_induct)
  case (Inner body refund refund_config can_skip oid)
  show ?case
    unfolding commit_share_bundle_inner.simps
    by (rule undo_execute_with_rollback)
      (auto intro!: undo_intros undo_share_body_loop Inner undo_share_finish split: sum.split)
qed

lemma undo_pay_kickbacks: "undo_ok lib s (pay_kickbacks lib ctx reserved ps ins s)"
  by (induction ps arbitrary: ins s)
    (auto intro!: undo_intros undo_insert_refund_payout_tx split: sum.split)

lemma undo_commit_share_bundle: "undo_ok lib s (commit_share_bundle lib ctx ho bundle ss skip s)"
proof -
  have "undo_ok lib t (commit_share_bundle_no_rollback lib ctx ho bundle ss skip t)" for t
    unfolding commit_share_bundle_no_rollback_def
    by (auto intro!: undo_intros undo_commit_share_bundle_inner undo_pay_kickbacks split: sum.split)
  then show ?thesis
    unfolding commit_share_bundle_def Let_def
    by (auto intro!: undo_intros undo_execute_with_rollback split: if_split)
qed

lemma undo_bundle_to_order_result: "undo_ok lib s (bundle_to_order_result lib ctx res before s)"
  unfolding bundle_to_order_result_def coinbase_profit_when_refunds_def Let_def
  by (auto intro!: undo_intros split: sum.split if_split)

lemma undo_commit_order_no_rollback: "undo_ok lib s (commit_order_no_rollback lib ctx ho od ss skip combined s)"
  unfolding commit_order_no_rollback_def Let_def
  by (auto intro!: undo_intros undo_commit_bundle undo_commit_share_bundle undo_bundle_to_order_result
      split: Order.split sum.split if_split)

lemma undo_commit_order: "undo_ok lib s (commit_order lib ctx ho od ss skip combined s)"
  unfolding commit_order_def by (rule undo_execute_with_rollback [OF undo_commit_order_no_rollback])

lemma commit_order_ErrD:
  assumes "revert_law lib" and "commit_order lib ctx ho od ss skip combined s = (Ok (Err e), t)"
  shows "pbf_state t = pbf_state s \<and> rollbacks t = rollbacks s"
  using assms(2) unfolding commit_order_def
  by (rule execute_with_rollback_Err [OF undo_commit_order_no_rollback assms(1)])

text \<open>
  C2: Orders are atomic.  Whatever the order, the state and the answers of the EVM, the execution of an order never
  tries to roll back past its start, and as many reverts as it added give back the state it started from;
  when the order fails, the state and the number of reverts are those from before.
\<close>

theorem commit_order_atomic:
  assumes "revert_law lib" and "commit_order lib ctx ho od ss skip combined s = (r, t)"
  shows "r \<noteq> Err (Panicked ''incorrect rollback'') \<and> rollbacks s \<le> rollbacks t \<and>
    db_revert lib (pbf_state t) (rollbacks t - rollbacks s) = pbf_state s \<and>
    (\<forall>e. r = Ok (Err e) \<longrightarrow> pbf_state t = pbf_state s \<and> rollbacks t = rollbacks s)"
  using undo_commit_order [of lib s ctx ho od ss skip combined] commit_order_ErrD [OF assms(1), of ctx ho od ss skip combined s _ t]
    assms
  by (auto simp: outcome_ok_def undoable_def incorrect_rollback_def)

section \<open>Accounting\<close>

text \<open>
  The space used by executed transactions, the nonces they leave, receipts with the right cumulative gas,
  and a space state within the limits of the block.
\<close>

definition total_space :: "TransactionExecutionInfo list \<Rightarrow> BlockSpace" where
  "total_space infos = foldr (\<lambda>i. BlockSpace_add (tei_space_used i)) infos BlockSpace_ZERO"

definition last_nonces :: "TransactionExecutionInfo list \<Rightarrow> address \<Rightarrow> u64 option" where
  "last_nonces infos = map_of (rev (map (\<lambda>i. (tx_signer (tei_tx i), tx_nonce (tei_tx i) + 1)) infos))"

fun receipts_ok :: "u64 \<Rightarrow> TransactionExecutionInfo list \<Rightarrow> bool" where
  "receipts_ok g [] \<longleftrightarrow> True"
| "receipts_ok g (i # is) \<longleftrightarrow>
     rcp_cumulative_gas_used (tei_receipt i) = g + gas (tei_space_used i) \<and> receipts_ok (g + gas (tei_space_used i)) is"

definition within :: "BlockBuildingContext \<Rightarrow> BlockSpace \<Rightarrow> BlockSpace \<Rightarrow> bool" where
  "within ctx used reserved \<longleftrightarrow>
     unat (gas used) + unat (gas reserved) \<le> unat (ctx_gas_available ctx) \<and>
     unat (rlp_length used) + unat (rlp_length reserved) \<le> unat MAX_RLP_BLOCK_SIZE \<and>
     blob_gas used \<le> ctx_max_blob_gas_per_block ctx"

text \<open>An execution took no more gas than its limit, and none of its sizes is near the width of its type.\<close>

definition info_sane :: "BlockBuildingContext \<Rightarrow> TransactionExecutionInfo \<Rightarrow> bool" where
  "info_sane ctx i \<longleftrightarrow>
     gas (tei_space_used i) \<le> tx_gas_limit (tei_tx i) \<and>
     unat (tx_gas_limit (tei_tx i)) + unat (ctx_gas_available ctx) < 2 ^ 64 \<and>
     unat (length_eip7934 (tei_tx i)) + unat MAX_RLP_BLOCK_SIZE < 2 ^ 64 \<and>
     unat (blobs_gas_used (tei_tx i)) + unat (ctx_max_blob_gas_per_block ctx) < 2 ^ 64"

lemma total_space_simps [simp]:
  "total_space [] = BlockSpace_ZERO"
  "total_space (i # is) = BlockSpace_add (tei_space_used i) (total_space is)"
  by (simp_all add: total_space_def)

lemma total_space_append: "total_space (xs @ ys) = BlockSpace_add (total_space xs) (total_space ys)"
  by (induction xs) (simp_all add: BlockSpace_add_assoc)

lemma receipts_ok_append:
  "receipts_ok g (xs @ ys) \<longleftrightarrow> receipts_ok g xs \<and> receipts_ok (g + gas (total_space xs)) ys"
  by (induction xs arbitrary: g) (simp_all add: ac_simps)

lemma last_nonces_append: "last_nonces (xs @ ys) = last_nonces xs ++ last_nonces ys"
  by (simp add: last_nonces_def)

lemma last_nonces_single: "last_nonces [i] = [tx_signer (tei_tx i) \<mapsto> tx_nonce (tei_tx i) + 1]"
  by (simp add: last_nonces_def)

lemma fst_update_nonce_list: "fst ` set (update_nonce_list ns u) = insert (fst u) (fst ` set ns)"
  by (induction ns u rule: update_nonce_list.induct) (auto split: if_splits)

lemma distinct_update_nonce_list: "distinct (map fst ns) \<Longrightarrow> distinct (map fst (update_nonce_list ns u))"
  by (induction ns u rule: update_nonce_list.induct) (auto simp: fst_update_nonce_list [simplified image_iff] split: if_splits)

lemma map_of_update_nonce_list: "map_of (update_nonce_list ns u) = (map_of ns)(fst u \<mapsto> snd u)"
  by (induction ns u rule: update_nonce_list.induct) auto

lemma update_nonce_list_with_updates:
  assumes "distinct (map fst ns)" and "distinct (map fst us)"
  shows "distinct (map fst (update_nonce_list_with_updates ns us)) \<and>
    map_of (update_nonce_list_with_updates ns us) = map_of ns ++ map_of us"
  using assms
proof (induction us arbitrary: ns)
  case Nil
  then show ?case by (simp add: update_nonce_list_with_updates_def)
next
  case (Cons u us)
  then have "map_of us (fst u) = None" by (simp add: map_of_eq_None_iff)
  then have "((map_of ns)(fst u \<mapsto> snd u) ++ map_of us) a = (map_of ns ++ (map_of us)(fst u \<mapsto> snd u)) a" for a
    by (cases "map_of us a") (auto simp: map_add_def)
  then have "(map_of ns)(fst u \<mapsto> snd u) ++ map_of us = map_of ns ++ (map_of us)(fst u \<mapsto> snd u)" by (rule ext)
  moreover have "map_of (u # us) = (map_of us)(fst u \<mapsto> snd u)" by (cases u) simp
  ultimately show ?case
    using Cons.IH [OF distinct_update_nonce_list [OF Cons.prems(1)], of u] Cons.prems(2)
    by (simp add: update_nonce_list_with_updates_def map_of_update_nonce_list del: map_of.simps fun_upd_apply)
qed


lemma within_step:
  assumes "within ctx used reserved" and "info_sane ctx i" and "tei_tx i = tx"
    and "can_fit_tx ctx (tx_space_needed tx) (blobs_gas_used tx) (BlockBuildingSpaceState_new used reserved) = Ok ()"
    and "rlp_length (tei_space_used i) = length_eip7934 tx" and "blob_gas (tei_space_used i) = blobs_gas_used tx"
  shows "within ctx (BlockSpace_add used (tei_space_used i)) reserved"
proof -
  have fit: "length_eip7934 tx + (rlp_length used + rlp_length reserved) \<le> MAX_RLP_BLOCK_SIZE"
    "tx_gas_limit tx + (gas used + gas reserved) \<le> ctx_gas_available ctx"
    "blobs_gas_used tx + blob_gas used \<le> ctx_max_blob_gas_per_block ctx"
    using assms(4) by (auto simp: can_fit_tx_def total_consumed_space_def tx_space_needed_def ss_blob_gas_used_def Let_def
        split: if_splits)
  have sum: "unat x + unat b + unat c \<le> unat m"
    if "unat a + unat m < 2 ^ 64" "unat b + unat c \<le> unat m" "a + (b + c) \<le> m" "x \<le> a" for a b c m x :: u64
  proof -
    have bc: "unat (b + c) = unat b + unat c" using that(1,2) by (simp add: unat_add_noof)
    then have "unat (a + (b + c)) = unat a + (unat b + unat c)" using that(1,2) by (simp add: unat_add_noof)
    then show ?thesis using that(3,4) by (simp add: word_le_nat_alt)
  qed
  have add: "unat (b + x) + unat c \<le> unat m" if "unat x + unat b + unat c \<le> unat m" for b c m x :: u64
    using that unat_add_le [of b x] by linarith
  have gas: "unat (gas used + gas (tei_space_used i)) + unat (gas reserved) \<le> unat (ctx_gas_available ctx)"
    using assms(1,2,3) fit(2) by (intro add sum [of "tx_gas_limit tx"]) (auto simp: within_def info_sane_def)
  have rlp: "unat (rlp_length used + rlp_length (tei_space_used i)) + unat (rlp_length reserved) \<le> unat MAX_RLP_BLOCK_SIZE"
    using assms(1,2,3,5) fit(1) by (intro add sum [of "length_eip7934 tx"]) (auto simp: within_def info_sane_def)
  have "blob_gas used + blob_gas (tei_space_used i) \<le> ctx_max_blob_gas_per_block ctx"
    using fit(3) assms(6) by (simp add: add.commute)
  with gas rlp show ?thesis by (simp add: within_def)
qed

section \<open>The invariant of what was inserted\<close>

definition bundle_inv :: "BlockBuildingContext \<Rightarrow> BlockSpace \<Rightarrow> BlockSpace \<Rightarrow> BundleOk \<Rightarrow> bool" where
  "bundle_inv ctx start reserved b \<longleftrightarrow>
     bo_space_used b = total_space (bo_tx_infos b) \<and>
     bo_cumulative_space_used b = BlockSpace_add start (bo_space_used b) \<and>
     receipts_ok (gas start) (bo_tx_infos b) \<and>
     list_all (\<lambda>i. \<not> is_blocked ctx (tei_tx i)) (bo_tx_infos b) \<and>
     distinct (map fst (bo_nonces_updated b)) \<and> map_of (bo_nonces_updated b) = last_nonces (bo_tx_infos b) \<and>
     (within ctx start reserved \<and> list_all (info_sane ctx) (bo_tx_infos b) \<longrightarrow>
        within ctx (bo_cumulative_space_used b) reserved)"

lemma execute_with_rollback_OkD:
  assumes "execute_with_rollback lib f s = (Ok (Ok a), t)"
  shows "f s = (Ok (Ok a), t)"
proof -
  obtain res u where u: "f s = (Ok res, u)"
    "(if \<not> is_ok res then try_bind (rollback lib (rollbacks s)) (\<lambda>_. return_ok res) else return_ok res) u = (Ok (Ok a), t)"
    using assms unfolding execute_with_rollback_def Let_def by (rule try_bind_OkE)
  then show ?thesis by (cases res) (auto elim!: try_bind_OkE)
qed

lemma coinbase_balance_OkD:
  assumes "coinbase_balance lib ctx s = (Ok b, t)"
  shows "t = s \<and> state_balance lib (ctx_beneficiary ctx) (pbf_state s) = Ok b"
  using assms by (auto simp: coinbase_balance_def read_state_def split: sum.splits)

lemma coinbase_balance_I256_OkD:
  assumes "coinbase_balance_I256 lib ctx s = (Ok b, t)"
  shows "t = s \<and> (\<exists>v. state_balance lib (ctx_beneficiary ctx) (pbf_state s) = Ok v \<and> b = uint v \<and> uint v < 2 ^ 255)"
  using assms unfolding coinbase_balance_I256_def
  by (auto elim!: try_bind_OkE dest!: coinbase_balance_OkD simp: I256_try_from_def split: if_splits)

lemma run_tx_frame:
  "rollbacks (snd (run_tx lib ctx tx s)) = rollbacks s" "pbf_state (snd (run_tx lib ctx tx s)) = pbf_state s"
  by (simp_all add: run_tx_def Let_def split: prod.split sum.split option.split)

definition balance_in :: "'w evm_lib \<Rightarrow> BlockBuildingContext \<Rightarrow> 'w PartialBlockFork \<Rightarrow> U256" where
  "balance_in lib ctx s = (case state_balance lib (ctx_beneficiary ctx) (pbf_state s) of Ok b \<Rightarrow> b | Err _ \<Rightarrow> 0)"

lemma commit_tx_result_OkD:
  assumes "commit_tx_result lib ctx tx ss before res used s = (Ok (Ok ok), t)"
  shows "tei_tx (to_tx_info ok) = tx" and "to_cumulative_space_used ok = BlockSpace_add (ss_space_used ss) (to_space_used ok)"
    and "rcp_cumulative_gas_used (tei_receipt (to_tx_info ok)) = gas (ss_space_used ss) + gas (to_space_used ok)"
    and "rlp_length (to_space_used ok) = length_eip7934 tx" and "blob_gas (to_space_used ok) = blobs_gas_used tx"
    and "to_nonce_updated ok = (tx_signer tx, tx_nonce tx + 1)"
    and "tei_coinbase_profit (to_tx_info ok) = uint (balance_in lib ctx t) - before"
    and "uint (balance_in lib ctx t) < 2 ^ 255"
  using assms unfolding commit_tx_result_def Let_def
  by (auto elim!: try_bind_OkE dest!: coinbase_balance_I256_OkD
      simp: to_space_used_def ss_gas_used_def balance_in_def split: sum.splits)

lemma commit_tx_OkD:
  assumes "commit_tx lib ctx tx ss s = (Ok (Ok ok), t)"
  shows "can_fit_tx ctx (tx_space_needed tx) (blobs_gas_used tx) ss = Ok ()"
    and "tei_tx (to_tx_info ok) = tx" and "to_cumulative_space_used ok = BlockSpace_add (ss_space_used ss) (to_space_used ok)"
    and "rcp_cumulative_gas_used (tei_receipt (to_tx_info ok)) = gas (ss_space_used ss) + gas (to_space_used ok)"
    and "rlp_length (to_space_used ok) = length_eip7934 tx" and "blob_gas (to_space_used ok) = blobs_gas_used tx"
    and "to_nonce_updated ok = (tx_signer tx, tx_nonce tx + 1)"
    and "tei_coinbase_profit (to_tx_info ok) = uint (balance_in lib ctx t) - uint (balance_in lib ctx s)"
    and "uint (balance_in lib ctx t) < 2 ^ 255" and "\<not> is_blocked ctx tx"
proof -
  obtain before res used u s0 where fit: "can_fit_tx ctx (tx_space_needed tx) (blobs_gas_used tx) ss = Ok ()"
    and nb: "\<not> is_blocked ctx tx" and before: "coinbase_balance_I256 lib ctx s = (Ok before, s0)"
    and commit: "commit_tx_result lib ctx tx ss before res used u = (Ok (Ok ok), t)"
    using assms unfolding commit_tx_def commit_tx_inner_def
    by (auto elim!: try_bind_OkE split: sum.splits if_splits prod.splits)
  have "before = uint (balance_in lib ctx s)"
    using coinbase_balance_I256_OkD [OF before] by (auto simp: balance_in_def)
  with commit_tx_result_OkD [OF commit] fit nb show
    "can_fit_tx ctx (tx_space_needed tx) (blobs_gas_used tx) ss = Ok ()"
    "tei_tx (to_tx_info ok) = tx" "to_cumulative_space_used ok = BlockSpace_add (ss_space_used ss) (to_space_used ok)"
    "rcp_cumulative_gas_used (tei_receipt (to_tx_info ok)) = gas (ss_space_used ss) + gas (to_space_used ok)"
    "rlp_length (to_space_used ok) = length_eip7934 tx" "blob_gas (to_space_used ok) = blobs_gas_used tx"
    "to_nonce_updated ok = (tx_signer tx, tx_nonce tx + 1)"
    "tei_coinbase_profit (to_tx_info ok) = uint (balance_in lib ctx t) - uint (balance_in lib ctx s)"
    "uint (balance_in lib ctx t) < 2 ^ 255" "\<not> is_blocked ctx tx"
    by simp_all
qed

lemma commit_tx_one_revert:
  assumes "commit_tx lib ctx tx ss s = (Ok (Ok ok), t)"
  shows "rollbacks t = rollbacks s + 1 \<and> (\<exists>changes. pbf_state t = db_commit lib (pbf_state s) changes)"
proof -
  obtain before res used u where run: "run_tx lib ctx tx s = (Ok (Ok res, used), u)"
    and commit: "commit_tx_result lib ctx tx ss before res used u = (Ok (Ok ok), t)"
    using assms unfolding commit_tx_def commit_tx_inner_def
    by (auto elim!: try_bind_OkE dest!: coinbase_balance_I256_OkD split: sum.splits if_splits prod.splits)
  have "rollbacks u = rollbacks s" "pbf_state u = pbf_state s"
    using run_tx_frame [of lib ctx tx s] by (simp_all add: run)
  moreover have "rollbacks t = rollbacks u + 1 \<and> pbf_state t = db_commit lib (pbf_state u) (ras_state res)"
    using commit unfolding commit_tx_result_def Let_def
    by (auto elim!: try_bind_OkE dest!: coinbase_balance_I256_OkD simp: commit_state_def)
  ultimately show ?thesis by auto
qed

lemma bundle_inv_start: "bundle_inv ctx (ss_space_used ss) reserved (BundleOk_start ss)"
  by (simp add: bundle_inv_def BundleOk_start_def last_nonces_def)

lemma bundle_inv_accumulate:
  assumes "bundle_inv ctx start reserved b"
    and "commit_tx lib ctx tx (bo_space_state b reserved) s = (Ok (Ok ok), t)"
  shows "bundle_inv ctx start reserved (accumulate_tx_execution ok b)"
proof -
  note ok = commit_tx_OkD [OF assms(2)]
  have "within ctx (BlockSpace_add (bo_cumulative_space_used b) (to_space_used ok)) reserved"
    if "within ctx (bo_cumulative_space_used b) reserved" "info_sane ctx (to_tx_info ok)"
    using within_step [OF that ok(2)] ok(1,5,6) by (simp add: bo_space_state_def to_space_used_def)
  then show ?thesis
    using assms(1) ok(2-7,10)
    by (auto simp: bundle_inv_def accumulate_tx_execution_def BlockSpace_add_assign_eq total_space_append to_space_used_def
        bo_space_state_def receipts_ok_append BlockSpace_add_assoc distinct_update_nonce_list map_of_update_nonce_list
        last_nonces_append last_nonces_single)
qed

lemma bundle_inv_other_fields:
  assumes "bundle_inv ctx start reserved b"
  shows "bundle_inv ctx start reserved (b\<lparr>bo_paid_kickbacks := k\<rparr>)" "bundle_inv ctx start reserved (b\<lparr>bo_delayed_kickback := d\<rparr>)"
  using assms by (auto simp: bundle_inv_def)

lemma bundle_inv_payout:
  assumes "bundle_inv ctx start reserved b"
    and "insert_refund_payout_tx lib ctx payout to reserved b s = (Ok (Ok b'), t)"
  shows "bundle_inv ctx start reserved b'"
proof -
  obtain tx res s' t' where "commit_tx lib ctx tx (bo_space_state b reserved) s' = (Ok (Ok res), t')"
    "b' = (accumulate_tx_execution res b)\<lparr>bo_paid_kickbacks :=
      bo_paid_kickbacks (accumulate_tx_execution res b) @ [(to, rp_tx_value payout)]\<rparr>"
    using assms(2) unfolding insert_refund_payout_tx_def Let_def
    by (auto elim!: try_bind_OkE split: sum.splits if_splits)
  then show ?thesis using bundle_inv_other_fields(1) [OF bundle_inv_accumulate [OF assms(1)]] by blast
qed

lemma bundle_txs_loop_ConsE:
  assumes "bundle_txs_loop lib ctx bundle reserved skip (tx # txs) r ins s = (Ok (Ok res), t)"
  obtains
    (included) ok u r' where "commit_tx lib ctx tx (bo_space_state ins reserved) s = (Ok (Ok ok), u)"
      "rcp_success (tei_receipt (to_tx_info ok)) \<or> tx_hash tx \<in> set (b_reverting_tx_hashes bundle)"
      "bundle_txs_loop lib ctx bundle reserved skip txs r' (accumulate_tx_execution ok ins) u = (Ok (Ok res), t)"
  | (skipped) u where "tx_hash tx \<in> set (b_dropping_tx_hashes bundle) \<or> (skip \<and> tx_hash tx \<in> set (b_reverting_tx_hashes bundle))"
      "bundle_txs_loop lib ctx bundle reserved skip txs r ins u = (Ok (Ok res), t)"
  using assms unfolding bundle_txs_loop.simps Let_def
  by (elim try_bind_OkE) (auto elim!: try_bind_OkE split: sum.splits if_splits)

lemma bundle_inv_loop:
  assumes "bundle_inv ctx start reserved ins"
    and "bundle_txs_loop lib ctx bundle reserved skip txs r ins s = (Ok (Ok (r', ins')), t)"
  shows "bundle_inv ctx start reserved ins'"
  using assms
proof (induction txs arbitrary: r ins s)
  case Nil
  then show ?case by simp
next
  case (Cons tx txs)
  from Cons.prems(2) show ?case
  proof (cases rule: bundle_txs_loop_ConsE)
    case (included ok u r'')
    then show ?thesis using Cons.IH bundle_inv_accumulate [OF Cons.prems(1)] by blast
  next
    case (skipped u)
    then show ?thesis using Cons.IH [OF Cons.prems(1)] by blast
  qed
qed

lemma bundle_inv_refund:
  assumes "bundle_inv ctx start reserved ins"
    and "bundle_refund lib ctx bundle reserved combined r ins s = (Ok (Ok ins'), t)"
  shows "bundle_inv ctx start reserved ins'"
  using assms(2) unfolding bundle_refund_def Let_def
  by (auto elim!: try_bind_OkE dest: bundle_inv_payout [OF assms(1)] simp: bundle_inv_other_fields [OF assms(1)] assms(1)
      split: option.splits sum.splits if_splits)

lemma commit_bundle_OkE:
  assumes "commit_bundle lib ctx bundle ss skip combined s = (Ok (Ok ok), t)"
  obtains r ins u where
    "bundle_txs_loop lib ctx bundle (ss_reserved_block_space ss) skip (b_txs bundle) 0 (BundleOk_start ss) s = (Ok (Ok (r, ins)), u)"
    "gas (bo_space_used ins) \<noteq> 0"
    "bundle_refund lib ctx bundle (ss_reserved_block_space ss) combined r ins u = (Ok (Ok ok), t)"
proof -
  have "commit_bundle_no_rollback lib ctx bundle ss skip combined s = (Ok (Ok ok), t)"
    using assms unfolding commit_bundle_def Let_def
    by (auto dest: execute_with_rollback_OkD split: option.splits if_splits)
  then show ?thesis
    using that unfolding commit_bundle_no_rollback_def Let_def
    by (auto elim!: try_bind_OkE split: sum.splits prod.splits if_splits)
qed

lemma bundle_inv_commit_bundle:
  assumes "commit_bundle lib ctx bundle ss skip combined s = (Ok (Ok ok), t)"
  shows "bundle_inv ctx (ss_space_used ss) (ss_reserved_block_space ss) ok"
  using assms by (rule commit_bundle_OkE) (rule bundle_inv_refund [OF bundle_inv_loop [OF bundle_inv_start]])

lemma bundle_inv_merge:
  assumes "bundle_inv ctx start reserved (sa_insert acc)"
    and "bundle_inv ctx (bo_cumulative_space_used (sa_insert acc)) reserved (sbr_bundle_ok res)"
  shows "bundle_inv ctx start reserved (sa_insert (merge_inner ho oid ref res acc))"
  using assms update_nonce_list_with_updates [of "bo_nonces_updated (sa_insert acc)" "bo_nonces_updated (sbr_bundle_ok res)"]
  by (auto simp: bundle_inv_def merge_inner_def Let_def BlockSpace_add_assign_eq total_space_append
      BlockSpace_add_assoc receipts_ok_append last_nonces_append)

lemma share_finish_OkD:
  "share_finish lib ctx ho body es before acc s = (Ok (Ok res), t) \<Longrightarrow> sbr_bundle_ok res = sa_insert acc"
  unfolding share_finish_def Let_def by (auto elim!: try_bind_OkE split: sum.splits)

lemma share_body_loop_ConsE:
  assumes "share_body_loop lib ctx ho skip reserved es (b # body) idx acc s = (Ok (Ok res), t)"
  obtains
    (tx) stx ok u acc' where "b = Body_Tx stx"
      "commit_tx lib ctx (sbt_tx stx) (bo_space_state (sa_insert acc) reserved) s = (Ok (Ok ok), u)"
      "rcp_success (tei_receipt (to_tx_info ok)) \<or> sbt_revert_behavior stx = AllowedIncluded"
      "share_body_loop lib ctx ho skip reserved es body (Suc idx) acc' u = (Ok (Ok res), t)"
      "sa_insert acc' = accumulate_tx_execution ok (sa_insert acc)"
  | (inner) inner ir u where "b = Body_Bundle inner"
      "commit_share_bundle_inner lib ctx ho skip inner (bo_space_state (sa_insert acc) reserved) s = (Ok (Ok ir), u)"
      "share_body_loop lib ctx ho skip reserved es body (Suc idx)
         (merge_inner ho (sbi_original_order_id inner) (map_of es (of_nat idx) \<noteq> None) ir acc) u = (Ok (Ok res), t)"
  | (skipped) u where
      "case b of Body_Tx stx \<Rightarrow> can_revert (sbt_revert_behavior stx) | Body_Bundle inner \<Rightarrow> sbi_can_skip inner"
      "share_body_loop lib ctx ho skip reserved es body (Suc idx) acc u = (Ok (Ok res), t)"
proof (cases b)
  case (Body_Tx stx)
  then obtain result u where result:
    "commit_tx lib ctx (sbt_tx stx) (bo_space_state (sa_insert acc) reserved) s = (Ok result, u)"
    using assms by (auto simp: Let_def elim!: try_bind_OkE)
  note body = assms [unfolded Body_Tx share_body_loop.simps Let_def try_bind_def result prod.case sum.case]
  show ?thesis
  proof (cases result)
    case (Inl e)
    then show ?thesis using body skipped Body_Tx by (auto split: if_splits)
  next
    case (Inr ok)
    show ?thesis
    proof (cases "rcp_success (tei_receipt (to_tx_info ok)) \<or> sbt_revert_behavior stx = AllowedIncluded")
      case True
      show ?thesis
        by (rule tx [OF Body_Tx _ True]) (use result Inr body True in \<open>auto split: if_splits\<close>)
    next
      case False
      then have "sbt_revert_behavior stx = AllowedExcluded"
        using body Inr by (cases "sbt_revert_behavior stx") auto
      then show ?thesis
        using body Inr False skipped Body_Tx by (auto split: prod.splits sum.splits)
    qed
  qed
next
  case (Body_Bundle inner)
  then show ?thesis
    using assms that(2,3) by (auto elim!: try_bind_OkE split: sum.splits if_splits)
qed

lemma bundle_inv_share_loop:
  assumes "\<And>inner ss s res t. Body_Bundle inner \<in> set body \<Longrightarrow>
      commit_share_bundle_inner lib ctx ho skip inner ss s = (Ok (Ok res), t) \<Longrightarrow>
      bundle_inv ctx (ss_space_used ss) (ss_reserved_block_space ss) (sbr_bundle_ok res)"
    and "bundle_inv ctx start reserved (sa_insert acc)"
    and "share_body_loop lib ctx ho skip reserved es body idx acc s = (Ok (Ok acc'), t)"
  shows "bundle_inv ctx start reserved (sa_insert acc')"
  using assms
proof (induction body arbitrary: idx acc s)
  case Nil
  then show ?case by simp
next
  case (Cons b body)
  have IH: "bundle_inv ctx start reserved (sa_insert acc')"
    if "bundle_inv ctx start reserved (sa_insert acc1)"
      "share_body_loop lib ctx ho skip reserved es body (Suc idx) acc1 u = (Ok (Ok acc'), t)" for acc1 u
    by (rule Cons.IH [OF _ that], rule Cons.prems(1)) simp_all
  from Cons.prems(3) show ?case
  proof (cases rule: share_body_loop_ConsE)
    case (tx stx ok u acc1)
    then show ?thesis using IH [of acc1 u] bundle_inv_accumulate [OF Cons.prems(2) tx(2)] by simp
  next
    case (inner inner ir u)
    then have "bundle_inv ctx (bo_cumulative_space_used (sa_insert acc)) reserved (sbr_bundle_ok ir)"
      using Cons.prems(1) [OF _ inner(2)] by (simp add: bo_space_state_def)
    from IH [OF bundle_inv_merge [OF Cons.prems(2) this] inner(3)] show ?thesis .
  next
    case (skipped u)
    from IH [OF Cons.prems(2) skipped(2)] show ?thesis .
  qed
qed

lemma commit_share_bundle_inner_OkE:
  assumes "commit_share_bundle_inner lib ctx ho skip inner ss s = (Ok (Ok res), t)"
  obtains acc s0 t0 where
    "share_body_loop lib ctx ho skip (ss_reserved_block_space ss) (refundable_elements (sbi_refund inner)) (sbi_body inner) 0
      \<lparr>sa_insert = BundleOk_start ss, sa_refundable_profit = 0, sa_inner_payouts = []\<rparr> s0 = (Ok (Ok acc), t0)"
    "sbr_bundle_ok res = sa_insert acc"
proof (cases inner)
  case (ShareBundleInner body refund refund_config can_skip oid)
  show ?thesis
    using assms that unfolding ShareBundleInner commit_share_bundle_inner.simps
    by (auto dest!: execute_with_rollback_OkD share_finish_OkD elim!: try_bind_OkE split: sum.splits)
qed

lemma bundle_inv_share_inner:
  "commit_share_bundle_inner lib ctx ho skip inner ss s = (Ok (Ok res), t) \<Longrightarrow>
    bundle_inv ctx (ss_space_used ss) (ss_reserved_block_space ss) (sbr_bundle_ok res)"
proof (induction inner arbitrary: ss s res t rule: share_bundle_induct)
  case (Inner body refund refund_config can_skip oid)
  from Inner.prems obtain acc s0 t0 where loop:
    "share_body_loop lib ctx ho skip (ss_reserved_block_space ss) (refundable_elements refund) body 0
      \<lparr>sa_insert = BundleOk_start ss, sa_refundable_profit = 0, sa_inner_payouts = []\<rparr> s0 = (Ok (Ok acc), t0)"
    "sbr_bundle_ok res = sa_insert acc"
    by (rule commit_share_bundle_inner_OkE) simp
  show ?case
    unfolding loop(2) by (rule bundle_inv_share_loop [OF Inner.IH _ loop(1)]) (simp_all add: bundle_inv_start)
qed

lemma bundle_inv_pay_kickbacks:
  assumes "bundle_inv ctx start reserved ins"
    and "pay_kickbacks lib ctx reserved ps ins s = (Ok (Ok ins'), t)"
  shows "bundle_inv ctx start reserved ins'"
  using assms
proof (induction ps arbitrary: ins s)
  case Nil
  then show ?case by simp
next
  case (Cons p ps)
  obtain to payout where p: "p = (to, payout)" by (cases p)
  obtain ins1 u where "insert_refund_payout_tx lib ctx payout to reserved ins s = (Ok (Ok ins1), u)"
    "pay_kickbacks lib ctx reserved ps ins1 u = (Ok (Ok ins'), t)"
    using Cons.prems(2) unfolding p by (auto elim!: try_bind_OkE split: sum.splits)
  then show ?case using Cons.IH [OF bundle_inv_payout [OF Cons.prems(1)]] by blast
qed

lemma commit_share_bundle_OkE:
  assumes "commit_share_bundle lib ctx ho bundle ss skip s = (Ok (Ok ok), t)"
  obtains r u where
    "commit_share_bundle_inner lib ctx ho skip (sb_inner_bundle bundle) ss s = (Ok (Ok r), u)"
    "pay_kickbacks lib ctx (ss_reserved_block_space ss) (sort_key fst (ho_promissed ho (payouts_promissed r)))
      (sbr_bundle_ok r) u = (Ok (Ok ok), t)"
proof -
  have "commit_share_bundle_no_rollback lib ctx ho bundle ss skip s = (Ok (Ok ok), t)"
    using assms unfolding commit_share_bundle_def Let_def
    by (auto dest: execute_with_rollback_OkD split: if_splits)
  then show ?thesis
    using that unfolding commit_share_bundle_no_rollback_def by (auto elim!: try_bind_OkE split: sum.splits)
qed

lemma bundle_inv_commit_share_bundle:
  assumes "commit_share_bundle lib ctx ho bundle ss skip s = (Ok (Ok ok), t)"
  shows "bundle_inv ctx (ss_space_used ss) (ss_reserved_block_space ss) ok"
  using assms by (rule commit_share_bundle_OkE) (rule bundle_inv_pay_kickbacks [OF bundle_inv_share_inner])

lemma bundle_to_order_result_OkE:
  assumes "bundle_to_order_result lib ctx res before s = (Ok (Ok ok), t)"
  obtains b balance where "res = Ok b" "t = s" "state_balance lib (ctx_beneficiary ctx) (pbf_state s) = Ok balance"
    "oo_space_used ok = bo_space_used b" "oo_cumulative_space_used ok = bo_cumulative_space_used b"
    "oo_tx_infos ok = bo_tx_infos b" "oo_nonces_updated ok = bo_nonces_updated b"
    "oo_delayed_kickback ok = bo_delayed_kickback b" "oo_paid_kickbacks ok = bo_paid_kickbacks b"
    "before + (case bo_delayed_kickback b of None \<Rightarrow> 0 | Some r \<Rightarrow> dk_payout_value r + dk_payout_tx_fee r) \<le> balance"
    "oo_coinbase_profit ok =
      balance - (before + (case bo_delayed_kickback b of None \<Rightarrow> 0 | Some r \<Rightarrow> dk_payout_value r + dk_payout_tx_fee r))"
  using assms unfolding bundle_to_order_result_def coinbase_profit_when_refunds_def Let_def
  by (auto elim!: try_bind_OkE dest!: coinbase_balance_OkD split: sum.splits if_splits)

text \<open>The three ways in which an order succeeds.\<close>

lemma commit_order_OkE:
  assumes "commit_order lib ctx ho od ss skip combined s = (Ok (Ok ok), t)"
  obtains
    (tx) tx tok where "od = Order_Tx tx" "commit_tx lib ctx (tx_with_blobs tx) ss s = (Ok (Ok tok), t)"
      "oo_space_used ok = to_space_used tok" "oo_cumulative_space_used ok = to_cumulative_space_used tok"
      "oo_tx_infos ok = [to_tx_info tok]" "oo_nonces_updated ok = [to_nonce_updated tok]" "oo_delayed_kickback ok = None"
      "oo_paid_kickbacks ok = []"
      "oo_coinbase_profit ok = (if tei_coinbase_profit (to_tx_info tok) < 0 then 0 else word_of_int (tei_coinbase_profit (to_tx_info tok)))"
      "0 \<le> tei_coinbase_profit (to_tx_info tok) \<or> is_system (tx_metadata (tx_with_blobs tx))"
  | (any_bundle) b before balance where
      "(\<exists>bundle. od = Order_Bundle bundle \<and> commit_bundle lib ctx bundle ss skip combined s = (Ok (Ok b), t)) \<or>
       (\<exists>bundle. od = Order_ShareBundle bundle \<and> commit_share_bundle lib ctx ho bundle ss skip s = (Ok (Ok b), t))"
      "state_balance lib (ctx_beneficiary ctx) (pbf_state s) = Ok before"
      "state_balance lib (ctx_beneficiary ctx) (pbf_state t) = Ok balance"
      "oo_space_used ok = bo_space_used b" "oo_cumulative_space_used ok = bo_cumulative_space_used b"
      "oo_tx_infos ok = bo_tx_infos b" "oo_nonces_updated ok = bo_nonces_updated b"
      "oo_delayed_kickback ok = bo_delayed_kickback b" "oo_paid_kickbacks ok = bo_paid_kickbacks b"
      "before + (case bo_delayed_kickback b of None \<Rightarrow> 0 | Some r \<Rightarrow> dk_payout_value r + dk_payout_tx_fee r) \<le> balance"
      "oo_coinbase_profit ok =
        balance - (before + (case bo_delayed_kickback b of None \<Rightarrow> 0 | Some r \<Rightarrow> dk_payout_value r + dk_payout_tx_fee r))"
proof -
  have run: "commit_order_no_rollback lib ctx ho od ss skip combined s = (Ok (Ok ok), t)"
    using assms unfolding commit_order_def by (rule execute_with_rollback_OkD)
  show ?thesis
  proof (cases od)
    case (Order_Tx x)
    obtain a u where a: "commit_tx lib ctx (tx_with_blobs x) ss s = (Ok a, u)"
      using run unfolding commit_order_no_rollback_def Order_Tx Order.case by (rule try_bind_OkE)
    note body = run [unfolded commit_order_no_rollback_def Order_Tx Order.case Let_def try_bind_def a prod.case sum.case]
    obtain tok where tok: "a = Ok tok" using body by (cases a) auto
    show ?thesis
      by (rule tx [OF Order_Tx, of tok]) (use a tok body in \<open>auto split: if_splits\<close>)
  next
    case (Order_Bundle x)
    show ?thesis
      using run unfolding commit_order_no_rollback_def Order_Bundle Order.case
      by (elim try_bind_OkE bundle_to_order_result_OkE) (rule any_bundle; auto dest!: coinbase_balance_OkD simp: Order_Bundle)
  next
    case (Order_ShareBundle x)
    show ?thesis
      using run unfolding commit_order_no_rollback_def Order_ShareBundle Order.case
      by (elim try_bind_OkE bundle_to_order_result_OkE) (rule any_bundle; auto dest!: coinbase_balance_OkD simp: Order_ShareBundle)
  qed
qed

section \<open>What an order promises about its transactions\<close>

text \<open>
  An order as a list of transactions and nested bundles, and the executions it allows: a transaction is
  executed and succeeds, or may revert and be included, or is left out where that is allowed; a nested bundle is
  executed as a whole or, when it may be skipped, left out as a whole.
\<close>

fun order_body :: "Order \<Rightarrow> ShareBundleBody list" where
  "order_body (Order_ShareBundle sb) = sbi_body (sb_inner_bundle sb)"
| "order_body od = map (\<lambda>(tx, rb). Body_Tx \<lparr>sbt_tx = tx, sbt_revert_behavior = rb\<rparr>) (list_txs_revert od)"

inductive executes :: "ShareBundleBody list \<Rightarrow> TransactionExecutionInfo list \<Rightarrow> bool" where
  exec_nil: "executes [] []"
| run_tx: "tei_tx i = sbt_tx stx \<Longrightarrow> rcp_success (tei_receipt i) \<or> sbt_revert_behavior stx = AllowedIncluded \<Longrightarrow>
    executes body infos \<Longrightarrow> executes (Body_Tx stx # body) (i # infos)"
| skip_tx: "can_revert (sbt_revert_behavior stx) \<Longrightarrow> executes body infos \<Longrightarrow> executes (Body_Tx stx # body) infos"
| run_bundle: "executes (sbi_body inner) xs \<Longrightarrow> executes body infos \<Longrightarrow> executes (Body_Bundle inner # body) (xs @ infos)"
| skip_bundle: "sbi_can_skip inner \<Longrightarrow> executes body infos \<Longrightarrow> executes (Body_Bundle inner # body) infos"

text \<open>The transactions that no execution may leave out or let revert.\<close>

fun inner_mandatory_txs :: "ShareBundleInner \<Rightarrow> TransactionSignedEcRecoveredWithBlobs list"
  and body_mandatory_txs :: "ShareBundleBody \<Rightarrow> TransactionSignedEcRecoveredWithBlobs list" where
  "inner_mandatory_txs (ShareBundleInner body _ _ can_skip _) = (if can_skip then [] else concat (map body_mandatory_txs body))"
| "body_mandatory_txs (Body_Tx stx) = (if can_revert (sbt_revert_behavior stx) then [] else [sbt_tx stx])"
| "body_mandatory_txs (Body_Bundle inner) = inner_mandatory_txs inner"

lemma inner_lists:
  "inner_mandatory_txs inner = (if sbi_can_skip inner then [] else concat (map body_mandatory_txs (sbi_body inner)))"
  "inner_list_txs_revert inner = concat (map body_list_txs_revert (sbi_body inner))"
  by (cases inner; simp)+

lemma executes_subseq:
  "executes body infos \<Longrightarrow> subseq (map tei_tx infos) (map fst (concat (map body_list_txs_revert body)))"
  by (induction rule: executes.induct) (auto simp: inner_lists intro: list_emb_append_mono)

lemma executes_mandatory:
  "executes body infos \<Longrightarrow>
    subseq (concat (map body_mandatory_txs body)) (map tei_tx (filter (\<lambda>i. rcp_success (tei_receipt i)) infos))"
proof (induction rule: executes.induct)
  case (run_bundle inner infos1 body infos2)
  then show ?case by (auto simp: inner_lists intro: list_emb_append_mono list_emb_append2)
qed (auto simp: inner_lists)

text \<open>A payout transaction of the builder.\<close>

definition pays :: "BlockBuildingContext \<Rightarrow> TransactionExecutionInfo \<Rightarrow> address \<times> U256 \<Rightarrow> bool" where
  "pays ctx i p \<longleftrightarrow> rcp_success (tei_receipt i) \<and> tx_to (tei_tx i) = Some (fst p) \<and> tx_value (tei_tx i) = snd p \<and>
     tx_signer (tei_tx i) = sg_address (ctx_builder_signer ctx)"

text \<open>What was inserted from one point to a later one.\<close>

definition extends :: "BundleOk \<Rightarrow> TransactionExecutionInfo list \<Rightarrow> BundleOk \<Rightarrow> bool" where
  "extends b infos b' \<longleftrightarrow> bo_tx_infos b' = bo_tx_infos b @ infos \<and> bo_paid_kickbacks b' = bo_paid_kickbacks b"

definition pays_out :: "BlockBuildingContext \<Rightarrow> BundleOk \<Rightarrow> BundleOk \<Rightarrow> bool" where
  "pays_out ctx b b' \<longleftrightarrow> (\<exists>infos ps. bo_tx_infos b' = bo_tx_infos b @ infos \<and>
     bo_paid_kickbacks b' = bo_paid_kickbacks b @ ps \<and> list_all2 (pays ctx) infos ps)"

lemma extends_accumulate: "extends b [to_tx_info ok] (accumulate_tx_execution ok b)"
  by (simp add: extends_def accumulate_tx_execution_def)

lemma extends_trans: "extends a xs b \<Longrightarrow> extends b ys c \<Longrightarrow> extends a (xs @ ys) c"
  by (simp add: extends_def)

lemma extends_merge:
  "extends (BundleOk_start ss) xs (sbr_bundle_ok res) \<Longrightarrow>
    extends (sa_insert acc) xs (sa_insert (merge_inner ho oid ref res acc))"
  by (simp add: extends_def merge_inner_def BundleOk_start_def Let_def)

lemma pays_out_refl: "bo_tx_infos b' = bo_tx_infos b \<Longrightarrow> bo_paid_kickbacks b' = bo_paid_kickbacks b \<Longrightarrow> pays_out ctx b b'"
  by (simp add: pays_out_def)

lemma pays_out_trans:
  assumes "pays_out ctx a b" and "pays_out ctx b c"
  shows "pays_out ctx a c"
proof -
  obtain xs ps ys qs where "bo_tx_infos b = bo_tx_infos a @ xs" "bo_paid_kickbacks b = bo_paid_kickbacks a @ ps"
    "list_all2 (pays ctx) xs ps" "bo_tx_infos c = bo_tx_infos b @ ys" "bo_paid_kickbacks c = bo_paid_kickbacks b @ qs"
    "list_all2 (pays ctx) ys qs"
    using assms unfolding pays_out_def by blast
  then show ?thesis
    unfolding pays_out_def by (intro exI [of _ "xs @ ys"] exI [of _ "ps @ qs"]) (simp add: list_all2_appendI)
qed

lemma payout_tx_fields:
  assumes "create_payout_tx lib chain_id basefee signer nonce to gas_limit v = Ok r" and "no_blobs_unwrap lib r = Ok tx"
  shows "tx_to tx = Some to \<and> tx_value tx = v \<and> tx_signer tx = sg_address signer"
  using assms
  by (auto simp: create_payout_tx_def sign_tx_def no_blobs_unwrap_def TxWithBlobs_new_no_blobs_def TxWithBlobs_new_def
      tx_to_def tx_value_def tx_signer_def split: sum.splits if_splits option.splits)

lemma pays_out_payout:
  assumes "insert_refund_payout_tx lib ctx payout to reserved b s = (Ok (Ok b'), t)"
  shows "pays_out ctx b b'"
proof -
  obtain nonce r tx res s' t' where
    tx: "create_payout_tx lib (ctx_chain_id ctx) (ctx_basefee ctx) (ctx_builder_signer ctx) nonce to
        (gas (rp_space_limit payout)) (rp_tx_value payout) = Ok r" "no_blobs_unwrap lib r = Ok tx"
    and res: "commit_tx lib ctx tx (bo_space_state b reserved) s' = (Ok (Ok res), t')"
      "rcp_success (tei_receipt (to_tx_info res))"
    and b': "b' = (accumulate_tx_execution res b)\<lparr>bo_paid_kickbacks :=
      bo_paid_kickbacks (accumulate_tx_execution res b) @ [(to, rp_tx_value payout)]\<rparr>"
    using assms unfolding insert_refund_payout_tx_def Let_def
    by (auto elim!: try_bind_OkE split: sum.splits if_splits)
  have "pays ctx (to_tx_info res) (to, rp_tx_value payout)"
    using payout_tx_fields [OF tx] commit_tx_OkD(2) [OF res(1)] res(2) by (simp add: pays_def)
  then show ?thesis
    unfolding pays_out_def b' accumulate_tx_execution_def
    by (intro exI [of _ "[to_tx_info res]"] exI [of _ "[(to, rp_tx_value payout)]"]) simp
qed

lemma pays_out_refund:
  assumes "bundle_refund lib ctx bundle reserved combined r ins s = (Ok (Ok ins'), t)"
  shows "pays_out ctx ins ins'"
  using assms unfolding bundle_refund_def Let_def
  by (auto elim!: try_bind_OkE dest: pays_out_payout simp: pays_out_refl split: option.splits sum.splits if_splits)

lemma pays_out_pay_kickbacks:
  "pay_kickbacks lib ctx reserved ps ins s = (Ok (Ok ins'), t) \<Longrightarrow> pays_out ctx ins ins'"
proof (induction ps arbitrary: ins s)
  case Nil
  then show ?case by (simp add: pays_out_refl)
next
  case (Cons p ps)
  obtain to payout where p: "p = (to, payout)" by (cases p)
  obtain ins1 u where "insert_refund_payout_tx lib ctx payout to reserved ins s = (Ok (Ok ins1), u)"
    "pay_kickbacks lib ctx reserved ps ins1 u = (Ok (Ok ins'), t)"
    using Cons.prems unfolding p by (auto elim!: try_bind_OkE split: sum.splits)
  then show ?case using pays_out_trans [OF pays_out_payout Cons.IH] by blast
qed

definition bundle_body :: "Bundle \<Rightarrow> TransactionSignedEcRecoveredWithBlobs \<Rightarrow> ShareBundleBody" where
  "bundle_body bundle tx = Body_Tx \<lparr>sbt_tx = tx, sbt_revert_behavior =
     (if tx_hash tx \<in> set (b_reverting_tx_hashes bundle) then AllowedIncluded
      else if tx_hash tx \<in> set (b_dropping_tx_hashes bundle) then AllowedExcluded else NotAllowed)\<rparr>"

lemma order_body_bundle: "order_body (Order_Bundle bundle) = map (bundle_body bundle) (b_txs bundle)"
  by (simp add: Bundle_list_txs_revert_def bundle_body_def)

lemma executes_bundle_loop:
  assumes "bundle_txs_loop lib ctx bundle reserved skip txs r ins s = (Ok (Ok (r', ins')), t)"
  shows "\<exists>infos. extends ins infos ins' \<and> executes (map (bundle_body bundle) txs) infos"
  using assms
proof (induction txs arbitrary: r ins s)
  case Nil
  then show ?case by (auto simp: extends_def intro: executes.exec_nil)
next
  case (Cons tx txs)
  from Cons.prems show ?case
  proof (cases rule: bundle_txs_loop_ConsE)
    case (included ok u r'')
    then obtain infos where infos: "extends (accumulate_tx_execution ok ins) infos ins'"
      "executes (map (bundle_body bundle) txs) infos"
      using Cons.IH by blast
    have "executes (map (bundle_body bundle) (tx # txs)) (to_tx_info ok # infos)"
      using infos(2) included(2) commit_tx_OkD(2) [OF included(1)]
      by (auto simp: bundle_body_def intro!: executes.run_tx)
    then show ?thesis using extends_trans [OF extends_accumulate infos(1)] by auto
  next
    case (skipped u)
    then obtain infos where infos: "extends ins infos ins'"
      "executes (map (bundle_body bundle) txs) infos"
      using Cons.IH by blast
    have "executes (map (bundle_body bundle) (tx # txs)) infos"
      using infos(2) skipped(1)
      by (auto simp: bundle_body_def intro!: executes.skip_tx)
    then show ?thesis using infos(1) by blast
  qed
qed

lemma executes_share_loop:
  assumes "\<And>inner ss s res t. Body_Bundle inner \<in> set body \<Longrightarrow>
      commit_share_bundle_inner lib ctx ho skip inner ss s = (Ok (Ok res), t) \<Longrightarrow>
      \<exists>infos. extends (BundleOk_start ss) infos (sbr_bundle_ok res) \<and> executes (sbi_body inner) infos"
    and "share_body_loop lib ctx ho skip reserved es body idx acc s = (Ok (Ok acc'), t)"
  shows "\<exists>infos. extends (sa_insert acc) infos (sa_insert acc') \<and> executes body infos"
  using assms
proof (induction body arbitrary: idx acc s)
  case Nil
  then show ?case by (auto simp: extends_def intro: executes.exec_nil)
next
  case (Cons b body)
  have IH: "\<exists>infos. extends (sa_insert acc1) infos (sa_insert acc') \<and> executes body infos"
    if "share_body_loop lib ctx ho skip reserved es body (Suc idx) acc1 u = (Ok (Ok acc'), t)" for acc1 u
    by (rule Cons.IH [OF _ that], rule Cons.prems(1)) simp_all
  from Cons.prems(2) show ?case
  proof (cases rule: share_body_loop_ConsE)
    case (tx stx ok u acc1)
    obtain infos where infos: "extends (sa_insert acc1) infos (sa_insert acc')" "executes body infos"
      using IH [OF tx(4)] by blast
    have "extends (sa_insert acc) (to_tx_info ok # infos) (sa_insert acc')"
      using extends_trans [OF extends_accumulate infos(1) [unfolded tx(5)]] by simp
    moreover have "executes (b # body) (to_tx_info ok # infos)"
      unfolding tx(1) using infos(2) tx(3) commit_tx_OkD(2) [OF tx(2)] by (auto intro: executes.run_tx)
    ultimately show ?thesis by blast
  next
    case (inner inner ir u)
    obtain infos where infos: "extends (sa_insert (merge_inner ho (sbi_original_order_id inner)
        (map_of es (of_nat idx) \<noteq> None) ir acc)) infos (sa_insert acc')" "executes body infos"
      using IH [OF inner(3)] by blast
    obtain ys where ys: "extends (BundleOk_start (bo_space_state (sa_insert acc) reserved)) ys (sbr_bundle_ok ir)"
      "executes (sbi_body inner) ys"
      using Cons.prems(1) [OF _ inner(2)] inner(1) by auto
    show ?thesis
      using extends_trans [OF extends_merge [OF ys(1)] infos(1)] executes.run_bundle [OF ys(2) infos(2)]
      unfolding inner(1) by blast
  next
    case (skipped u)
    obtain infos where "extends (sa_insert acc) infos (sa_insert acc')" "executes body infos"
      using IH [OF skipped(2)] by blast
    then show ?thesis
      using skipped(1) by (cases b) (auto intro: executes.skip_tx executes.skip_bundle)
  qed
qed

lemma executes_share_inner:
  "commit_share_bundle_inner lib ctx ho skip inner ss s = (Ok (Ok res), t) \<Longrightarrow>
    \<exists>infos. extends (BundleOk_start ss) infos (sbr_bundle_ok res) \<and> executes (sbi_body inner) infos"
proof (induction inner arbitrary: ss s res t rule: share_bundle_induct)
  case (Inner body refund refund_config can_skip oid)
  from Inner.prems obtain acc s0 t0 where loop:
    "share_body_loop lib ctx ho skip (ss_reserved_block_space ss) (refundable_elements refund) body 0
      \<lparr>sa_insert = BundleOk_start ss, sa_refundable_profit = 0, sa_inner_payouts = []\<rparr> s0 = (Ok (Ok acc), t0)"
    "sbr_bundle_ok res = sa_insert acc"
    by (rule commit_share_bundle_inner_OkE) simp
  show ?case using executes_share_loop [OF Inner.IH loop(1)] by (simp add: loop(2))
qed

lemma executes_then_pays:
  assumes "extends (BundleOk_start ss) infos ins" and "executes body infos" and "pays_out ctx ins b"
  shows "\<exists>front payouts. bo_tx_infos b = front @ payouts \<and> executes body front \<and>
    list_all2 (pays ctx) payouts (bo_paid_kickbacks b)"
  using assms by (auto simp: extends_def pays_out_def BundleOk_start_def)

lemma executes_commit_bundle:
  assumes "commit_bundle lib ctx bundle ss skip combined s = (Ok (Ok b), t)"
  shows "\<exists>front payouts. bo_tx_infos b = front @ payouts \<and> executes (order_body (Order_Bundle bundle)) front \<and>
    list_all2 (pays ctx) payouts (bo_paid_kickbacks b)"
  using assms
proof (rule commit_bundle_OkE)
  fix r ins u
  assume loop: "bundle_txs_loop lib ctx bundle (ss_reserved_block_space ss) skip (b_txs bundle) 0 (BundleOk_start ss) s = (Ok (Ok (r, ins)), u)"
    and refund: "bundle_refund lib ctx bundle (ss_reserved_block_space ss) combined r ins u = (Ok (Ok b), t)"
  obtain infos where "extends (BundleOk_start ss) infos ins" "executes (order_body (Order_Bundle bundle)) infos"
    using executes_bundle_loop [OF loop] by (auto simp only: order_body_bundle)
  from executes_then_pays [OF this pays_out_refund [OF refund]] show ?thesis .
qed

lemma executes_commit_share_bundle:
  assumes "commit_share_bundle lib ctx ho bundle ss skip s = (Ok (Ok b), t)"
  shows "\<exists>front payouts. bo_tx_infos b = front @ payouts \<and> executes (order_body (Order_ShareBundle bundle)) front \<and>
    list_all2 (pays ctx) payouts (bo_paid_kickbacks b)"
  using assms
proof (rule commit_share_bundle_OkE)
  fix r u
  assume inner: "commit_share_bundle_inner lib ctx ho skip (sb_inner_bundle bundle) ss s = (Ok (Ok r), u)"
    and pay: "pay_kickbacks lib ctx (ss_reserved_block_space ss) (sort_key fst (ho_promissed ho (payouts_promissed r)))
      (sbr_bundle_ok r) u = (Ok (Ok b), t)"
  obtain infos where "extends (BundleOk_start ss) infos (sbr_bundle_ok r)" "executes (sbi_body (sb_inner_bundle bundle)) infos"
    using executes_share_inner [OF inner] by blast
  from executes_then_pays [OF this pays_out_pay_kickbacks [OF pay]] show ?thesis by simp
qed

lemma order_body_txs: "concat (map body_list_txs_revert (order_body od)) = list_txs_revert od"
  by (cases od) (auto simp: ShareBundle_list_txs_revert_def inner_lists Bundle_list_txs_revert_def comp_def case_prod_beta)

lemma order_executes:
  assumes "commit_order lib ctx ho od ss skip combined s = (Ok (Ok ok), t)"
  shows "\<exists>front payouts. oo_tx_infos ok = front @ payouts \<and> executes (order_body od) front \<and>
    list_all2 (pays ctx) payouts (oo_paid_kickbacks ok)"
  using assms
proof (cases rule: commit_order_OkE)
  case (tx tx tok)
  have "executes (order_body od) [to_tx_info tok]"
    using commit_tx_OkD(2) [OF tx(2)] by (auto simp: tx(1) intro!: executes.run_tx executes.exec_nil)
  then show ?thesis using tx by (intro exI [of _ "[to_tx_info tok]"] exI [of _ "[]"]) simp
next
  case (any_bundle b before balance)
  then show ?thesis using executes_commit_bundle executes_commit_share_bundle by fastforce
qed

text \<open>
  C1: Orders are executed as they promise.  When an order is committed, the executed transactions are first
  transactions of the order, in its order, and then one successful transaction of the builder per paid
  kickback, to its recipient and with its value.  Each transaction of the order succeeded or may revert, one that
  is left out may be left out, a nested bundle is left out only as a whole and only when it may be skipped; in
  particular all mandatory transactions were executed in order and succeeded.
\<close>

theorem order_executed_as_promised:
  assumes "commit_order lib ctx ho od ss skip combined s = (Ok (Ok ok), t)"
  shows "\<exists>front payouts. oo_tx_infos ok = front @ payouts \<and>
    executes (order_body od) front \<and> list_all2 (pays ctx) payouts (oo_paid_kickbacks ok) \<and>
    subseq (map tei_tx front) (map fst (list_txs_revert od)) \<and>
    subseq (concat (map body_mandatory_txs (order_body od)))
      (map tei_tx (filter (\<lambda>i. rcp_success (tei_receipt i)) front))"
  using order_executes [OF assms] executes_subseq executes_mandatory order_body_txs by metis

section \<open>Accounting and profit of orders\<close>

lemma order_bundle_inv:
  assumes "commit_order lib ctx ho od ss skip combined s = (Ok (Ok ok), t)"
  shows "\<exists>b. bundle_inv ctx (ss_space_used ss) (ss_reserved_block_space ss) b \<and> oo_space_used ok = bo_space_used b \<and>
    oo_cumulative_space_used ok = bo_cumulative_space_used b \<and> oo_tx_infos ok = bo_tx_infos b \<and>
    oo_nonces_updated ok = bo_nonces_updated b"
  using assms
proof (cases rule: commit_order_OkE)
  case (tx tx tok)
  have "bo_space_state (BundleOk_start ss) (ss_reserved_block_space ss) = ss"
    by (simp add: bo_space_state_def BundleOk_start_def BlockBuildingSpaceState_new_def)
  then have "bundle_inv ctx (ss_space_used ss) (ss_reserved_block_space ss) (accumulate_tx_execution tok (BundleOk_start ss))"
    using bundle_inv_accumulate [OF bundle_inv_start] tx(2) by metis
  then show ?thesis
    using tx(3-6)
    by (intro exI [of _ "accumulate_tx_execution tok (BundleOk_start ss)"])
      (simp add: accumulate_tx_execution_def BundleOk_start_def BlockSpace_add_assign_eq)
next
  case (any_bundle b before balance)
  then have "bundle_inv ctx (ss_space_used ss) (ss_reserved_block_space ss) b"
    using bundle_inv_commit_bundle bundle_inv_commit_share_bundle by blast
  then show ?thesis using any_bundle(4-7) by blast
qed

text \<open>
  C3: The accounting of an order is exact.  The space used by a committed order is the sum of the space of its
  transactions and is added to the space used before; the receipts carry the running gas of the block;
  the nonces reported are, per signer, the one after the last transaction.  A block within its gas, size and
  blob limits stays within them, with the reserved space on top, as long as no transaction used more
  gas than its limit and no size comes near the width of its type.
\<close>

theorem order_accounting_exact:
  assumes "commit_order lib ctx ho od ss skip combined s = (Ok (Ok ok), t)"
  shows "oo_space_used ok = total_space (oo_tx_infos ok) \<and>
    oo_cumulative_space_used ok = BlockSpace_add (ss_space_used ss) (oo_space_used ok) \<and>
    receipts_ok (gas (ss_space_used ss)) (oo_tx_infos ok) \<and>
    distinct (map fst (oo_nonces_updated ok)) \<and> map_of (oo_nonces_updated ok) = last_nonces (oo_tx_infos ok) \<and>
    (within ctx (ss_space_used ss) (ss_reserved_block_space ss) \<and> list_all (info_sane ctx) (oo_tx_infos ok) \<longrightarrow>
       within ctx (oo_cumulative_space_used ok) (ss_reserved_block_space ss))"
  using order_bundle_inv [OF assms] by (auto simp: bundle_inv_def)

definition delayed_cost :: "OrderOk \<Rightarrow> int" where
  "delayed_cost ok = (case oo_delayed_kickback ok of None \<Rightarrow> 0 | Some r \<Rightarrow> uint (dk_payout_value r) + uint (dk_payout_tx_fee r))"

lemma uint_sub_exact:
  fixes a b :: U256
  assumes "uint a + c < 2 ^ 256" and "0 \<le> c" and "a + word_of_int c \<le> b"
  shows "uint b = uint a + c + uint (b - (a + word_of_int c))"
proof -
  have "uint (a + word_of_int c) = uint a + c"
    using assms(1,2) by (simp add: uint_word_ariths uint_word_of_int mod_add_right_eq)
  then show ?thesis using assms(3) by (simp add: uint_sub_lem [THEN iffD1] word_le_def)
qed


section \<open>A sample order\<close>

definition sample_orders :: hash_orders where
  "sample_orders = \<lparr>ho_elements = id, ho_payouts = id, ho_promissed = id\<rparr>"

definition sample_fork :: "sample_world PartialBlockFork" where
  "sample_fork = PartialBlockFork_new [[99 \<mapsto> sample_coinbase 50]] (TxExecutionCache_new False)"

definition sample_start :: BlockBuildingSpaceState where
  "sample_start = BlockBuildingSpaceState_new (BlockSpace_new 1000 500 0) BlockSpace_ZERO"

text \<open>
  Two transactions, of which the second may revert, a third that may be left out and has a wrong nonce, and a
  delayed refund of the profit of the first; and a bundle whose second transaction is mandatory and has a wrong
  nonce.
\<close>

definition sample_order :: Order where
  "sample_order = Order_Bundle ((sample_bundle [sample_tx 1 7 0, sample_tx 2 8 0, sample_tx 3 9 5] [2])
     \<lparr>b_dropping_tx_hashes := [3], b_refund := Some \<lparr>br_percent = 90, br_recipient = 44, br_tx_hash = 1, br_delayed = True\<rparr>\<rparr>)"

definition failing_order :: Order where
  "failing_order = Order_Bundle (sample_bundle [sample_tx 1 7 0, sample_tx 2 8 1] [])"

lemma sample_order_commits:
  "\<exists>ok t. commit_order sample_lib sample_ctx sample_orders sample_order sample_start False [] sample_fork = (Ok (Ok ok), t) \<and>
     map (tx_hash \<circ> tei_tx) (oo_tx_infos ok) = [1, 2] \<and> list_all (info_sane sample_ctx) (oo_tx_infos ok) \<and>
     oo_coinbase_profit ok = 110 \<and> delayed_cost ok = 90 \<and> oo_paid_kickbacks ok = []"
proof -
  let ?p = "commit_order sample_lib sample_ctx sample_orders sample_order sample_start False [] sample_fork"
  let ?small = "\<lambda>i. gas (tei_space_used i) = 21000 \<and> tx_gas_limit (tei_tx i) = 21000 \<and>
    length_eip7934 (tei_tx i) = 110 \<and> blobs_gas_used (tei_tx i) = 0"
  have "case fst ?p of
      Ok (Ok ok) \<Rightarrow> map (tx_hash \<circ> tei_tx) (oo_tx_infos ok) = [1, 2] \<and> list_all ?small (oo_tx_infos ok) \<and>
        oo_coinbase_profit ok = 110 \<and> delayed_cost ok = 90 \<and> oo_paid_kickbacks ok = []
    | _ \<Rightarrow> False"
    by code_simp
  moreover have "info_sane sample_ctx i" if "?small i" for i
    using that by (simp add: info_sane_def MAX_RLP_BLOCK_SIZE_def)
  ultimately show ?thesis by (cases ?p) (auto simp: list_all_iff split: sum.splits)
qed

theorem commit_order_atomic_witness:
  "fst (commit_order sample_lib sample_ctx sample_orders failing_order sample_start False [] sample_fork) =
     Ok (Err (OE_Bundle (BE_InvalidTransaction 2 (TE_InvalidTransaction (NonceTooHigh 1 0))))) \<and>
   pbf_state (snd (commit_order sample_lib sample_ctx sample_orders failing_order sample_start False [] sample_fork)) =
     pbf_state sample_fork"
proof -
  let ?p = "commit_order sample_lib sample_ctx sample_orders failing_order sample_start False [] sample_fork"
  have fails: "fst ?p = Ok (Err (OE_Bundle (BE_InvalidTransaction 2 (TE_InvalidTransaction (NonceTooHigh 1 0)))))"
    by code_simp
  obtain r t where p: "?p = (r, t)" by (cases ?p)
  show ?thesis using commit_order_atomic [OF sample_revert_law p] fails p by simp
qed

theorem order_executed_as_promised_witness:
  "\<exists>ok t. commit_order sample_lib sample_ctx sample_orders sample_order sample_start False [] sample_fork = (Ok (Ok ok), t) \<and>
     executes (order_body sample_order) (oo_tx_infos ok) \<and>
     subseq [sample_tx 1 7 0] (map tei_tx (filter (\<lambda>i. rcp_success (tei_receipt i)) (oo_tx_infos ok)))"
proof -
  obtain ok t where c: "commit_order sample_lib sample_ctx sample_orders sample_order sample_start False [] sample_fork = (Ok (Ok ok), t)"
    and paid: "oo_paid_kickbacks ok = []"
    using sample_order_commits by blast
  have "concat (map body_mandatory_txs (order_body sample_order)) = [sample_tx 1 7 0]"
    by (simp add: sample_order_def sample_bundle_def Bundle_list_txs_revert_def)
  then show ?thesis using order_executed_as_promised [OF c] c paid by auto
qed

theorem order_accounting_exact_witness:
  "\<exists>ok t. commit_order sample_lib sample_ctx sample_orders sample_order sample_start False [] sample_fork = (Ok (Ok ok), t) \<and>
     receipts_ok 1000 (oo_tx_infos ok) \<and> within sample_ctx (oo_cumulative_space_used ok) BlockSpace_ZERO"
proof -
  obtain ok t where c: "commit_order sample_lib sample_ctx sample_orders sample_order sample_start False [] sample_fork = (Ok (Ok ok), t)"
    and sane: "list_all (info_sane sample_ctx) (oo_tx_infos ok)"
    using sample_order_commits by blast
  have "within sample_ctx (ss_space_used sample_start) (ss_reserved_block_space sample_start)"
    by (simp add: within_def sample_start_def BlockBuildingSpaceState_new_def BlockSpace_new_def BlockSpace_ZERO_def MAX_RLP_BLOCK_SIZE_def)
  then show ?thesis
    using order_accounting_exact [OF c] c sane
    by (auto simp: sample_start_def BlockBuildingSpaceState_new_def BlockSpace_new_def)
qed


end
