(* ===== verification/Receipts.thy ===== *)
theory Receipts
  imports Order_Commit "HOL-Library.List_Lexorder"
begin

text \<open>
  Receipt and transaction roots of a block (\<^verbatim>\<open>rbuilder/src/utils/receipts.rs\<close>): the bloom filters with their
  cache of log blooms, and the two ways to get a root with a proof for the last item, from a trie that is kept
  for the next call or from a fresh hash builder.  When only the last transaction of a block changed, a
  call reuses what the previous one stored.  A panic (\<^verbatim>\<open>unwrap\<close>, index out of range) is the value \<open>None\<close>.  The
  scratch buffer for encodings is left out.
\<close>

unbundle bit_operations_syntax

section \<open>Libraries\<close>

type_synonym Bloom = "2048 word"

record ReceiptWithBloom =
  rwb_receipt :: Receipt
  rwb_logs_bloom :: Bloom

text \<open>
  The bloom of a log, the encodings, the order in which \<^verbatim>\<open>alloy_trie\<close> wants the indices, and its hash builder:
  from the leaves and a target key to the root and the proof nodes with their paths.
\<close>

record receipts_lib =
  log_bloom :: "Log \<Rightarrow> Bloom"
  encode_index :: "nat \<Rightarrow> u8 list"
  encode_receipt :: "ReceiptWithBloom \<Rightarrow> u8 list"
  encode_tx :: "TransactionSignedEcRecoveredWithBlobs \<Rightarrow> u8 list"
  adjust_index_for_rlp :: "nat \<Rightarrow> nat \<Rightarrow> nat"
  hash_builder :: "(u8 list \<times> u8 list) list \<Rightarrow> u8 list \<Rightarrow> B256 \<times> (u8 list \<times> u8 list) list"

text \<open>The trie with an empty proof store; computing the root marks the nodes as hashed.\<close>

record 't node_trie_ops =
  nt_clear_empty :: "'t \<Rightarrow> 't"
  nt_insert :: "'t \<Rightarrow> u8 list \<Rightarrow> u8 list \<Rightarrow> 't option"
  nt_root_hash :: "bool \<Rightarrow> 't \<Rightarrow> (B256 \<times> 't) option"
  nt_get_proof :: "'t \<Rightarrow> u8 list \<Rightarrow> (u8 list \<times> u8 list) list option"

section \<open>Blooms\<close>

record 't ReceiptsDataCache =
  rdc_logs :: "Log \<Rightarrow> Bloom option"
  rdc_trie :: 't
  block_logs_bloom_without_last_tx :: Bloom
  receipts_bloom_without_last_tx :: "Bloom list"

record ReceiptsData =
  rd_receipts_root :: B256
  rd_logs_bloom :: Bloom
  pre_payment_logs_bloom :: Bloom
  placeholder_receipt_proof :: "u8 list list"

text \<open>The loop over the logs of a receipt.\<close>

fun receipt_bloom :: "receipts_lib \<Rightarrow> Log list \<Rightarrow> Bloom \<Rightarrow> (Log \<Rightarrow> Bloom option) \<Rightarrow> Bloom \<times> (Log \<Rightarrow> Bloom option)" where
  "receipt_bloom lib [] bloom logs = (bloom, logs)"
| "receipt_bloom lib (log # rest) bloom logs =
     (case logs log of
        Some b \<Rightarrow> receipt_bloom lib rest (bloom OR b) logs
      | None \<Rightarrow>
          (let b = 0 OR log_bloom lib log
           in receipt_bloom lib rest (bloom OR b) (logs(log \<mapsto> b))))"

text \<open>The loop over the receipts: their blooms, the bloom of the block and the cache.\<close>

fun blooms_loop ::
  "receipts_lib \<Rightarrow> TransactionExecutionInfo list \<Rightarrow> Bloom list \<Rightarrow> Bloom \<Rightarrow> (Log \<Rightarrow> Bloom option)
     \<Rightarrow> Bloom list \<times> Bloom \<times> (Log \<Rightarrow> Bloom option)" where
  "blooms_loop lib [] blooms block logs = (blooms, block, logs)"
| "blooms_loop lib (i # rest) blooms block logs =
     (let (b, logs) = receipt_bloom lib (rcp_logs (tei_receipt i)) 0 logs
      in blooms_loop lib rest (blooms @ [b]) (block OR b) logs)"

section \<open>Roots\<close>

definition ordered_trie_root_and_proof :: "receipts_lib \<Rightarrow> u8 list list \<Rightarrow> nat \<Rightarrow> B256 \<times> u8 list list" where
  "ordered_trie_root_and_proof lib items proof_index =
     (let leaves = map (\<lambda>i. let index = adjust_index_for_rlp lib i (length items)
                            in (encode_index lib index, items ! index)) [0..<length items];
          (root, proof_nodes) = hash_builder lib leaves (encode_index lib proof_index)
      in (root, map snd (sort_key fst proof_nodes)))"

fun trie_insert_from ::
  "'t node_trie_ops \<Rightarrow> receipts_lib \<Rightarrow> nat \<Rightarrow> u8 list list \<Rightarrow> 't \<Rightarrow> 't option" where
  "trie_insert_from ops lib idx [] t = Some t"
| "trie_insert_from ops lib idx (v # vs) t =
     Option.bind (nt_insert ops t (encode_index lib idx) v) (trie_insert_from ops lib (Suc idx) vs)"

text \<open>
  The common body of \<^verbatim>\<open>calculate_receipts_root_and_placeholder_proof_with_cache\<close> and
  \<^verbatim>\<open>calculate_tx_root_and_placeholder_proof_with_cache\<close>, from the encoded items.
\<close>

definition root_and_proof_with_cache ::
  "'t node_trie_ops \<Rightarrow> receipts_lib \<Rightarrow> u8 list list \<Rightarrow> bool \<Rightarrow> 't \<Rightarrow> ((B256 \<times> u8 list list) \<times> 't) option" where
  "root_and_proof_with_cache ops lib items adjust_finalized_block t =
     Option.bind
       (if \<not> adjust_finalized_block
        then Option.bind (trie_insert_from ops lib 0 items (nt_clear_empty ops t)) (nt_root_hash ops True)
        else if items = [] then None
        else Option.bind (nt_insert ops t (encode_index lib (length items - 1)) (last items)) (nt_root_hash ops False))
       (\<lambda>(root, t).
          if items = [] then None
          else map_option (\<lambda>nodes. ((root, map snd nodes), t)) (nt_get_proof ops t (encode_index lib (length items - 1))))"

definition calculate_receipts_root_and_placeholder_proof_with_cache ::
  "'t node_trie_ops \<Rightarrow> receipts_lib \<Rightarrow> ReceiptWithBloom list \<Rightarrow> bool \<Rightarrow> 't ReceiptsDataCache
     \<Rightarrow> ((B256 \<times> u8 list list) \<times> 't ReceiptsDataCache) option" where
  "calculate_receipts_root_and_placeholder_proof_with_cache ops lib receipts adjust_finalized_block cache =
     map_option (\<lambda>(res, t). (res, cache\<lparr>rdc_trie := t\<rparr>))
       (root_and_proof_with_cache ops lib (map (encode_receipt lib) receipts) adjust_finalized_block (rdc_trie cache))"

definition calculate_receipts_root_and_placeholder_proof_with_alloy ::
  "receipts_lib \<Rightarrow> ReceiptWithBloom list \<Rightarrow> (B256 \<times> u8 list list) option" where
  "calculate_receipts_root_and_placeholder_proof_with_alloy lib receipts =
     (if receipts = [] then None
      else Some (ordered_trie_root_and_proof lib (map (encode_receipt lib) receipts) (length receipts - 1)))"

definition calculate_receipts_data ::
  "'t node_trie_ops \<Rightarrow> receipts_lib \<Rightarrow> TransactionExecutionInfo list \<Rightarrow> bool \<Rightarrow> bool \<Rightarrow> 't ReceiptsDataCache
     \<Rightarrow> (ReceiptsData \<times> 't ReceiptsDataCache) option" where
  "calculate_receipts_data ops lib infos fast_finalize adjust_finalized_blocks cache =
     (let (blooms, block, cache) =
        (if adjust_finalized_blocks
         then (receipts_bloom_without_last_tx cache, block_logs_bloom_without_last_tx cache, cache)
         else let (blooms, block, logs) = blooms_loop lib (butlast infos) [] 0 (rdc_logs cache)
              in (blooms, block, cache\<lparr>rdc_logs := logs, block_logs_bloom_without_last_tx := block,
                                        receipts_bloom_without_last_tx := blooms\<rparr>))
      in if infos = [] then None
         else
           let (b, logs) = receipt_bloom lib (rcp_logs (tei_receipt (last infos))) 0 (rdc_logs cache);
               cache = cache\<lparr>rdc_logs := logs\<rparr>;
               receipts = map (\<lambda>(info, bloom). \<lparr>rwb_receipt = tei_receipt info, rwb_logs_bloom = bloom\<rparr>)
                 (zip infos (blooms @ [b]))
           in map_option (\<lambda>((root, proof), cache).
                (\<lparr>rd_receipts_root = root, rd_logs_bloom = block OR b, pre_payment_logs_bloom = block,
                  placeholder_receipt_proof = proof\<rparr>, cache))
                (if fast_finalize
                 then calculate_receipts_root_and_placeholder_proof_with_cache ops lib receipts adjust_finalized_blocks cache
                 else map_option (\<lambda>r. (r, cache)) (calculate_receipts_root_and_placeholder_proof_with_alloy lib receipts)))"

definition calculate_tx_root_and_placeholder_proof ::
  "'t node_trie_ops \<Rightarrow> receipts_lib \<Rightarrow> TransactionExecutionInfo list \<Rightarrow> bool \<Rightarrow> bool \<Rightarrow> 't
     \<Rightarrow> ((B256 \<times> u8 list list) \<times> 't) option" where
  "calculate_tx_root_and_placeholder_proof ops lib infos faster_finalize prefinalized cache =
     (if faster_finalize
      then root_and_proof_with_cache ops lib (map (encode_tx lib \<circ> tei_tx) infos) prefinalized cache
      else if infos = [] then None
      else Some (ordered_trie_root_and_proof lib (map (encode_tx lib \<circ> tei_tx) infos) (length infos - 1), cache))"

section \<open>Reference definitions\<close>

definition logs_bloom_of :: "receipts_lib \<Rightarrow> Log list \<Rightarrow> Bloom" where
  "logs_bloom_of lib logs = foldr (\<lambda>log b. log_bloom lib log OR b) logs 0"

definition info_bloom :: "receipts_lib \<Rightarrow> TransactionExecutionInfo \<Rightarrow> Bloom" where
  "info_bloom lib i = logs_bloom_of lib (rcp_logs (tei_receipt i))"

definition block_bloom :: "receipts_lib \<Rightarrow> TransactionExecutionInfo list \<Rightarrow> Bloom" where
  "block_bloom lib infos = logs_bloom_of lib (concat (map (\<lambda>i. rcp_logs (tei_receipt i)) infos))"

definition indexed :: "receipts_lib \<Rightarrow> u8 list list \<Rightarrow> u8 list \<Rightarrow> u8 list option" where
  "indexed lib items = map_of (map (\<lambda>i. (encode_index lib i, items ! i)) [0..<length items])"

definition receipt_items :: "receipts_lib \<Rightarrow> TransactionExecutionInfo list \<Rightarrow> u8 list list" where
  "receipt_items lib infos =
     map (\<lambda>i. encode_receipt lib \<lparr>rwb_receipt = tei_receipt i, rwb_logs_bloom = info_bloom lib i\<rparr>) infos"

text \<open>
  What is relied on of the trie: for keys that are encoded indices it is a map, the root and the proofs are
  functions of the map (\<open>root_of\<close>, \<open>proof_of\<close>), and a proof can be had once the root was computed.  The hash
  builder gives the same root and, sorted by path, the same proof nodes.
\<close>

definition node_trie_law ::
  "'t node_trie_ops \<Rightarrow> receipts_lib \<Rightarrow> ('t \<Rightarrow> bool) \<Rightarrow> ('t \<Rightarrow> u8 list \<Rightarrow> u8 list option)
     \<Rightarrow> ((u8 list \<Rightarrow> u8 list option) \<Rightarrow> B256) \<Rightarrow> ((u8 list \<Rightarrow> u8 list option) \<Rightarrow> u8 list \<Rightarrow> (u8 list \<times> u8 list) list) \<Rightarrow> bool" where
  "node_trie_law ops lib good view root_of proof_of \<longleftrightarrow>
     inj (encode_index lib) \<and>
     (\<forall>t. good (nt_clear_empty ops t) \<and> view (nt_clear_empty ops t) = Map.empty) \<and>
     (\<forall>t i v. good t \<longrightarrow> (\<exists>t'. nt_insert ops t (encode_index lib i) v = Some t' \<and> good t' \<and>
        view t' = (view t)(encode_index lib i \<mapsto> v))) \<and>
     (\<forall>par t. good t \<longrightarrow> (\<exists>t'. nt_root_hash ops par t = Some (root_of (view t), t') \<and> good t' \<and> view t' = view t \<and>
        (\<forall>k. nt_get_proof ops t' k = Some (proof_of (view t) k))))"

definition hash_builder_law ::
  "receipts_lib \<Rightarrow> ((u8 list \<Rightarrow> u8 list option) \<Rightarrow> B256) \<Rightarrow> ((u8 list \<Rightarrow> u8 list option) \<Rightarrow> u8 list \<Rightarrow> (u8 list \<times> u8 list) list) \<Rightarrow> bool" where
  "hash_builder_law lib root_of proof_of \<longleftrightarrow>
     (\<forall>items target. ordered_trie_root_and_proof lib items target =
        (root_of (indexed lib items), map snd (proof_of (indexed lib items) (encode_index lib target))))"

section \<open>Blooms are exact\<close>

definition log_cache_ok :: "receipts_lib \<Rightarrow> (Log \<Rightarrow> Bloom option) \<Rightarrow> bool" where
  "log_cache_ok lib logs \<longleftrightarrow> (\<forall>log b. logs log = Some b \<longrightarrow> b = log_bloom lib log)"

lemma logs_bloom_of_simps [simp]:
  "logs_bloom_of lib [] = 0"
  "logs_bloom_of lib (log # logs) = log_bloom lib log OR logs_bloom_of lib logs"
  by (simp_all add: logs_bloom_of_def)

lemma logs_bloom_of_append: "logs_bloom_of lib (xs @ ys) = logs_bloom_of lib xs OR logs_bloom_of lib ys"
  by (induction xs) (simp_all add: or.assoc)

lemma receipt_bloom_exact:
  assumes "log_cache_ok lib logs"
  shows "fst (receipt_bloom lib ls b logs) = b OR logs_bloom_of lib ls \<and> log_cache_ok lib (snd (receipt_bloom lib ls b logs))"
  using assms
proof (induction ls arbitrary: b logs)
  case Nil
  then show ?case by simp
next
  case (Cons log ls)
  obtain logs1 where "receipt_bloom lib (log # ls) b logs = receipt_bloom lib ls (b OR log_bloom lib log) logs1"
    "log_cache_ok lib logs1"
    using Cons.prems by (cases "logs log") (auto simp: log_cache_ok_def Let_def)
  with Cons.IH [of logs1 "b OR log_bloom lib log"] show ?case by (simp add: or.assoc)
qed

lemma blooms_loop_exact:
  assumes "log_cache_ok lib logs"
  shows "\<exists>logs'. blooms_loop lib infos blooms block logs =
      (blooms @ map (info_bloom lib) infos, block OR block_bloom lib infos, logs') \<and> log_cache_ok lib logs'"
  using assms
proof (induction infos arbitrary: blooms block logs)
  case Nil
  then show ?case by (simp add: block_bloom_def)
next
  case (Cons i infos)
  obtain b logs1 where b: "receipt_bloom lib (rcp_logs (tei_receipt i)) 0 logs = (b, logs1)"
    by (cases "receipt_bloom lib (rcp_logs (tei_receipt i)) 0 logs")
  with receipt_bloom_exact [OF Cons.prems, of "rcp_logs (tei_receipt i)" 0]
  have "b = info_bloom lib i" "log_cache_ok lib logs1" by (simp_all add: info_bloom_def)
  with b Cons.IH [of logs1 "blooms @ [b]" "block OR b"] show ?case
    by (auto simp: block_bloom_def info_bloom_def logs_bloom_of_append or.assoc)
qed

section \<open>Roots are exact\<close>

lemma indexed_snoc: "indexed lib (xs @ [v]) = map_of (map (\<lambda>i. (encode_index lib i, (xs @ [v]) ! i)) [0..<length xs] @ [(encode_index lib (length xs), v)])"
  by (simp add: indexed_def nth_append)

lemma indexed_at:
  assumes "inj (encode_index lib)"
  shows "indexed lib xs k = (if \<exists>i < length xs. k = encode_index lib i then Some (xs ! (inv (encode_index lib) k)) else None)"
proof (cases "\<exists>i < length xs. k = encode_index lib i")
  case True
  then obtain i where i: "i < length xs" "k = encode_index lib i" by blast
  have "distinct (map fst (map (\<lambda>i. (encode_index lib i, xs ! i)) [0..<length xs]))"
    using assms by (auto simp: comp_def distinct_map intro: inj_on_subset)
  then have "indexed lib xs k = Some (xs ! i)"
    unfolding indexed_def using i by (intro map_of_is_SomeI) auto
  then show ?thesis using i assms by auto
next
  case False
  then have "indexed lib xs k = None" by (auto simp: indexed_def map_of_eq_None_iff)
  then show ?thesis by (simp add: False)
qed

lemma indexed_update:
  assumes "inj (encode_index lib)"
  shows "(indexed lib (xs @ [v]))(encode_index lib (length xs) \<mapsto> w) = indexed lib (xs @ [w])"
    and "(indexed lib xs)(encode_index lib (length xs) \<mapsto> w) = indexed lib (xs @ [w])"
  using assms by (auto simp: fun_eq_iff indexed_at nth_append less_Suc_eq inj_eq)

lemma trie_insert_from_view:
  assumes "node_trie_law ops lib good view root_of proof_of" and "good t" and "view t = indexed lib xs"
  shows "\<exists>t'. trie_insert_from ops lib (length xs) vs t = Some t' \<and> good t' \<and> view t' = indexed lib (xs @ vs)"
  using assms(2,3)
proof (induction vs arbitrary: t xs)
  case Nil
  then show ?case by simp
next
  case (Cons v vs)
  have inj: "inj (encode_index lib)" using assms(1) by (simp add: node_trie_law_def)
  obtain t1 where t1: "nt_insert ops t (encode_index lib (length xs)) v = Some t1" "good t1"
    "view t1 = (view t)(encode_index lib (length xs) \<mapsto> v)"
    using assms(1) Cons.prems(1) unfolding node_trie_law_def by blast
  then have "view t1 = indexed lib (xs @ [v])" using Cons.prems(2) indexed_update(2) [OF inj] by simp
  from Cons.IH [OF t1(2) this] t1(1) show ?case by simp
qed

text \<open>The trie holds the items of the block up to the last one, and some last item.\<close>

definition trie_ready ::
  "('t \<Rightarrow> bool) \<Rightarrow> ('t \<Rightarrow> u8 list \<Rightarrow> u8 list option) \<Rightarrow> receipts_lib \<Rightarrow> u8 list list \<Rightarrow> 't \<Rightarrow> bool" where
  "trie_ready good view lib front t \<longleftrightarrow> good t \<and> (\<exists>v. view t = indexed lib (front @ [v]))"

lemma root_and_proof_with_cache_exact:
  assumes law: "node_trie_law ops lib good view root_of proof_of"
    and ready: "adjust \<Longrightarrow> trie_ready good view lib front t"
  shows "\<exists>t'. root_and_proof_with_cache ops lib (front @ [v]) adjust t =
      Some ((root_of (indexed lib (front @ [v])),
        map snd (proof_of (indexed lib (front @ [v])) (encode_index lib (length front)))), t') \<and>
    trie_ready good view lib front t'"
proof -
  have inj: "inj (encode_index lib)" using law by (simp add: node_trie_law_def)
  have "\<exists>t1. good t1 \<and> view t1 = indexed lib (front @ [v]) \<and>
    (if \<not> adjust then trie_insert_from ops lib 0 (front @ [v]) (nt_clear_empty ops t) = Some t1
     else nt_insert ops t (encode_index lib (length front)) v = Some t1)"
  proof (cases adjust)
    case True
    obtain w where w: "good t" "view t = indexed lib (front @ [w])" using ready [OF True] by (auto simp: trie_ready_def)
    obtain t1 where "nt_insert ops t (encode_index lib (length front)) v = Some t1" "good t1"
      "view t1 = (view t)(encode_index lib (length front) \<mapsto> v)"
      using law w(1) unfolding node_trie_law_def by blast
    then show ?thesis using True w(2) indexed_update(1) [OF inj] by auto
  next
    case False
    have "good (nt_clear_empty ops t)" "view (nt_clear_empty ops t) = indexed lib []"
      using law by (auto simp: node_trie_law_def indexed_def)
    from trie_insert_from_view [OF law this, of "front @ [v]"] False show ?thesis by auto
  qed
  then obtain t1 where t1: "good t1" "view t1 = indexed lib (front @ [v])"
    "if \<not> adjust then trie_insert_from ops lib 0 (front @ [v]) (nt_clear_empty ops t) = Some t1
     else nt_insert ops t (encode_index lib (length front)) v = Some t1" by blast
  obtain t2 where t2: "nt_root_hash ops (\<not> adjust) t1 = Some (root_of (view t1), t2)" "good t2" "view t2 = view t1"
    "\<forall>k. nt_get_proof ops t2 k = Some (proof_of (view t1) k)"
    using law t1(1) unfolding node_trie_law_def by blast
  have "trie_ready good view lib front t2" using t1(2) t2(2,3) by (auto simp: trie_ready_def)
  moreover have "root_and_proof_with_cache ops lib (front @ [v]) adjust t =
      Some ((root_of (indexed lib (front @ [v])),
        map snd (proof_of (indexed lib (front @ [v])) (encode_index lib (length front)))), t2)"
    using t1(2,3) t2(1,4) by (cases adjust) (simp_all add: root_and_proof_with_cache_def)
  ultimately show ?thesis by blast
qed

section \<open>A block that is sealed again\<close>

text \<open>What a call leaves behind for the next one on a block that differs in its last transaction only.\<close>

definition receipts_cache_ready ::
  "('t \<Rightarrow> bool) \<Rightarrow> ('t \<Rightarrow> u8 list \<Rightarrow> u8 list option) \<Rightarrow> receipts_lib \<Rightarrow> bool \<Rightarrow> TransactionExecutionInfo list
     \<Rightarrow> 't ReceiptsDataCache \<Rightarrow> bool" where
  "receipts_cache_ready good view lib fast front cache \<longleftrightarrow>
     log_cache_ok lib (rdc_logs cache) \<and>
     receipts_bloom_without_last_tx cache = map (info_bloom lib) front \<and>
     block_logs_bloom_without_last_tx cache = block_bloom lib front \<and>
     (fast \<longrightarrow> trie_ready good view lib (receipt_items lib front) (rdc_trie cache))"

definition receipts_data_of ::
  "receipts_lib \<Rightarrow> ((u8 list \<Rightarrow> u8 list option) \<Rightarrow> B256) \<Rightarrow> ((u8 list \<Rightarrow> u8 list option) \<Rightarrow> u8 list \<Rightarrow> (u8 list \<times> u8 list) list)
     \<Rightarrow> TransactionExecutionInfo list \<Rightarrow> ReceiptsData" where
  "receipts_data_of lib root_of proof_of infos =
     (let m = indexed lib (receipt_items lib infos)
      in \<lparr>rd_receipts_root = root_of m, rd_logs_bloom = block_bloom lib infos,
          pre_payment_logs_bloom = block_bloom lib (butlast infos),
          placeholder_receipt_proof = map snd (proof_of m (encode_index lib (length infos - 1)))\<rparr>)"

lemma receipts_of_blooms:
  "map (encode_receipt lib) (map (\<lambda>(info, bloom). \<lparr>rwb_receipt = tei_receipt info, rwb_logs_bloom = bloom\<rparr>)
     (zip infos (map (info_bloom lib) infos))) = receipt_items lib infos"
  by (simp add: receipt_items_def zip_map2 zip_same_conv_map)

lemma receipts_root_exact:
  assumes law: "node_trie_law ops lib good view root_of proof_of" and hb: "hash_builder_law lib root_of proof_of"
    and items: "map (encode_receipt lib) receipts = receipt_items lib (front @ [i])"
    and logs: "log_cache_ok lib (rdc_logs cache)" "receipts_bloom_without_last_tx cache = map (info_bloom lib) front"
      "block_logs_bloom_without_last_tx cache = block_bloom lib front"
    and ready: "adjust \<and> fast \<Longrightarrow> trie_ready good view lib (receipt_items lib front) (rdc_trie cache)"
  shows "\<exists>cache'. (if fast then calculate_receipts_root_and_placeholder_proof_with_cache ops lib receipts adjust cache
     else map_option (\<lambda>r. (r, cache)) (calculate_receipts_root_and_placeholder_proof_with_alloy lib receipts)) =
     Some ((root_of (indexed lib (receipt_items lib (front @ [i]))),
       map snd (proof_of (indexed lib (receipt_items lib (front @ [i]))) (encode_index lib (length front)))), cache') \<and>
     receipts_cache_ready good view lib fast front cache'"
proof (cases fast)
  case True
  let ?items = "receipt_items lib front @ [last (receipt_items lib (front @ [i]))]"
  have t: "trie_ready good view lib (receipt_items lib front) (rdc_trie cache)" if adjust using ready True that by simp
  obtain t' where "root_and_proof_with_cache ops lib ?items adjust (rdc_trie cache) =
      Some ((root_of (indexed lib ?items), map snd (proof_of (indexed lib ?items)
        (encode_index lib (length (receipt_items lib front))))), t')"
    "trie_ready good view lib (receipt_items lib front) t'"
    using root_and_proof_with_cache_exact [where adjust = adjust, OF law t] by blast
  then show ?thesis
    using True logs items
    by (simp add: calculate_receipts_root_and_placeholder_proof_with_cache_def receipts_cache_ready_def receipt_items_def)
next
  case False
  have "receipts \<noteq> []" "length receipts = Suc (length front)"
    using arg_cong [OF items, of length] by (auto simp: receipt_items_def)
  with False show ?thesis
    using hb items logs
    by (simp add: calculate_receipts_root_and_placeholder_proof_with_alloy_def hash_builder_law_def receipts_cache_ready_def)
qed

lemma calculate_receipts_data_exact:
  assumes law: "node_trie_law ops lib good view root_of proof_of" and hb: "hash_builder_law lib root_of proof_of"
    and logs: "log_cache_ok lib (rdc_logs cache)"
    and ready: "adjust \<Longrightarrow> receipts_cache_ready good view lib fast front cache"
  shows "\<exists>cache'. calculate_receipts_data ops lib (front @ [i]) fast adjust cache =
      Some (receipts_data_of lib root_of proof_of (front @ [i]), cache') \<and>
    receipts_cache_ready good view lib fast front cache'"
proof -
  define start where "start = (if adjust
    then (receipts_bloom_without_last_tx cache, block_logs_bloom_without_last_tx cache, cache)
    else let (blooms, block, logs) = blooms_loop lib front [] 0 (rdc_logs cache)
         in (blooms, block, cache\<lparr>rdc_logs := logs, block_logs_bloom_without_last_tx := block,
                                   receipts_bloom_without_last_tx := blooms\<rparr>))"
  obtain c1 where start: "start = (map (info_bloom lib) front, block_bloom lib front, c1)"
    and c1: "log_cache_ok lib (rdc_logs c1)" "receipts_bloom_without_last_tx c1 = map (info_bloom lib) front"
      "block_logs_bloom_without_last_tx c1 = block_bloom lib front"
      "adjust \<and> fast \<Longrightarrow> trie_ready good view lib (receipt_items lib front) (rdc_trie c1)"
    using ready blooms_loop_exact [OF logs, of front "[]" 0]
    by (cases adjust) (auto simp: start_def receipts_cache_ready_def)
  obtain b logs2 where b: "receipt_bloom lib (rcp_logs (tei_receipt i)) 0 (rdc_logs c1) = (b, logs2)"
    by (cases "receipt_bloom lib (rcp_logs (tei_receipt i)) 0 (rdc_logs c1)")
  have bi: "b = info_bloom lib i" and l2: "log_cache_ok lib logs2"
    using receipt_bloom_exact [OF c1(1), of "rcp_logs (tei_receipt i)" 0] b by (simp_all add: info_bloom_def)
  define receipts where "receipts = map (\<lambda>(info, bloom). \<lparr>rwb_receipt = tei_receipt info, rwb_logs_bloom = bloom\<rparr>)
    (zip (front @ [i]) (map (info_bloom lib) front @ [b]))"
  have items: "map (encode_receipt lib) receipts = receipt_items lib (front @ [i])"
    unfolding receipts_def bi using receipts_of_blooms [of lib "front @ [i]"] by simp
  define c2 where "c2 = c1\<lparr>rdc_logs := logs2\<rparr>"
  have c2: "log_cache_ok lib (rdc_logs c2)" "receipts_bloom_without_last_tx c2 = map (info_bloom lib) front"
    "block_logs_bloom_without_last_tx c2 = block_bloom lib front"
    "adjust \<and> fast \<Longrightarrow> trie_ready good view lib (receipt_items lib front) (rdc_trie c2)"
    using c1 l2 by (simp_all add: c2_def)
  note receipts_root_exact [where adjust = adjust and fast = fast, OF law hb items c2]
  moreover have "calculate_receipts_data ops lib (front @ [i]) fast adjust cache =
    map_option (\<lambda>((root, proof), cache).
      (\<lparr>rd_receipts_root = root, rd_logs_bloom = block_bloom lib front OR b, pre_payment_logs_bloom = block_bloom lib front,
        placeholder_receipt_proof = proof\<rparr>, cache))
      (if fast then calculate_receipts_root_and_placeholder_proof_with_cache ops lib receipts adjust c2
       else map_option (\<lambda>r. (r, c2)) (calculate_receipts_root_and_placeholder_proof_with_alloy lib receipts))"
    unfolding calculate_receipts_data_def butlast_snoc start_def [symmetric] start receipts_def c2_def by (simp add: b)
  moreover have "block_bloom lib (front @ [i]) = block_bloom lib front OR b"
    by (simp add: block_bloom_def bi info_bloom_def logs_bloom_of_append)
  ultimately show ?thesis by (auto simp: receipts_data_of_def Let_def)
qed

text \<open>Sealing the block again and again, each time with another last transaction.\<close>

fun reseal ::
  "'t node_trie_ops \<Rightarrow> receipts_lib \<Rightarrow> bool \<Rightarrow> TransactionExecutionInfo list \<Rightarrow> TransactionExecutionInfo list
     \<Rightarrow> 't ReceiptsDataCache \<Rightarrow> 't \<Rightarrow> (ReceiptsData \<times> B256 \<times> u8 list list) list option" where
  "reseal ops lib fast front [] cache t = Some []"
| "reseal ops lib fast front (i # is) cache t =
     Option.bind (calculate_receipts_data ops lib (front @ [i]) fast True cache) (\<lambda>(d, cache).
     Option.bind (calculate_tx_root_and_placeholder_proof ops lib (front @ [i]) fast True t) (\<lambda>(r, t).
       map_option (\<lambda>ds. (d, r) # ds) (reseal ops lib fast front is cache t)))"

definition sealed_roots ::
  "receipts_lib \<Rightarrow> ((u8 list \<Rightarrow> u8 list option) \<Rightarrow> B256) \<Rightarrow> ((u8 list \<Rightarrow> u8 list option) \<Rightarrow> u8 list \<Rightarrow> (u8 list \<times> u8 list) list)
     \<Rightarrow> TransactionExecutionInfo list \<Rightarrow> ReceiptsData \<times> B256 \<times> u8 list list" where
  "sealed_roots lib root_of proof_of infos =
     (let m = indexed lib (map (encode_tx lib \<circ> tei_tx) infos)
      in (receipts_data_of lib root_of proof_of infos, root_of m,
          map snd (proof_of m (encode_index lib (length infos - 1)))))"

lemma tx_root_exact:
  assumes law: "node_trie_law ops lib good view root_of proof_of" and hb: "hash_builder_law lib root_of proof_of"
    and ready: "adjust \<and> fast \<Longrightarrow> trie_ready good view lib (map (encode_tx lib \<circ> tei_tx) front) t"
  shows "\<exists>t'. calculate_tx_root_and_placeholder_proof ops lib (front @ [i]) fast adjust t =
      Some (snd (sealed_roots lib root_of proof_of (front @ [i])), t') \<and>
    (fast \<longrightarrow> trie_ready good view lib (map (encode_tx lib \<circ> tei_tx) front) t')"
proof (cases fast)
  case True
  let ?front = "map (encode_tx lib \<circ> tei_tx) front"
  have "trie_ready good view lib ?front t" if adjust using ready True that by simp
  from root_and_proof_with_cache_exact [where adjust = adjust, OF law this, where v = "encode_tx lib (tei_tx i)"]
  show ?thesis
    using True by (auto simp: calculate_tx_root_and_placeholder_proof_def sealed_roots_def Let_def)
next
  case False
  then show ?thesis
    using hb by (simp add: calculate_tx_root_and_placeholder_proof_def sealed_roots_def hash_builder_law_def Let_def comp_def)
qed

lemma reseal_exact:
  assumes law: "node_trie_law ops lib good view root_of proof_of" and hb: "hash_builder_law lib root_of proof_of"
    and "receipts_cache_ready good view lib fast front cache"
    and "fast \<longrightarrow> trie_ready good view lib (map (encode_tx lib \<circ> tei_tx) front) t"
  shows "reseal ops lib fast front is cache t = Some (map (\<lambda>i. sealed_roots lib root_of proof_of (front @ [i])) is)"
  using assms(3,4)
proof (induction "is" arbitrary: cache t)
  case Nil
  then show ?case by simp
next
  case (Cons i "is")
  have "log_cache_ok lib (rdc_logs cache)" using Cons.prems(1) by (simp add: receipts_cache_ready_def)
  then obtain cache' where c: "calculate_receipts_data ops lib (front @ [i]) fast True cache =
      Some (receipts_data_of lib root_of proof_of (front @ [i]), cache')"
    "receipts_cache_ready good view lib fast front cache'"
    using calculate_receipts_data_exact [OF law hb, where adjust = True] Cons.prems(1) by blast
  obtain t' where t: "calculate_tx_root_and_placeholder_proof ops lib (front @ [i]) fast True t =
      Some (snd (sealed_roots lib root_of proof_of (front @ [i])), t')"
    "fast \<longrightarrow> trie_ready good view lib (map (encode_tx lib \<circ> tei_tx) front) t'"
    using tx_root_exact [OF law hb, where adjust = True] Cons.prems(2) by blast
  show ?case
    using Cons.IH [OF c(2) t(2)] c(1) t(1) by (simp add: sealed_roots_def Let_def)
qed


text \<open>A trie that is a plain map, with a root that tells the length of its first item.\<close>

definition sample_root :: "(u8 list \<Rightarrow> u8 list option) \<Rightarrow> B256" where
  "sample_root t = (case t [] of None \<Rightarrow> 0 | Some v \<Rightarrow> of_nat (length v))"

definition sample_node :: "(u8 list \<Rightarrow> u8 list option) \<Rightarrow> u8 list \<Rightarrow> (u8 list \<times> u8 list) list" where
  "sample_node t k = (case t k of None \<Rightarrow> [] | Some v \<Rightarrow> [(k, v)])"

definition sample_trie_ops :: "(u8 list \<Rightarrow> u8 list option) node_trie_ops" where
  "sample_trie_ops = \<lparr>nt_clear_empty = (\<lambda>_. Map.empty), nt_insert = (\<lambda>t k v. Some (t(k \<mapsto> v))),
     nt_root_hash = (\<lambda>_ t. Some (sample_root t, t)), nt_get_proof = (\<lambda>t k. Some (sample_node t k))\<rparr>"

definition sample_receipts_lib :: receipts_lib where
  "sample_receipts_lib = \<lparr>log_bloom = (\<lambda>_. 5), encode_index = (\<lambda>i. replicate i 0),
     encode_receipt = (\<lambda>r. [ucast (rwb_logs_bloom r), if rcp_success (rwb_receipt r) then 1 else 0]),
     encode_tx = (\<lambda>t. [ucast (tx_hash t)]), adjust_index_for_rlp = (\<lambda>i n. i),
     hash_builder = (\<lambda>leaves k. (sample_root (map_of leaves), sample_node (map_of leaves) k))\<rparr>"

lemma sample_node_trie_law: "node_trie_law sample_trie_ops sample_receipts_lib (\<lambda>_. True) id sample_root sample_node"
  by (auto simp: node_trie_law_def sample_trie_ops_def sample_receipts_lib_def inj_def dest: arg_cong [of _ _ length])

lemma sample_hash_builder_law: "hash_builder_law sample_receipts_lib sample_root sample_node"
proof -
  have "sort_key fst (sample_node m k) = sample_node m k" for m k
    by (simp add: sample_node_def split: option.split)
  then show ?thesis
    by (simp add: hash_builder_law_def ordered_trie_root_and_proof_def indexed_def sample_receipts_lib_def Let_def)
qed

definition sample_executed :: "bool \<Rightarrow> Log list \<Rightarrow> TransactionExecutionInfo" where
  "sample_executed ok logs =
     \<lparr>tei_tx = \<lparr>tx_inner = \<lparr>rec_inner = \<lparr>ts_hash = 7, ts_nonce = 0, ts_gas_limit = 21000, ts_max_fee_per_gas = 10, ts_to = None,
        ts_value = 0, ts_length = 110, ts_blob_versioned_hashes = None\<rparr>, rec_signer = 3\<rparr>,
        blobs_sidecar = default_blob_sidecar, tx_metadata = Metadata_new 0\<rparr>,
      tei_receipt = \<lparr>rcp_success = ok, rcp_cumulative_gas_used = 21000, rcp_logs = logs\<rparr>,
      tei_space_used = BlockSpace_new 21000 110 0, tei_coinbase_profit = 1\<rparr>"


end
