(* ===== verification/Partial_Block.thy ===== *)
theory Partial_Block
  imports Order_Commit_Laws Receipts Order_Pool Constraint_Pool
begin

text \<open>
  A block under construction (\<^verbatim>\<open>PartialBlock\<close> of \<^verbatim>\<open>rbuilder/src/building/mod.rs\<close>) and the trace of a built block
  (\<^verbatim>\<open>built_block_trace.rs\<close>): committing orders, the payouts at the end of the block, the revert that
  makes room for another payout, and sealing.  The bundle state with the execution cache of the context is a
  \<open>world_state\<close>; the fork an operation works on is made from it.  The execution tracers of partial blocks are the
  null ones.  Timestamps, durations and the bid adjustment data of a sealed block are left out.
\<close>

section \<open>Data\<close>

record 'w world_state =
  ws_world :: 'w
  ws_tx_cache :: TxExecutionCache

record PartialBlock =
  discard_txs :: bool
  pb_space_state :: BlockBuildingSpaceState
  pb_coinbase_profit :: U256
  executed_tx_infos :: "TransactionExecutionInfo list"
  combined_refunds :: "(address \<times> U256) list"
  delayed_refund :: U256
  pb_tracer :: SimulationTracer

record ExecutionResult =
  er_coinbase_profit :: U256
  er_inplace_sim :: SimValue
  er_space_used :: BlockSpace
  er_order :: Order
  er_tx_infos :: "TransactionExecutionInfo list"
  er_original_order_ids :: "OrderId list"
  er_nonces_updated :: "(address \<times> u64) list"
  er_paid_kickbacks :: "(address \<times> U256) list"
  er_delayed_kickback :: "DelayedKickback option"

datatype InsertPayoutTxErr =
    IPE_CriticalCommitError commit_failure
  | IPE_ProfitTooLow
  | IPE_CombinedRefundTxReverted
  | IPE_PayoutTxReverted
  | IPE_SignerError secp_error
  | IPE_TxErr TransactionErr
  | IPE_NoSigner

datatype ExecutionError =
    EE_OrderError OrderErr
  | EE_LowerInsertedValue SimValue SimValue

definition try_get_tx_too_high_error :: "ExecutionError \<Rightarrow> Order \<Rightarrow> (address \<times> u64) option" where
  "try_get_tx_too_high_error err od =
     (case err of
        EE_OrderError (OE_Transaction (TE_InvalidTransaction (NonceTooHigh nonce _))) \<Rightarrow>
          (case list_txs od of [] \<Rightarrow> None | (tx, _) # _ \<Rightarrow> Some (tx_signer tx, nonce))
      | EE_OrderError (OE_Bundle (BE_InvalidTransaction h (TE_InvalidTransaction (NonceTooHigh nonce _)))) \<Rightarrow>
          (case find (\<lambda>(tx, _). tx_hash tx = h) (list_txs od) of
             None \<Rightarrow> None | Some (tx, _) \<Rightarrow> Some (tx_signer tx, nonce))
      | _ \<Rightarrow> None)"

record FinalizeRevertStateCurrentIteration =
  last_tx_block_space :: BlockSpace
  state_reverts :: nat

definition FinalizeRevertState_default :: FinalizeRevertStateCurrentIteration where
  "FinalizeRevertState_default = \<lparr>last_tx_block_space = BlockSpace_ZERO, state_reverts = 0\<rparr>"

record FinalizeAdjustmentState =
  revert_state :: FinalizeRevertStateCurrentIteration
  account_changed_previous_iteration :: "address list"

definition PartialBlock_new :: "bool \<Rightarrow> PartialBlock" where
  "PartialBlock_new d =
     \<lparr>discard_txs = d, pb_space_state = BlockBuildingSpaceState_ZERO, pb_coinbase_profit = 0, executed_tx_infos = [],
      combined_refunds = [], delayed_refund = 0, pb_tracer = NoTracer\<rparr>"

definition pb_with_tracer :: "SimulationTracer \<Rightarrow> PartialBlock \<Rightarrow> PartialBlock" where
  "pb_with_tracer t pb = pb\<lparr>pb_tracer := t\<rparr>"

definition reserve_block_space :: "BlockSpace \<Rightarrow> PartialBlock \<Rightarrow> PartialBlock" where
  "reserve_block_space sp pb = pb\<lparr>pb_space_state := ss_reserve_block_space sp (pb_space_state pb)\<rparr>"

definition free_reserved_block_space :: "PartialBlock \<Rightarrow> PartialBlock" where
  "free_reserved_block_space pb = pb\<lparr>pb_space_state := ss_free_reserved_block_space (pb_space_state pb)\<rparr>"

definition fork_of :: "SimulationTracer option \<Rightarrow> 'w world_state \<Rightarrow> 'w PartialBlockFork" where
  "fork_of t s = (PartialBlockFork_new (ws_world s) (ws_tx_cache s))\<lparr>pbf_tracer := t\<rparr>"

definition world_of :: "'w PartialBlockFork \<Rightarrow> 'w world_state" where
  "world_of f = \<lparr>ws_world = pbf_state f, ws_tx_cache = pbf_tx_cache f\<rparr>"

definition keep_tracer :: "'w PartialBlockFork \<Rightarrow> PartialBlock \<Rightarrow> PartialBlock" where
  "keep_tracer f pb = (case pbf_tracer f of None \<Rightarrow> pb | Some t \<Rightarrow> pb\<lparr>pb_tracer := t\<rparr>)"

section \<open>Orders\<close>

text \<open>The sum of signed 256-bit integers wraps.\<close>

definition I256_add :: "I256 \<Rightarrow> I256 \<Rightarrow> I256" where
  "I256_add a b = (a + b + 2 ^ 255) mod 2 ^ 256 - 2 ^ 255"

definition I256_sum :: "I256 list \<Rightarrow> I256" where
  "I256_sum xs = foldl I256_add 0 xs"

definition create_sim_value :: "Order \<Rightarrow> OrderOk \<Rightarrow> MempoolTxsDetector \<Rightarrow> SimValue" where
  "create_sim_value od order_ok mempool_detector =
     (let non_mempool_coinbase_profit = (case od of
            Order_Tx _ \<Rightarrow> oo_coinbase_profit order_ok
          | _ \<Rightarrow>
              (let mempool_coinbase_profit =
                     I256_sum (map tei_coinbase_profit (filter (\<lambda>i. is_mempool mempool_detector (tei_tx i)) (oo_tx_infos order_ok)))
               in if mempool_coinbase_profit > 0
                  then saturating_sub (oo_coinbase_profit order_ok) (word_of_int mempool_coinbase_profit)
                  else oo_coinbase_profit order_ok))
      in SimValue_new (oo_coinbase_profit order_ok) non_mempool_coinbase_profit (oo_space_used order_ok) (oo_paid_kickbacks order_ok))"

text \<open>The part of \<^verbatim>\<open>commit_order_inner\<close> that works on the fork.\<close>

definition commit_filtered ::
  "'w evm_lib \<Rightarrow> BlockBuildingContext \<Rightarrow> hash_orders \<Rightarrow> MempoolTxsDetector \<Rightarrow> SimulatedOrder \<Rightarrow> (SimValue \<Rightarrow> (unit, ExecutionError) result)
     \<Rightarrow> PartialBlock \<Rightarrow> ((OrderOk \<times> SimValue, ExecutionError) result, 'w) commit" where
  "commit_filtered lib ctx ho detector od result_filter pb = (\<lambda>fork.
     let rollback_point = rollbacks fork
     in try_bind (commit_order lib ctx ho (so_order od) (pb_space_state pb) (discard_txs pb) (combined_refunds pb)) (\<lambda>exec_result.
          case exec_result of
            Err e \<Rightarrow> return_ok (Err (EE_OrderError e))
          | Ok ok_result \<Rightarrow>
              (let inplace_sim = create_sim_value (so_order od) ok_result detector
               in case result_filter inplace_sim of
                    Err e \<Rightarrow> try_bind (rollback lib rollback_point) (\<lambda>_. return_ok (Err e))
                  | Ok _ \<Rightarrow> return_ok (Ok (ok_result, inplace_sim)))) fork)"

text \<open>What a committed order adds to the block.\<close>

definition add_order_ok :: "OrderOk \<Rightarrow> PartialBlock \<Rightarrow> PartialBlock" where
  "add_order_ok ok pb =
     (let pb = pb\<lparr>pb_space_state := use_space (oo_space_used ok) (pb_space_state pb),
                  pb_coinbase_profit := pb_coinbase_profit pb + oo_coinbase_profit ok,
                  executed_tx_infos := executed_tx_infos pb @ oo_tx_infos ok\<rparr>
      in case oo_delayed_kickback ok of
           None \<Rightarrow> pb
         | Some k \<Rightarrow>
             if dk_should_pay_in_block k
             then pb\<lparr>pb_space_state := ss_reserve_block_space (dk_payout_tx_space_needed k) (pb_space_state pb),
                     combined_refunds := add_payout (dk_recipient k) (dk_payout_value k) (combined_refunds pb)\<rparr>
             else pb\<lparr>delayed_refund := delayed_refund pb + dk_payout_value k\<rparr>)"

definition pb_commit_order ::
  "'w evm_lib \<Rightarrow> BlockBuildingContext \<Rightarrow> hash_orders \<Rightarrow> MempoolTxsDetector \<Rightarrow> SimulatedOrder \<Rightarrow> (SimValue \<Rightarrow> (unit, ExecutionError) result)
     \<Rightarrow> PartialBlock \<times> 'w world_state
     \<Rightarrow> ((ExecutionResult, ExecutionError) result, commit_failure) result \<times> (PartialBlock \<times> 'w world_state)" where
  "pb_commit_order lib ctx ho detector od result_filter st =
     (let (pb, s) = st;
          (r, fork) = commit_filtered lib ctx ho detector od result_filter pb (fork_of (Some (pb_tracer pb)) s);
          pb = keep_tracer fork pb
      in case r of
           Err e \<Rightarrow> (Err e, (pb, world_of fork))
         | Ok (Err e) \<Rightarrow> (Ok (Err e), (pb, world_of fork))
         | Ok (Ok (ok, inplace_sim)) \<Rightarrow>
             (Ok (Ok \<lparr>er_coinbase_profit = oo_coinbase_profit ok, er_inplace_sim = inplace_sim,
                er_space_used = oo_space_used ok, er_order = so_order od, er_tx_infos = oo_tx_infos ok,
                er_original_order_ids = oo_original_order_ids ok, er_nonces_updated = oo_nonces_updated ok,
                er_paid_kickbacks = oo_paid_kickbacks ok, er_delayed_kickback = oo_delayed_kickback ok\<rparr>),
              (add_order_ok ok pb, world_of fork)))"

section \<open>Payouts\<close>

definition get_proposer_payout_tx_value :: "u64 \<Rightarrow> BlockBuildingContext \<Rightarrow> PartialBlock \<Rightarrow> (U256, InsertPayoutTxErr) result" where
  "get_proposer_payout_tx_value gas_limit ctx pb =
     (case Option.bind (checked_sub (pb_coinbase_profit pb) (ucast gas_limit * ucast (ctx_basefee ctx)))
             (\<lambda>profit. checked_sub profit (ctx_mev_blocker_price ctx)) of
        None \<Rightarrow> Err IPE_ProfitTooLow
      | Some v \<Rightarrow> Ok v)"

text \<open>
  The payouts work on the partial block and on one fork; what they did before an error stays.  An error of
  the fork is critical, and so is a panic of the code.
\<close>

type_synonym ('a, 'w) payout_op =
  "PartialBlock \<times> 'w PartialBlockFork \<Rightarrow> ('a, InsertPayoutTxErr) result \<times> (PartialBlock \<times> 'w PartialBlockFork)"

definition on_fork :: "('a, 'w) commit \<Rightarrow> ('a, 'w) payout_op" where
  "on_fork f st =
     (case f (snd st) of
        (Err e, fork) \<Rightarrow> (Err (IPE_CriticalCommitError e), (fst st, fork))
      | (Ok a, fork) \<Rightarrow> (Ok a, (fst st, fork)))"

text \<open>Committing a payout of the builder and adding it to the block.\<close>

definition commit_payout_tx ::
  "'w evm_lib \<Rightarrow> BlockBuildingContext \<Rightarrow> InsertPayoutTxErr \<Rightarrow> u64 \<Rightarrow> address \<Rightarrow> u64 \<Rightarrow> U256 \<Rightarrow> (TransactionOk, 'w) payout_op" where
  "commit_payout_tx lib ctx reverted nonce to gas_limit value =
     (case create_payout_tx lib (ctx_chain_id ctx) (ctx_basefee ctx) (ctx_builder_signer ctx) nonce to gas_limit value of
        Err e \<Rightarrow> return_err (IPE_SignerError e)
      | Ok tx \<Rightarrow>
          try_bind (on_fork (\<lambda>fork. (no_blobs_unwrap lib tx, fork))) (\<lambda>tx.
          try_bind (\<lambda>st. on_fork (commit_tx lib ctx tx (pb_space_state (fst st))) st) (\<lambda>res.
            case res of
              Err e \<Rightarrow> return_err (IPE_TxErr e)
            | Ok ok \<Rightarrow>
                if \<not> rcp_success (tei_receipt (to_tx_info ok)) then return_err reverted
                else (\<lambda>(pb, fork). (Ok ok,
                   (pb\<lparr>pb_space_state := use_space (to_space_used ok) (pb_space_state pb),
                       executed_tx_infos := executed_tx_infos pb @ [to_tx_info ok]\<rparr>, fork))))))"

text \<open>The loop over the combined refunds; it returns the next nonce.\<close>

fun pay_combined_refunds ::
  "'w evm_lib \<Rightarrow> BlockBuildingContext \<Rightarrow> (address \<times> U256) list \<Rightarrow> u64 \<Rightarrow> (u64, 'w) payout_op" where
  "pay_combined_refunds lib ctx [] nonce = return_ok nonce"
| "pay_combined_refunds lib ctx ((recipient, amount) # refunds) nonce =
     try_bind (on_fork (read_state (state_code_hash lib recipient))) (\<lambda>code_hash.
       if code_hash \<noteq> KECCAK_EMPTY lib then pay_combined_refunds lib ctx refunds nonce
       else try_bind (commit_payout_tx lib ctx IPE_CombinedRefundTxReverted nonce recipient BASE_TX_GAS amount) (\<lambda>_.
              pay_combined_refunds lib ctx refunds (nonce + 1)))"

text \<open>\<open>refund_order\<close> is the order in which the hash map of the combined refunds is iterated.\<close>

definition insert_refunds_and_proposer_payout_tx ::
  "'w evm_lib \<Rightarrow> BlockBuildingContext \<Rightarrow> ((address \<times> U256) list \<Rightarrow> (address \<times> U256) list) \<Rightarrow> u64 \<Rightarrow> U256 \<Rightarrow> bool
     \<Rightarrow> FinalizeRevertStateCurrentIteration \<Rightarrow> PartialBlock \<times> 'w world_state
     \<Rightarrow> (FinalizeRevertStateCurrentIteration, InsertPayoutTxErr) result \<times> (PartialBlock \<times> 'w world_state)" where
  "insert_refunds_and_proposer_payout_tx lib ctx refund_order gas_limit value adjust_finalized_block revert st =
     (let pb = free_reserved_block_space (fst st); s = snd st
      in case state_nonce lib (sg_address (ctx_builder_signer ctx)) (ws_world s) of
           Err e \<Rightarrow> (Err (IPE_CriticalCommitError (Critical (CE_Reth e))), (pb, s))
         | Ok nonce \<Rightarrow>
             (case try_bind
                (if \<not> adjust_finalized_block then pay_combined_refunds lib ctx (refund_order (combined_refunds pb)) nonce
                 else return_ok nonce)
                (\<lambda>nonce. commit_payout_tx lib ctx IPE_PayoutTxReverted nonce (ctx_suggested_fee_recipient ctx) gas_limit value)
                (pb, fork_of (Some (pb_tracer pb)) s) of
                (r, (pb, fork)) \<Rightarrow>
                  (map_sum id (\<lambda>ok. revert\<lparr>last_tx_block_space := to_space_used ok,
                      state_reverts := state_reverts revert + 1\<rparr>) r,
                   (keep_tracer fork pb, world_of fork))))"

text \<open>\<open>None\<close> is the panic of the subtraction of the used space.\<close>

definition adjust_finalize_block_revert_to_prefinalized_state ::
  "'w evm_lib \<Rightarrow> FinalizeRevertStateCurrentIteration \<Rightarrow> PartialBlock \<times> 'w world_state
     \<Rightarrow> (PartialBlock \<times> 'w world_state) option" where
  "adjust_finalize_block_revert_to_prefinalized_state lib revert st =
     map_option (\<lambda>space. ((fst st)\<lparr>pb_space_state := space, executed_tx_infos := butlast (executed_tx_infos (fst st))\<rparr>,
         (snd st)\<lparr>ws_world := db_revert lib (ws_world (snd st)) (state_reverts revert)\<rparr>))
       (free_used_state (last_tx_block_space revert) (pb_space_state (fst st)))"

section \<open>Sealing\<close>

record Withdrawal =
  wd_address :: address
  wd_amount :: u64

datatype RootHashError = WrongDatabaseTrie | Verification | RH_Other string

datatype FinalizeError =
    FE_RootHash RootHashError
  | FE_BlockExecution string
  | FE_Other string
  | FE_Panicked

fun is_consistent_db_view_err :: "FinalizeError \<Rightarrow> bool" where
  "is_consistent_db_view_err (FE_RootHash e) \<longleftrightarrow> e = WrongDatabaseTrie"
| "is_consistent_db_view_err _ \<longleftrightarrow> False"

text \<open>
  The parts of the context that only sealing reads: which forks are active, the withdrawals with their encoded
  length, and the fields that go to the header.
\<close>

record seal_ctx =
  sc_prague :: bool
  sc_shanghai :: bool
  sc_cancun :: bool
  sc_osaka :: bool
  sc_withdrawals :: "Withdrawal list"
  sc_withdrawals_length :: usize
  sc_excess_blob_gas :: "u64 option"
  sc_faster_finalize :: bool
  sc_parent :: B256
  sc_prev_randao :: B256
  sc_parent_beacon_block_root :: "B256 option"
  sc_extra_data :: "u8 list"

text \<open>
  System calls, deposit parsing and withdrawals of \<^verbatim>\<open>alloy_evm\<close> and \<^verbatim>\<open>reth\<close>, and the root hasher.  System calls and balance
  increments give changes that are pending on top of a world; \<open>sl_merge_transitions\<close> adds pending changes to the world
  with one revert.
\<close>

record 'w seal_lib =
  sl_apply_pre_execution :: "'w \<Rightarrow> (EvmState list, string) result"
  sl_parse_deposits :: "Receipt list \<Rightarrow> (u8 list, string) result"
  sl_apply_post_execution :: "'w \<Rightarrow> (u8 list list \<times> EvmState list, string) result"
  sl_increment_balances :: "(address \<times> u128) list \<Rightarrow> 'w \<Rightarrow> EvmState list \<Rightarrow> EvmState option"
  sl_merge_transitions :: "'w \<Rightarrow> EvmState list \<Rightarrow> 'w"
  sl_withdrawals_root :: "Withdrawal list \<Rightarrow> B256"
  sl_requests_hash :: "u8 list list \<Rightarrow> B256"
  sl_state_root :: "'w \<Rightarrow> address list \<Rightarrow> (B256, RootHashError) result"

definition transitions_law :: "'w evm_lib \<Rightarrow> 'w seal_lib \<Rightarrow> bool" where
  "transitions_law lib sl \<longleftrightarrow> (\<forall>w cs. db_revert lib (sl_merge_transitions sl w cs) 1 = w)"

definition DEPOSIT_REQUEST_TYPE :: u8 where
  "DEPOSIT_REQUEST_TYPE = 0"

definition balance_increments :: "Withdrawal list \<Rightarrow> (address \<times> u128) list" where
  "balance_increments withdrawals =
     foldl (\<lambda>m w. if wd_amount w > 0
                  then alist_modify (wd_address w) (\<lambda>e. (case e of None \<Rightarrow> 0 | Some x \<Rightarrow> x) + ucast (wd_amount w) * 10 ^ 9) m
                  else m) [] withdrawals"

text \<open>The requests, the root of the withdrawals and the new world; without an error one revert is added.\<close>

definition process_requests ::
  "'w seal_lib \<Rightarrow> seal_ctx \<Rightarrow> PartialBlock \<Rightarrow> FinalizeRevertStateCurrentIteration \<Rightarrow> 'w
     \<Rightarrow> ((u8 list list option \<times> B256 option) \<times> FinalizeRevertStateCurrentIteration \<times> 'w, FinalizeError) result" where
  "process_requests sl sc pb revert w =
     (case (if sc_prague sc
            then (case sl_parse_deposits sl (map tei_receipt (executed_tx_infos pb)) of
                    Err e \<Rightarrow> Err (FE_BlockExecution e)
                  | Ok deposits \<Rightarrow>
                      (case sl_apply_post_execution sl w of
                         Err e \<Rightarrow> Err (FE_BlockExecution e)
                       | Ok (reqs, changes) \<Rightarrow>
                           Ok (Some ((if deposits \<noteq> [] then [DEPOSIT_REQUEST_TYPE # deposits] else []) @ reqs), changes)))
            else Ok (None, [])) of
        Err e \<Rightarrow> Err e
      | Ok (requests, changes) \<Rightarrow>
          (case (if sc_shanghai sc
                 then (case sl_increment_balances sl (balance_increments (sc_withdrawals sc)) w changes of
                         None \<Rightarrow> Err (FE_BlockExecution ''increment balance failed'')
                       | Some change \<Rightarrow> Ok (Some (sl_withdrawals_root sl (sc_withdrawals sc)), changes @ [change]))
                 else Ok (None, changes)) of
             Err e \<Rightarrow> Err e
           | Ok (withdrawals_root, changes) \<Rightarrow>
               Ok ((requests, withdrawals_root), revert\<lparr>state_reverts := state_reverts revert + 1\<rparr>,
                   sl_merge_transitions sl w changes)))"

text \<open>The accounts that changed in this and in the previous sealing, and the new state for the next one.\<close>

definition incremental_change ::
  "'w evm_lib \<Rightarrow> bool \<Rightarrow> FinalizeAdjustmentState \<Rightarrow> 'w \<Rightarrow> address list \<times> FinalizeAdjustmentState" where
  "incremental_change lib adjust_finalize_block adj w =
     (let current = get_changes_for_last_reverts lib (state_reverts (revert_state adj)) w
      in (if adjust_finalize_block then remdups_adj (sort (account_changed_previous_iteration adj @ current)) else [],
          adj\<lparr>account_changed_previous_iteration := current\<rparr>))"

definition valid_blobs_count :: "bool \<Rightarrow> BlobTransactionSidecarVariant \<Rightarrow> nat" where
  "valid_blobs_count osaka side_car =
     (case side_car of
        Eip7594_sidecar sc \<Rightarrow> if osaka then length (sc_blobs sc) else 0
      | Eip4844_sidecar sc \<Rightarrow> if osaka then 0 else length (sc_blobs sc))"

definition txs_blob_sidecars :: "seal_ctx \<Rightarrow> TransactionExecutionInfo list \<Rightarrow> BlobTransactionSidecarVariant list" where
  "txs_blob_sidecars sc infos =
     (if sc_cancun sc
      then filter (\<lambda>b. valid_blobs_count (sc_osaka sc) b > 0) (map (blobs_sidecar \<circ> tei_tx) infos)
      else [])"

text \<open>The header without the fields that are the same for every block.\<close>

record Header =
  hd_parent_hash :: B256
  hd_beneficiary :: address
  hd_state_root :: B256
  hd_transactions_root :: B256
  hd_receipts_root :: B256
  hd_withdrawals_root :: "B256 option"
  hd_logs_bloom :: Bloom
  hd_timestamp :: u64
  hd_mix_hash :: B256
  hd_base_fee_per_gas :: u64
  hd_number :: u64
  hd_gas_limit :: u64
  hd_gas_used :: u64
  hd_extra_data :: "u8 list"
  hd_parent_beacon_block_root :: "B256 option"
  hd_blob_gas_used :: "u64 option"
  hd_excess_blob_gas :: "u64 option"
  hd_requests_hash :: "B256 option"

record FinalizeResult =
  fr_header :: Header
  fr_transactions :: "TransactionSigned list"
  fr_withdrawals :: "Withdrawal list option"
  fr_txs_blob_sidecars :: "BlobTransactionSidecarVariant list"
  fr_execution_requests :: "u8 list list"

text \<open>The caches of the thread (\<^verbatim>\<open>ThreadBlockBuildingContext\<close>) that sealing uses.\<close>

record 't seal_caches =
  bloom_cache :: "'t ReceiptsDataCache"
  tx_root_cache :: 't

definition finalize ::
  "'w evm_lib \<Rightarrow> 'w seal_lib \<Rightarrow> 't node_trie_ops \<Rightarrow> receipts_lib \<Rightarrow> BlockBuildingContext \<Rightarrow> seal_ctx \<Rightarrow> PartialBlock \<Rightarrow> bool
     \<Rightarrow> FinalizeAdjustmentState \<times> 't seal_caches \<times> 'w
     \<Rightarrow> (FinalizeResult, FinalizeError) result \<times> (FinalizeAdjustmentState \<times> 't seal_caches \<times> 'w)" where
  "finalize lib sl ops rl ctx sc pb adjust_finalize_block st =
     (let (adj, caches, w) = st
      in case process_requests sl sc pb (revert_state adj) w of
        Err e \<Rightarrow> (Err e, st)
      | Ok ((requests, withdrawals_root), revert, w) \<Rightarrow>
          (case calculate_receipts_data ops rl (executed_tx_infos pb) (sc_faster_finalize sc) adjust_finalize_block (bloom_cache caches) of
             None \<Rightarrow> (Err FE_Panicked, (adj\<lparr>revert_state := revert\<rparr>, caches, w))
           | Some (rd, bloom) \<Rightarrow>
               (let caches = caches\<lparr>bloom_cache := bloom\<rparr>;
                    (changes, adj) = incremental_change lib adjust_finalize_block (adj\<lparr>revert_state := revert\<rparr>) w
                in case sl_state_root sl w changes of
                     Err e \<Rightarrow> (Err (FE_RootHash e), (adj, caches, w))
                   | Ok state_root \<Rightarrow>
                       (case calculate_tx_root_and_placeholder_proof ops rl (executed_tx_infos pb) (sc_faster_finalize sc)
                               adjust_finalize_block (tx_root_cache caches) of
                          None \<Rightarrow> (Err FE_Panicked, (adj, caches, w))
                        | Some ((transactions_root, _), tx_root) \<Rightarrow>
                            (Ok \<lparr>fr_header =
                                  \<lparr>hd_parent_hash = sc_parent sc, hd_beneficiary = ctx_beneficiary ctx, hd_state_root = state_root,
                                   hd_transactions_root = transactions_root, hd_receipts_root = rd_receipts_root rd,
                                   hd_withdrawals_root = withdrawals_root, hd_logs_bloom = rd_logs_bloom rd,
                                   hd_timestamp = ctx_timestamp ctx, hd_mix_hash = sc_prev_randao sc,
                                   hd_base_fee_per_gas = ctx_basefee ctx, hd_number = ctx_block_number ctx,
                                   hd_gas_limit = ctx_gas_limit ctx, hd_gas_used = ss_gas_used (pb_space_state pb),
                                   hd_extra_data = sc_extra_data sc, hd_parent_beacon_block_root = sc_parent_beacon_block_root sc,
                                   hd_blob_gas_used = (if sc_cancun sc then Some (ss_blob_gas_used (pb_space_state pb)) else None),
                                   hd_excess_blob_gas = (if sc_cancun sc then sc_excess_blob_gas sc else None),
                                   hd_requests_hash = map_option (sl_requests_hash sl) requests\<rparr>,
                                 fr_transactions = map (rec_inner \<circ> tx_inner \<circ> tei_tx) (executed_tx_infos pb),
                                 fr_withdrawals = (if sc_shanghai sc then Some (sc_withdrawals sc) else None),
                                 fr_txs_blob_sidecars = txs_blob_sidecars sc (executed_tx_infos pb),
                                 fr_execution_requests = (case requests of None \<Rightarrow> [] | Some rs \<Rightarrow> rs)\<rparr>,
                             (adj, caches\<lparr>tx_root_cache := tx_root\<rparr>, w))))))"

definition BLOCK_HEADER_RLP_OVERHEAD :: usize where
  "BLOCK_HEADER_RLP_OVERHEAD = 1024"

definition pre_block_call ::
  "'w seal_lib \<Rightarrow> seal_ctx \<Rightarrow> PartialBlock \<times> 'w world_state \<Rightarrow> (unit, string) result \<times> (PartialBlock \<times> 'w world_state)" where
  "pre_block_call sl sc st =
     (let pb = (fst st)\<lparr>pb_space_state := use_space (BlockSpace_new 0 (sc_withdrawals_length sc + BLOCK_HEADER_RLP_OVERHEAD) 0)
                  (pb_space_state (fst st))\<rparr>
      in case sl_apply_pre_execution sl (ws_world (snd st)) of
           Err e \<Rightarrow> (Err e, (pb, snd st))
         | Ok changes \<Rightarrow> (Ok (), (pb, (snd st)\<lparr>ws_world := sl_merge_transitions sl (ws_world (snd st)) changes\<rparr>)))"

section \<open>The trace of a block\<close>

record BuiltBlockTrace =
  included_orders :: "ExecutionResult list"
  bid_value :: U256
  bbt_subsidy :: I256
  coinbase_reward :: U256
  true_bid_value :: U256
  bbt_mev_blocker_price :: U256
  bbt_seen_competition_bid :: "U256 option"
  available_orders_statistics :: OrderStatistics
  considered_orders_statistics :: OrderStatistics
  failed_orders_statistics :: OrderStatistics
  filtered_build_considered_orders_statistics :: OrderStatistics
  filtered_build_failed_orders_statistics :: OrderStatistics
  bbt_appended_constraint_txs :: "B256 list"

definition BuiltBlockTrace_new :: BuiltBlockTrace where
  "BuiltBlockTrace_new =
     \<lparr>included_orders = [], bid_value = 0, bbt_subsidy = 0, coinbase_reward = 0, true_bid_value = 0,
      bbt_mev_blocker_price = 0, bbt_seen_competition_bid = None,
      available_orders_statistics = OrderStatistics_new, considered_orders_statistics = OrderStatistics_new,
      failed_orders_statistics = OrderStatistics_new, filtered_build_considered_orders_statistics = OrderStatistics_new,
      filtered_build_failed_orders_statistics = OrderStatistics_new, bbt_appended_constraint_txs = []\<rparr>"

definition set_filtered_build_statistics :: "OrderStatistics \<Rightarrow> OrderStatistics \<Rightarrow> BuiltBlockTrace \<Rightarrow> BuiltBlockTrace" where
  "set_filtered_build_statistics considered failed t =
     t\<lparr>filtered_build_considered_orders_statistics := considered, filtered_build_failed_orders_statistics := failed\<rparr>"

definition add_included_order :: "ExecutionResult \<Rightarrow> BuiltBlockTrace \<Rightarrow> BuiltBlockTrace" where
  "add_included_order r t = t\<lparr>included_orders := included_orders t @ [r]\<rparr>"

definition add_considered_order :: "SimulatedOrder \<Rightarrow> BuiltBlockTrace \<Rightarrow> BuiltBlockTrace" where
  "add_considered_order od t = t\<lparr>considered_orders_statistics := stats_add (considered_orders_statistics t) (so_order od)\<rparr>"

definition add_failed_order :: "SimulatedOrder \<Rightarrow> BuiltBlockTrace \<Rightarrow> BuiltBlockTrace" where
  "add_failed_order od t = t\<lparr>failed_orders_statistics := stats_add (failed_orders_statistics t) (so_order od)\<rparr>"

fun used_order_count_step :: "nat \<times> nat \<times> nat \<Rightarrow> Order \<Rightarrow> nat \<times> nat \<times> nat" where
  "used_order_count_step (t, b, s) (Order_Tx _) = (t + 1, b, s)"
| "used_order_count_step (t, b, s) (Order_Bundle _) = (t, b + 1, s)"
| "used_order_count_step (t, b, s) (Order_ShareBundle _) = (t, b, s + 1)"

definition used_order_count :: "BuiltBlockTrace \<Rightarrow> nat \<times> nat \<times> nat" where
  "used_order_count t = foldl (\<lambda>acc r. used_order_count_step acc (er_order r)) (0, 0, 0) (included_orders t)"

datatype BuiltBlockTraceError =
    BT_DuplicateReplacementData OrderReplacementKey
  | BT_BlockedAddress
  | BT_BundleTxReverted OrderId B256

text \<open>A transaction may revert when one of its occurrences in the order may.\<close>

fun revertible_txs ::
  "(TransactionSignedEcRecoveredWithBlobs \<times> bool) list \<Rightarrow> (B256 \<Rightarrow> bool option) \<Rightarrow> B256 \<Rightarrow> bool option" where
  "revertible_txs [] m = m"
| "revertible_txs ((tx, can_rev) # txs) m =
     (case m (tx_hash tx) of
        None \<Rightarrow> revertible_txs txs (m(tx_hash tx \<mapsto> can_rev))
      | Some can_revert_stored \<Rightarrow> revertible_txs txs (if \<not> can_revert_stored \<and> can_rev then m(tx_hash tx \<mapsto> can_rev) else m))"

definition blocked_address :: "address list \<Rightarrow> TransactionSignedEcRecoveredWithBlobs \<Rightarrow> bool" where
  "blocked_address blocklist tx \<longleftrightarrow> tx_signer tx \<in> set blocklist \<or>
     (case tx_to tx of None \<Rightarrow> False | Some to \<Rightarrow> to \<in> set blocklist)"

definition verify_order :: "address list \<Rightarrow> ExecutionResult \<Rightarrow> (unit, BuiltBlockTraceError) result" where
  "verify_order blocklist res =
     (if list_ex (\<lambda>i. blocked_address blocklist (tei_tx i)) (er_tx_infos res) then Err BT_BlockedAddress
      else
        (let bundle_txs = revertible_txs (list_txs (er_order res)) (\<lambda>_. None)
         in case find (\<lambda>i. \<not> rcp_success (tei_receipt i) \<and> bundle_txs (tx_hash (tei_tx i)) = Some False) (er_tx_infos res) of
              Some i \<Rightarrow> Err (BT_BundleTxReverted (order_id (er_order res)) (tx_hash (tei_tx i)))
            | None \<Rightarrow> Ok ()))"

fun verify_orders :: "address list \<Rightarrow> ExecutionResult list \<Rightarrow> (unit, BuiltBlockTraceError) result" where
  "verify_orders blocklist [] = Ok ()"
| "verify_orders blocklist (r # rs) =
     (case verify_order blocklist r of Err e \<Rightarrow> Err e | Ok _ \<Rightarrow> verify_orders blocklist rs)"

definition verify_bundle_consistency :: "address list \<Rightarrow> BuiltBlockTrace \<Rightarrow> (unit, BuiltBlockTraceError) result" where
  "verify_bundle_consistency blocklist t = verify_orders blocklist (included_orders t)"

end
