(* ===== verification/Block_Helper.thy ===== *)
theory Block_Helper
  imports Partial_Block
begin

text \<open>
  The helper that builders use to fill and seal a block
  (\<^verbatim>\<open>rbuilder/src/building/builders/block_building_helper.rs\<close>): committing orders, appending the transactions of
  inclusion constraints that are not in the block yet, the payout to the proposer, sealing, and sealing again with
  another payout.  Telemetry, log messages and durations are left out.
\<close>

section \<open>The helper\<close>

text \<open>
  Libraries and contexts of a helper: the EVM, the system calls, the tries, the codec of raw transactions, the iteration orders of
  the hash maps, and the parts of \<^verbatim>\<open>BlockBuildingContext\<close>.
\<close>

record ('w, 't, 'r) helper_env =
  he_lib :: "'w evm_lib"
  he_seal_lib :: "'w seal_lib"
  he_trie :: "'t node_trie_ops"
  he_receipts :: receipts_lib
  he_codec :: "'r tx_codec"
  he_orders :: hash_orders
  he_refund_order :: "(address \<times> U256) list \<Rightarrow> (address \<times> U256) list"
  he_ctx :: BlockBuildingContext
  he_seal_ctx :: seal_ctx
  he_constraints :: "Constraints list"
  he_detector :: MempoolTxsDetector

record 'w BlockBuildingHelperFromProvider =
  fee_recipient_balance_start :: U256
  bbh_partial_block :: PartialBlock
  bbh_block_state :: "'w world_state"
  payout_tx_gas :: u64
  bbh_trace :: BuiltBlockTrace
  bbh_cancelled :: bool
  bbh_adjustment_state :: "FinalizeAdjustmentState option"

datatype BlockBuildingHelperError =
    BHE_ProviderError ProviderError
  | BHE_UnableToEstimatePayoutGas EstimatePayoutGasErr
  | BHE_PreBlockCallFailed
  | BHE_InsertPayoutTxErr InsertPayoutTxErr
  | BHE_BundleConsistencyCheckFailed BuiltBlockTraceError
  | BHE_FinalizeError FinalizeError
  | BHE_HistoricalBlockError
  | BHE_BlockFinalizedIncorrectly
  | BHE_Panicked
  | BHE_Diverged

fun is_critical :: "BlockBuildingHelperError \<Rightarrow> bool" where
  "is_critical (BHE_FinalizeError e) \<longleftrightarrow> \<not> is_consistent_db_view_err e"
| "is_critical (BHE_InsertPayoutTxErr IPE_ProfitTooLow) \<longleftrightarrow> False"
| "is_critical _ \<longleftrightarrow> True"

text \<open>\<open>healthy\<close> is the answer of the check of the block hash reader, an access to the database.\<close>

definition Helper_new ::
  "('w, 't, 'r) helper_env \<Rightarrow> bool \<Rightarrow> 'w world_state \<Rightarrow> bool \<Rightarrow> OrderStatistics
     \<Rightarrow> ('w BlockBuildingHelperFromProvider, BlockBuildingHelperError) result" where
  "Helper_new env healthy s discard available =
     (if \<not> healthy then Err BHE_HistoricalBlockError
      else case state_balance (he_lib env) (ctx_suggested_fee_recipient (he_ctx env)) (ws_world s) of
        Err e \<Rightarrow> Err (BHE_ProviderError e)
      | Ok balance_start \<Rightarrow>
          (case pre_block_call (he_seal_lib env) (he_seal_ctx env)
                  (pb_with_tracer (GasUsedSimulationTracer 0) (PartialBlock_new discard), s) of
             (Err _, _) \<Rightarrow> Err BHE_PreBlockCallFailed
           | (Ok _, (pb, s)) \<Rightarrow>
               (case estimate_payout_gas_limit (he_lib env) (ctx_suggested_fee_recipient (he_ctx env)) (he_ctx env)
                       (ws_world s) BlockSpace_ZERO of
                  None \<Rightarrow> Err BHE_Diverged
                | Some (Err e) \<Rightarrow> Err (BHE_UnableToEstimatePayoutGas e)
                | Some (Ok payout_tx_space) \<Rightarrow>
                    Ok \<lparr>fee_recipient_balance_start = balance_start,
                        bbh_partial_block = reserve_block_space payout_tx_space pb, bbh_block_state = s,
                        payout_tx_gas = gas payout_tx_space,
                        bbh_trace = BuiltBlockTrace_new\<lparr>available_orders_statistics := available\<rparr>,
                        bbh_cancelled = False, bbh_adjustment_state = None\<rparr>)))"

definition true_block_value ::
  "('w, 't, 'r) helper_env \<Rightarrow> 'w BlockBuildingHelperFromProvider \<Rightarrow> (U256, BlockBuildingHelperError) result" where
  "true_block_value env h =
     (case get_proposer_payout_tx_value (payout_tx_gas h) (he_ctx env) (bbh_partial_block h) of
        Err e \<Rightarrow> Err (BHE_InsertPayoutTxErr e)
      | Ok v \<Rightarrow> Ok v)"

definition helper_commit_order ::
  "('w, 't, 'r) helper_env \<Rightarrow> SimulatedOrder \<Rightarrow> (SimValue \<Rightarrow> (unit, ExecutionError) result) \<Rightarrow> 'w BlockBuildingHelperFromProvider
     \<Rightarrow> ((ExecutionResult, ExecutionError) result, commit_failure) result \<times> 'w BlockBuildingHelperFromProvider" where
  "helper_commit_order env od result_filter h =
     (let trace = add_considered_order od (bbh_trace h);
          (r, (pb, s)) = pb_commit_order (he_lib env) (he_ctx env) (he_orders env) (he_detector env) od result_filter
            (bbh_partial_block h, bbh_block_state h);
          h = h\<lparr>bbh_partial_block := pb, bbh_block_state := s\<rparr>
      in case r of
           Err e \<Rightarrow> (Err e, h\<lparr>bbh_trace := trace\<rparr>)
         | Ok (Err e) \<Rightarrow> (Ok (Err e), h\<lparr>bbh_trace := add_failed_order od trace\<rparr>)
         | Ok (Ok res) \<Rightarrow> (Ok (Ok res), h\<lparr>bbh_trace := add_included_order res trace\<rparr>))"

section \<open>Constraints\<close>

definition decode_constraint_tx ::
  "('w, 't, 'r) helper_env \<Rightarrow> u8 list \<Rightarrow> (TransactionSignedEcRecoveredWithBlobs, BlockBuildingHelperError) result" where
  "decode_constraint_tx env bytes =
     (case RawTx_decode (he_codec env) (clock_now (he_lib env)) NoBlobData bytes of
        Err _ \<Rightarrow> Err (BHE_ProviderError ''Failed to decode constraint transaction'')
      | Ok tx \<Rightarrow> Ok (tx_with_blobs tx))"

definition compute_constraint_tx_hash ::
  "('w, 't, 'r) helper_env \<Rightarrow> u8 list \<Rightarrow> (B256, BlockBuildingHelperError) result" where
  "compute_constraint_tx_hash env bytes = map_sum id tx_hash (decode_constraint_tx env bytes)"

definition execute_constraint_transaction ::
  "('w, 't, 'r) helper_env \<Rightarrow> u8 list \<Rightarrow> 'w BlockBuildingHelperFromProvider
     \<Rightarrow> (bool, BlockBuildingHelperError) result \<times> 'w BlockBuildingHelperFromProvider" where
  "execute_constraint_transaction env bytes h =
     (case decode_constraint_tx env bytes of
        Err e \<Rightarrow> (Err e, h)
      | Ok tx \<Rightarrow>
          (case commit_tx (he_lib env) (he_ctx env) tx (pb_space_state (bbh_partial_block h)) (fork_of None (bbh_block_state h)) of
             (Ok (Ok res), fork) \<Rightarrow>
               (let pb = bbh_partial_block h
                in (Ok True, h\<lparr>bbh_block_state := world_of fork, bbh_partial_block :=
                     pb\<lparr>pb_space_state := use_space (to_space_used res) (pb_space_state pb),
                        pb_coinbase_profit := pb_coinbase_profit pb + word_of_int \<bar>tei_coinbase_profit (to_tx_info res)\<bar>,
                        executed_tx_infos := executed_tx_infos pb @ [to_tx_info res]\<rparr>\<rparr>))
           | (Ok (Err _), fork) \<Rightarrow> (Ok False, h\<lparr>bbh_block_state := world_of fork\<rparr>)
           | (Err (Critical _), fork) \<Rightarrow>
               (Err (BHE_ProviderError ''Critical error executing constraint transaction''), h\<lparr>bbh_block_state := world_of fork\<rparr>)
           | (Err _, fork) \<Rightarrow> (Err BHE_Panicked, h\<lparr>bbh_block_state := world_of fork\<rparr>)))"

text \<open>The loops over the constraints and their transactions.\<close>

definition already_included :: "('w, 't, 'r) helper_env \<Rightarrow> B256 set \<Rightarrow> u8 list \<Rightarrow> bool" where
  "already_included env executed_tx_hashes bytes =
     (case compute_constraint_tx_hash env bytes of Ok h \<Rightarrow> h \<in> executed_tx_hashes | Err _ \<Rightarrow> False)"

definition track_appended :: "'w BlockBuildingHelperFromProvider \<Rightarrow> 'w BlockBuildingHelperFromProvider" where
  "track_appended h =
     (case executed_tx_infos (bbh_partial_block h) of
        [] \<Rightarrow> h
      | infos \<Rightarrow> h\<lparr>bbh_trace := (bbh_trace h)\<lparr>bbt_appended_constraint_txs :=
                    bbt_appended_constraint_txs (bbh_trace h) @ [tx_hash (tei_tx (last infos))]\<rparr>\<rparr>)"

fun append_constraint_txs ::
  "('w, 't, 'r) helper_env \<Rightarrow> B256 set \<Rightarrow> u8 list list \<Rightarrow> 'w BlockBuildingHelperFromProvider
     \<Rightarrow> (unit, BlockBuildingHelperError) result \<times> 'w BlockBuildingHelperFromProvider" where
  "append_constraint_txs env executed_tx_hashes [] h = (Ok (), h)"
| "append_constraint_txs env executed_tx_hashes (bytes # raws) h =
     (if already_included env executed_tx_hashes bytes then append_constraint_txs env executed_tx_hashes raws h
      else case execute_constraint_transaction env bytes h of
             (Ok True, h) \<Rightarrow> append_constraint_txs env executed_tx_hashes raws (track_appended h)
           | (Ok False, h) \<Rightarrow> append_constraint_txs env executed_tx_hashes raws h
           | (Err e, h) \<Rightarrow> (Err e, h))"

definition constrained_raw_txs :: "Constraints list \<Rightarrow> u8 list list" where
  "constrained_raw_txs cs = concat (map (\<lambda>c. cm_transactions (message c)) cs)"

definition insert_constraint_transactions ::
  "('w, 't, 'r) helper_env \<Rightarrow> 'w BlockBuildingHelperFromProvider
     \<Rightarrow> (unit, BlockBuildingHelperError) result \<times> 'w BlockBuildingHelperFromProvider" where
  "insert_constraint_transactions env h =
     (if he_constraints env = [] then (Ok (), h)
      else append_constraint_txs env (set (map (tx_hash \<circ> tei_tx) (executed_tx_infos (bbh_partial_block h))))
             (constrained_raw_txs (he_constraints env)) h)"

section \<open>Sealing\<close>

definition finalize_block_execution ::
  "('w, 't, 'r) helper_env \<Rightarrow> U256 \<Rightarrow> I256 \<Rightarrow> bool \<Rightarrow> FinalizeRevertStateCurrentIteration \<Rightarrow> 'w BlockBuildingHelperFromProvider
     \<Rightarrow> (FinalizeRevertStateCurrentIteration, BlockBuildingHelperError) result \<times> 'w BlockBuildingHelperFromProvider" where
  "finalize_block_execution env payout_tx_value subsidy adjust_finalized_block revert h =
     (case insert_constraint_transactions env
             (h\<lparr>bbh_trace := (bbh_trace h)\<lparr>coinbase_reward := pb_coinbase_profit (bbh_partial_block h)\<rparr>\<rparr>) of
        (Err e, h) \<Rightarrow> (Err e, h)
      | (Ok _, h) \<Rightarrow>
          (case insert_refunds_and_proposer_payout_tx (he_lib env) (he_ctx env) (he_refund_order env) (payout_tx_gas h)
                  payout_tx_value adjust_finalized_block revert (bbh_partial_block h, bbh_block_state h) of
             (r, (pb, s)) \<Rightarrow>
               (let h = h\<lparr>bbh_partial_block := pb, bbh_block_state := s\<rparr>
                in case r of
                     Err e \<Rightarrow> (Err (BHE_InsertPayoutTxErr e), h)
                   | Ok revert \<Rightarrow>
                       (case true_block_value env h of
                          Err e \<Rightarrow> (Err e, h)
                        | Ok true_value \<Rightarrow>
                            (case state_balance (he_lib env) (ctx_suggested_fee_recipient (he_ctx env)) (ws_world s) of
                               Err e \<Rightarrow> (Err (BHE_ProviderError e), h)
                             | Ok balance_after \<Rightarrow>
                                 (let diff = (case checked_sub balance_after (fee_recipient_balance_start h) of
                                                None \<Rightarrow> 0 | Some d \<Rightarrow> d)
                                  in (Ok revert, h\<lparr>bbh_trace := (bbh_trace h)\<lparr>bid_value := max payout_tx_value diff,
                                        bbt_subsidy := subsidy, true_bid_value := true_value,
                                        bbt_mev_blocker_price := ctx_mev_blocker_price (he_ctx env)\<rparr>\<rparr>)))))))"

record sealed =
  sealed_trace :: BuiltBlockTrace
  sealed_block :: FinalizeResult

type_synonym ('w, 't) helper_state = "'w BlockBuildingHelperFromProvider \<times> 't seal_caches"

text \<open>The revert at the start of an adjustment; \<open>None\<close> is its panic.\<close>

definition revert_for_adjustment ::
  "('w, 't, 'r) helper_env \<Rightarrow> bool \<Rightarrow> FinalizeRevertStateCurrentIteration \<Rightarrow> 'w BlockBuildingHelperFromProvider
     \<Rightarrow> 'w BlockBuildingHelperFromProvider option" where
  "revert_for_adjustment env adjust_finalized_block revert h =
     (if adjust_finalized_block
      then map_option (\<lambda>(pb, s). h\<lparr>bbh_partial_block := pb, bbh_block_state := s\<rparr>)
             (adjust_finalize_block_revert_to_prefinalized_state (he_lib env) revert (bbh_partial_block h, bbh_block_state h))
      else Some h)"

definition finalize_block_impl ::
  "('w, 't, 'r) helper_env \<Rightarrow> U256 \<Rightarrow> I256 \<Rightarrow> U256 option \<Rightarrow> bool \<Rightarrow> ('w, 't) helper_state
     \<Rightarrow> (sealed, BlockBuildingHelperError) result \<times> ('w, 't) helper_state" where
  "finalize_block_impl env payout_tx_value subsidy seen_competition_bid adjust_finalized_block st =
     (let (h, caches) = st
      in if adjust_finalized_block \<noteq> (bbh_adjustment_state h \<noteq> None) then (Err BHE_BlockFinalizedIncorrectly, st)
         else
           let previous = (case bbh_adjustment_state h of
                  None \<Rightarrow> \<lparr>revert_state = FinalizeRevertState_default, account_changed_previous_iteration = []\<rparr>
                | Some a \<Rightarrow> a);
               h = h\<lparr>bbh_adjustment_state := None\<rparr>
           in case revert_for_adjustment env adjust_finalized_block (revert_state previous) h of
                None \<Rightarrow> (Err BHE_Panicked, (h, caches))
              | Some h \<Rightarrow>
                  (case finalize_block_execution env payout_tx_value subsidy adjust_finalized_block FinalizeRevertState_default h of
                     (Err e, h) \<Rightarrow> (Err e, (h, caches))
                   | (Ok revert, h) \<Rightarrow>
                       (case (if \<not> adjust_finalized_block
                              then verify_bundle_consistency (ctx_blocklist (he_ctx env)) (bbh_trace h) else Ok ()) of
                          Err e \<Rightarrow> (Err (BHE_BundleConsistencyCheckFailed e), (h, caches))
                        | Ok _ \<Rightarrow>
                            (case finalize (he_lib env) (he_seal_lib env) (he_trie env) (he_receipts env) (he_ctx env)
                                    (he_seal_ctx env) (bbh_partial_block h) adjust_finalized_block
                                    (previous\<lparr>revert_state := revert\<rparr>, caches, ws_world (bbh_block_state h)) of
                               (r, (adj, caches, w)) \<Rightarrow>
                                 (let h = h\<lparr>bbh_block_state := (bbh_block_state h)\<lparr>ws_world := w\<rparr>\<rparr>
                                  in case r of
                                       Err FE_Panicked \<Rightarrow> (Err BHE_Panicked, (h, caches))
                                     | Err e \<Rightarrow>
                                         (Err (BHE_FinalizeError e),
                                          (if is_consistent_db_view_err e then h\<lparr>bbh_cancelled := True\<rparr> else h, caches))
                                     | Ok block \<Rightarrow>
                                         (let trace = (bbh_trace h)\<lparr>bbt_seen_competition_bid := seen_competition_bid\<rparr>
                                          in (Ok \<lparr>sealed_trace = trace, sealed_block = block\<rparr>,
                                              (h\<lparr>bbh_trace := trace, bbh_adjustment_state := Some adj\<rparr>, caches))))))))"

definition finalize_block ::
  "('w, 't, 'r) helper_env \<Rightarrow> U256 \<Rightarrow> I256 \<Rightarrow> U256 option \<Rightarrow> ('w, 't) helper_state
     \<Rightarrow> (sealed, BlockBuildingHelperError) result \<times> ('w, 't) helper_state" where
  "finalize_block env payout_tx_value subsidy seen_competition_bid =
     finalize_block_impl env payout_tx_value subsidy seen_competition_bid False"

definition adjust_finalized_block ::
  "('w, 't, 'r) helper_env \<Rightarrow> U256 \<Rightarrow> I256 \<Rightarrow> U256 option \<Rightarrow> ('w, 't) helper_state
     \<Rightarrow> (sealed, BlockBuildingHelperError) result \<times> ('w, 't) helper_state" where
  "adjust_finalized_block env payout_tx_value subsidy seen_competition_bid =
     finalize_block_impl env payout_tx_value subsidy seen_competition_bid True"

end
