(* ===== verification/Block_Laws.thy ===== *)
theory Block_Laws
  imports Block_Helper
begin

text \<open>
  What building a block guarantees: the header and the receipts of a sealed block agree with the executed
  transactions, the consistency check at the end never fails, sealing again starts from the state before the
  payout, and what happens to constrained transactions.
\<close>

section \<open>What operations add to a block\<close>

text \<open>The block \<open>pb'\<close> has more transactions than \<open>pb\<close>, with their space and receipts accounted for.\<close>

definition block_grows :: "PartialBlock \<Rightarrow> PartialBlock \<Rightarrow> bool" where
  "block_grows pb pb' \<longleftrightarrow> (\<exists>infos. executed_tx_infos pb' = executed_tx_infos pb @ infos \<and>
     ss_space_used (pb_space_state pb') = BlockSpace_add (ss_space_used (pb_space_state pb)) (total_space infos) \<and>
     receipts_ok (gas (ss_space_used (pb_space_state pb))) infos)"

definition block_inv :: "BlockSpace \<Rightarrow> PartialBlock \<Rightarrow> bool" where
  "block_inv start pb \<longleftrightarrow>
     ss_space_used (pb_space_state pb) = BlockSpace_add start (total_space (executed_tx_infos pb)) \<and>
     receipts_ok (gas start) (executed_tx_infos pb)"

lemma block_grows_refl: "block_grows pb pb"
  by (auto simp: block_grows_def)

lemma block_grows_same:
  "executed_tx_infos pb' = executed_tx_infos pb \<Longrightarrow>
    ss_space_used (pb_space_state pb') = ss_space_used (pb_space_state pb) \<Longrightarrow> block_grows pb pb'"
  by (auto simp: block_grows_def)

lemma block_grows_trans:
  assumes "block_grows a b" and "block_grows b c"
  shows "block_grows a c"
proof -
  obtain xs ys where "executed_tx_infos b = executed_tx_infos a @ xs" "executed_tx_infos c = executed_tx_infos b @ ys"
    "ss_space_used (pb_space_state b) = BlockSpace_add (ss_space_used (pb_space_state a)) (total_space xs)"
    "ss_space_used (pb_space_state c) = BlockSpace_add (ss_space_used (pb_space_state b)) (total_space ys)"
    "receipts_ok (gas (ss_space_used (pb_space_state a))) xs" "receipts_ok (gas (ss_space_used (pb_space_state b))) ys"
    using assms unfolding block_grows_def by blast
  then show ?thesis
    unfolding block_grows_def
    by (intro exI [of _ "xs @ ys"]) (simp add: total_space_append BlockSpace_add_assoc receipts_ok_append)
qed

lemma block_inv_grows: "block_inv start pb \<Longrightarrow> block_grows pb pb' \<Longrightarrow> block_inv start pb'"
  by (auto simp: block_inv_def block_grows_def total_space_append BlockSpace_add_assoc receipts_ok_append)

lemma block_grows_tx:
  assumes "commit_tx lib ctx tx (pb_space_state pb) s = (Ok (Ok ok), t)"
    and "executed_tx_infos pb' = executed_tx_infos pb @ [to_tx_info ok]"
    and "pb_space_state pb' = use_space (to_space_used ok) (pb_space_state pb)"
  shows "block_grows pb pb'"
  unfolding block_grows_def
  using commit_tx_OkD(3) [OF assms(1)] assms(2,3) commit_tx_OkD(4) [OF assms(1)]
  by (intro exI [of _ "[to_tx_info ok]"]) (simp add: to_space_used_def)

lemma keep_tracer_simps [simp]:
  "executed_tx_infos (keep_tracer f pb) = executed_tx_infos pb" "pb_space_state (keep_tracer f pb) = pb_space_state pb"
  "combined_refunds (keep_tracer f pb) = combined_refunds pb" "pb_coinbase_profit (keep_tracer f pb) = pb_coinbase_profit pb"
  "discard_txs (keep_tracer f pb) = discard_txs pb" "delayed_refund (keep_tracer f pb) = delayed_refund pb"
  by (simp_all add: keep_tracer_def split: option.split)

lemma fork_of_simps [simp]:
  "pbf_state (fork_of t s) = ws_world s" "rollbacks (fork_of t s) = 0" "pbf_tx_cache (fork_of t s) = ws_tx_cache s"
  by (simp_all add: fork_of_def PartialBlockFork_new_def)

lemma world_of_simps [simp]: "ws_world (world_of f) = pbf_state f" "ws_tx_cache (world_of f) = pbf_tx_cache f"
  by (simp_all add: world_of_def)

lemma add_order_ok_fields:
  "executed_tx_infos (add_order_ok ok pb) = executed_tx_infos pb @ oo_tx_infos ok"
  "ss_space_used (pb_space_state (add_order_ok ok pb)) = BlockSpace_add (ss_space_used (pb_space_state pb)) (oo_space_used ok)"
  by (simp_all add: add_order_ok_def Let_def ss_reserve_block_space_def split: option.split)

section \<open>Orders\<close>

lemma pb_commit_order_cases:
  assumes "pb_commit_order lib ctx ho detector od flt (pb, s) = (r, (pb', s'))"
  obtains
    (committed) ok t res where "r = Ok (Ok res)"
      "commit_order lib ctx ho (so_order od) (pb_space_state pb) (discard_txs pb) (combined_refunds pb)
         (fork_of (Some (pb_tracer pb)) s) = (Ok (Ok ok), t)"
      "pb' = add_order_ok ok (keep_tracer t pb)" "s' = world_of t" "er_order res = so_order od" "er_tx_infos res = oo_tx_infos ok"
  | (rejected) e fork where "r = Ok (Err e)" "pb' = keep_tracer fork pb" "s' = world_of fork"
      "commit_filtered lib ctx ho detector od flt pb (fork_of (Some (pb_tracer pb)) s) = (Ok (Err e), fork)"
  | (critical) e fork where "r = Err e" "pb' = keep_tracer fork pb" "s' = world_of fork"
proof -
  obtain c fork where c: "commit_filtered lib ctx ho detector od flt pb (fork_of (Some (pb_tracer pb)) s) = (c, fork)"
    by (cases "commit_filtered lib ctx ho detector od flt pb (fork_of (Some (pb_tracer pb)) s)")
  note run = assms [unfolded pb_commit_order_def Let_def prod.case c]
  show ?thesis
  proof (cases c)
    case (Inl e)
    then show ?thesis using run by (intro critical [of e fork]) simp_all
  next
    case (Inr x)
    show ?thesis
    proof (cases x)
      case (Inl e)
      then show ?thesis using run rejected c Inr by auto
    next
      case (Inr y)
      obtain ok sim where y: "y = (ok, sim)" by (cases y)
      have "commit_order lib ctx ho (so_order od) (pb_space_state pb) (discard_txs pb) (combined_refunds pb)
         (fork_of (Some (pb_tracer pb)) s) = (Ok (Ok ok), fork)"
        using c \<open>c = Ok x\<close> Inr y unfolding commit_filtered_def Let_def
        by (auto elim!: try_bind_OkE split: sum.splits)
      then show ?thesis using run committed \<open>c = Ok x\<close> Inr y by fastforce
    qed
  qed
qed

text \<open>A rejected order leaves the world as it was.\<close>

lemma rejected_order_undone:
  assumes "revert_law lib" and "commit_filtered lib ctx ho detector od flt pb f = (Ok (Err e), t)"
  shows "pbf_state t = pbf_state f"
proof -
  obtain r u where u: "commit_order lib ctx ho (so_order od) (pb_space_state pb) (discard_txs pb) (combined_refunds pb) f = (Ok r, u)"
    "(case r of Err e \<Rightarrow> return_ok (Err (EE_OrderError e))
      | Ok ok \<Rightarrow> (case flt (create_sim_value (so_order od) ok detector) of
            Err e \<Rightarrow> try_bind (rollback lib (rollbacks f)) (\<lambda>_. return_ok (Err e))
          | Ok _ \<Rightarrow> return_ok (Ok (ok, create_sim_value (so_order od) ok detector)))) u = (Ok (Err e), t)"
    using assms(2) unfolding commit_filtered_def Let_def by (auto elim: try_bind_OkE)
  show ?thesis
  proof (cases r)
    case (Inl e)
    then show ?thesis using u commit_order_ErrD [OF assms(1)] by auto
  next
    case (Inr ok)
    have "undoable lib f u"
      using undo_commit_order [of lib f ctx ho "so_order od" "pb_space_state pb" "discard_txs pb" "combined_refunds pb"] u(1)
      by (simp add: outcome_ok_def)
    moreover have "t = snd (rollback lib (rollbacks f) u)"
      using u(2) Inr by (auto elim!: try_bind_OkE split: sum.splits)
    ultimately show ?thesis using undo_rollback(3) assms(1) by simp
  qed
qed

lemma block_grows_order:
  assumes "commit_order lib ctx ho od (pb_space_state pb) skip combined f = (Ok (Ok ok), t)"
  shows "block_grows pb (add_order_ok ok (keep_tracer t pb))"
proof -
  obtain b where "bundle_inv ctx (ss_space_used (pb_space_state pb)) (ss_reserved_block_space (pb_space_state pb)) b"
    "oo_space_used ok = bo_space_used b" "oo_tx_infos ok = bo_tx_infos b"
    using order_bundle_inv [OF assms] by blast
  then show ?thesis
    by (auto simp: block_grows_def add_order_ok_fields bundle_inv_def)
qed

lemma block_grows_pb_commit_order:
  assumes "pb_commit_order lib ctx ho detector od flt (pb, s) = (r, (pb', s'))"
  shows "block_grows pb pb'"
  using assms by (cases rule: pb_commit_order_cases) (auto simp: block_grows_order intro: block_grows_same)

section \<open>Included orders pass the check\<close>

lemma revertible_keeps_True: "m h = Some True \<Longrightarrow> revertible_txs txs m h = Some True"
proof (induction txs arbitrary: m)
  case (Cons x txs)
  then show ?case by (cases x) (auto intro!: Cons.IH split: option.split)
qed simp

lemma revertible_txs_member: "(tx, True) \<in> set txs \<Longrightarrow> revertible_txs txs m (tx_hash tx) = Some True"
proof (induction txs arbitrary: m)
  case (Cons x txs)
  then show ?case by (cases x) (auto simp: revertible_keeps_True split: option.split)
qed simp

lemma executes_reverted:
  "executes body infos \<Longrightarrow> i \<in> set infos \<Longrightarrow> \<not> rcp_success (tei_receipt i) \<Longrightarrow>
    (tei_tx i, AllowedIncluded) \<in> set (concat (map body_list_txs_revert body))"
proof (induction rule: executes.induct)
  case (run_bundle inner xs body infos)
  then show ?case by (auto simp: inner_lists)
qed auto

lemma list_txs_reverts: "list_txs od = map (map_prod id can_revert) (list_txs_revert od)"
  by (cases od) (simp_all add: Bundle_list_txs_revert_map ShareBundle_list_txs_def ShareBundle_list_txs_revert_def
      inner_list_txs_revert_map)

lemma committed_order_verified:
  assumes "commit_order lib ctx ho (er_order res) ss skip combined s = (Ok (Ok ok), t)" and "er_tx_infos res = oo_tx_infos ok"
  shows "verify_order (ctx_blocklist ctx) res = Ok ()"
proof -
  have "list_all (\<lambda>i. \<not> is_blocked ctx (tei_tx i)) (oo_tx_infos ok)"
    using order_bundle_inv [OF assms(1)] by (auto simp: bundle_inv_def)
  then have allowed: "\<not> list_ex (\<lambda>i. blocked_address (ctx_blocklist ctx) (tei_tx i)) (er_tx_infos res)"
    by (simp add: assms(2) list_ex_iff list_all_iff is_blocked_def blocked_address_def)
  obtain front payouts where exec: "oo_tx_infos ok = front @ payouts" "executes (order_body (er_order res)) front"
    "list_all2 (pays ctx) payouts (oo_paid_kickbacks ok)"
    using order_executes [OF assms(1)] by blast
  have "revertible_txs (list_txs (er_order res)) (\<lambda>_. None) (tx_hash (tei_tx i)) = Some True"
    if "i \<in> set (oo_tx_infos ok)" "\<not> rcp_success (tei_receipt i)" for i
  proof -
    have "rcp_success (tei_receipt j)" if "j \<in> set payouts" for j
      using exec(3) that by (auto simp: list_all2_conv_all_nth in_set_conv_nth pays_def)
    then have "i \<in> set front" using that exec(1) by auto
    from executes_reverted [OF exec(2) this that(2)] have "(tei_tx i, True) \<in> set (list_txs (er_order res))"
      unfolding order_body_txs list_txs_reverts by force
    then show ?thesis by (rule revertible_txs_member)
  qed
  then have "find (\<lambda>i. \<not> rcp_success (tei_receipt i) \<and>
      revertible_txs (list_txs (er_order res)) (\<lambda>_. None) (tx_hash (tei_tx i)) = Some False) (er_tx_infos res) = None"
    by (auto simp: find_None_iff assms(2))
  with allowed show ?thesis by (simp add: verify_order_def Let_def)
qed

lemma verify_orders_Ok: "verify_orders bl rs = Ok () \<longleftrightarrow> (\<forall>r \<in> set rs. verify_order bl r = Ok ())"
  by (induction rs) (auto split: sum.split)

section \<open>Payouts\<close>

interpretation growing: step_relation "\<lambda>st st'. block_grows (fst st) (fst st')" "\<lambda>_. False"
  by unfold_locales (auto intro: block_grows_refl block_grows_trans)

abbreviation grows_ok :: "PartialBlock \<times> 's \<Rightarrow> ('a, 'e) result \<times> (PartialBlock \<times> 's) \<Rightarrow> bool" where
  "grows_ok \<equiv> outcome_ok (\<lambda>st st'. block_grows (fst st) (fst st')) (\<lambda>_. False)"

lemma grows_on_fork: "grows_ok st (on_fork f st)"
  by (auto simp: on_fork_def outcome_ok_def block_grows_refl split: prod.split sum.split)

lemma on_fork_OkD: "on_fork f st = (Ok a, st') \<Longrightarrow> fst st' = fst st \<and> f (snd st) = (Ok a, snd st')"
  by (auto simp: on_fork_def split: prod.splits sum.splits)

lemma commit_payout_tx_OkE:
  assumes "commit_payout_tx lib ctx rv nonce to gl v (pb, f) = (Ok ok, (pb', f'))"
  obtains tx f1 where "commit_tx lib ctx tx (pb_space_state pb) f1 = (Ok (Ok ok), f')" "f1 = f"
    "pb' = pb\<lparr>pb_space_state := use_space (to_space_used ok) (pb_space_state pb),
       executed_tx_infos := executed_tx_infos pb @ [to_tx_info ok]\<rparr>"
    "pays ctx (to_tx_info ok) (to, v)"
proof -
  obtain r tx where tx: "create_payout_tx lib (ctx_chain_id ctx) (ctx_basefee ctx) (ctx_builder_signer ctx) nonce to gl v = Ok r"
    "no_blobs_unwrap lib r = Ok tx"
    and run: "commit_tx lib ctx tx (pb_space_state pb) f = (Ok (Ok ok), f')" "rcp_success (tei_receipt (to_tx_info ok))"
      "pb' = pb\<lparr>pb_space_state := use_space (to_space_used ok) (pb_space_state pb),
         executed_tx_infos := executed_tx_infos pb @ [to_tx_info ok]\<rparr>"
    using assms unfolding commit_payout_tx_def
    by (auto elim!: try_bind_OkE dest!: on_fork_OkD split: sum.splits if_splits)
  have "pays ctx (to_tx_info ok) (to, v)"
    using payout_tx_fields [OF tx] commit_tx_OkD(2) [OF run(1)] run(2) by (simp add: pays_def)
  with run that show ?thesis by blast
qed

lemma grows_commit_payout_tx: "grows_ok st (commit_payout_tx lib ctx rv nonce to gl v st)"
proof -
  obtain pb f r pb' f' where st: "st = (pb, f)" and run: "commit_payout_tx lib ctx rv nonce to gl v (pb, f) = (r, (pb', f'))"
    by (cases st, cases "commit_payout_tx lib ctx rv nonce to gl v st") auto
  show ?thesis
  proof (cases r)
    case (Inl e)
    have "pb' = pb"
      using run unfolding Inl commit_payout_tx_def try_bind_def on_fork_def return_err_def
      by (auto split: sum.splits prod.splits if_splits)
    then show ?thesis using run st by (simp add: outcome_ok_def block_grows_refl split: sum.split)
  next
    case (Inr ok)
    with run have "commit_payout_tx lib ctx rv nonce to gl v (pb, f) = (Ok ok, (pb', f'))" by simp
    then show ?thesis
      by (rule commit_payout_tx_OkE) (use run st Inr in \<open>auto simp: outcome_ok_def intro: block_grows_tx\<close>)
  qed
qed

lemma grows_pay_combined_refunds: "grows_ok st (pay_combined_refunds lib ctx refunds nonce st)"
proof (induction refunds arbitrary: nonce st)
  case Nil
  then show ?case by (simp add: growing.outcome_return_ok)
next
  case (Cons p refunds)
  then show ?case
    by (cases p) (auto intro!: growing.outcome_try_bind grows_on_fork grows_commit_payout_tx split: if_split)
qed

lemma grows_insert_refunds:
  assumes "insert_refunds_and_proposer_payout_tx lib ctx ro gl v adjust revert (pb, s) = (r, (pb', s'))"
  shows "block_grows pb pb'"
proof -
  have free: "block_grows pb (free_reserved_block_space pb)"
    by (rule block_grows_same) (simp_all add: free_reserved_block_space_def ss_free_reserved_block_space_def)
  show ?thesis
  proof (cases "state_nonce lib (sg_address (ctx_builder_signer ctx)) (ws_world s)")
    case (Inl e)
    then show ?thesis using assms free by (auto simp: insert_refunds_and_proposer_payout_tx_def)
  next
    case (Inr nonce)
    let ?pb = "free_reserved_block_space pb"
    have "grows_ok (?pb, f) (try_bind
        (if \<not> adjust then pay_combined_refunds lib ctx (ro (combined_refunds ?pb)) nonce else return_ok nonce)
        (\<lambda>nonce. commit_payout_tx lib ctx IPE_PayoutTxReverted nonce (ctx_suggested_fee_recipient ctx) gl v) (?pb, f))" for f
      by (rule growing.outcome_try_bind)
        (auto intro: growing.outcome_return_ok grows_pay_combined_refunds grows_commit_payout_tx)
    from this [of "fork_of (Some (pb_tracer ?pb)) s"] have "block_grows ?pb pb'"
      using assms Inr by (auto simp: insert_refunds_and_proposer_payout_tx_def Let_def outcome_ok_def block_grows_def split: prod.splits)
    then show ?thesis by (rule block_grows_trans [OF free])
  qed
qed

section \<open>Constrained transactions\<close>

definition with_executed ::
  "TransactionOk \<Rightarrow> 'w PartialBlockFork \<Rightarrow> 'w BlockBuildingHelperFromProvider \<Rightarrow> 'w BlockBuildingHelperFromProvider" where
  "with_executed res f h = (let pb = bbh_partial_block h
     in h\<lparr>bbh_block_state := world_of f, bbh_partial_block :=
          pb\<lparr>pb_space_state := use_space (to_space_used res) (pb_space_state pb),
             pb_coinbase_profit := pb_coinbase_profit pb + word_of_int \<bar>tei_coinbase_profit (to_tx_info res)\<bar>,
             executed_tx_infos := executed_tx_infos pb @ [to_tx_info res]\<rparr>\<rparr>)"

lemma execute_constraint_cases:
  assumes "execute_constraint_transaction env bytes h = (r, h')"
  obtains
    (undecoded) e where "decode_constraint_tx env bytes = Err e" "r = Err e" "h' = h"
  | (executed) tx res f where "decode_constraint_tx env bytes = Ok tx" "r = Ok True"
      "commit_tx (he_lib env) (he_ctx env) tx (pb_space_state (bbh_partial_block h)) (fork_of None (bbh_block_state h)) = (Ok (Ok res), f)"
      "h' = with_executed res f h"
  | (rejected) tx e f where "decode_constraint_tx env bytes = Ok tx" "r = Ok False"
      "commit_tx (he_lib env) (he_ctx env) tx (pb_space_state (bbh_partial_block h)) (fork_of None (bbh_block_state h)) = (Ok (Err e), f)"
      "h' = h\<lparr>bbh_block_state := world_of f\<rparr>"
  | (failed) e f where "r = Err e" "h' = h\<lparr>bbh_block_state := world_of f\<rparr>"
proof (cases "decode_constraint_tx env bytes")
  case (Inl e)
  then show ?thesis using assms undecoded by (simp add: execute_constraint_transaction_def)
next
  case (Inr tx)
  obtain c f where c: "commit_tx (he_lib env) (he_ctx env) tx (pb_space_state (bbh_partial_block h))
      (fork_of None (bbh_block_state h)) = (c, f)"
    by (cases "commit_tx (he_lib env) (he_ctx env) tx (pb_space_state (bbh_partial_block h)) (fork_of None (bbh_block_state h))")
  note run = assms [unfolded execute_constraint_transaction_def Inr sum.case c prod.case]
  show ?thesis
  proof (cases c)
    case (Inl e)
    then show ?thesis using run by (cases e) (auto intro: failed)
  next
    case (Inr x)
    then show ?thesis
      using run c executed [OF \<open>decode_constraint_tx env bytes = Ok tx\<close>] rejected [OF \<open>decode_constraint_tx env bytes = Ok tx\<close>]
      by (cases x) (auto simp: with_executed_def Let_def)
  qed
qed

lemma with_executed_simps [simp]:
  "executed_tx_infos (bbh_partial_block (with_executed res f h)) = executed_tx_infos (bbh_partial_block h) @ [to_tx_info res]"
  "pb_space_state (bbh_partial_block (with_executed res f h)) = use_space (to_space_used res) (pb_space_state (bbh_partial_block h))"
  "bbh_trace (with_executed res f h) = bbh_trace h" "bbh_adjustment_state (with_executed res f h) = bbh_adjustment_state h"
  "payout_tx_gas (with_executed res f h) = payout_tx_gas h"
  by (simp_all add: with_executed_def Let_def)

lemma track_appended_simps [simp]:
  "bbh_partial_block (track_appended h) = bbh_partial_block h" "bbh_block_state (track_appended h) = bbh_block_state h"
  "bbh_adjustment_state (track_appended h) = bbh_adjustment_state h" "payout_tx_gas (track_appended h) = payout_tx_gas h"
  "included_orders (bbh_trace (track_appended h)) = included_orders (bbh_trace h)"
  by (simp_all add: track_appended_def split: list.split)

lemma track_appended_last:
  "executed_tx_infos (bbh_partial_block h) = infos @ [i] \<Longrightarrow>
    bbt_appended_constraint_txs (bbh_trace (track_appended h)) = bbt_appended_constraint_txs (bbh_trace h) @ [tx_hash (tei_tx i)]"
  by (cases infos) (simp_all add: track_appended_def)

text \<open>What appending constraints keeps of a helper.\<close>

definition helper_grows :: "'w BlockBuildingHelperFromProvider \<Rightarrow> 'w BlockBuildingHelperFromProvider \<Rightarrow> bool" where
  "helper_grows h h' \<longleftrightarrow> block_grows (bbh_partial_block h) (bbh_partial_block h') \<and>
     included_orders (bbh_trace h') = included_orders (bbh_trace h) \<and> bbh_adjustment_state h' = bbh_adjustment_state h \<and>
     payout_tx_gas h' = payout_tx_gas h"

lemma helper_grows_same:
  "bbh_partial_block h' = bbh_partial_block h \<Longrightarrow> bbh_trace h' = bbh_trace h \<Longrightarrow>
    bbh_adjustment_state h' = bbh_adjustment_state h \<Longrightarrow> payout_tx_gas h' = payout_tx_gas h \<Longrightarrow> helper_grows h h'"
  by (simp add: helper_grows_def block_grows_refl)

lemma helper_grows_trans: "helper_grows a b \<Longrightarrow> helper_grows b c \<Longrightarrow> helper_grows a c"
  by (auto simp: helper_grows_def intro: block_grows_trans)

lemma helper_grows_constraint:
  assumes "execute_constraint_transaction env bytes h = (r, h')"
  shows "helper_grows h h'"
  using assms
proof (cases rule: execute_constraint_cases)
  case (executed tx res f)
  then show ?thesis by (auto simp: helper_grows_def intro: block_grows_tx)
qed (auto intro: helper_grows_same)

lemma helper_grows_append:
  assumes "append_constraint_txs env hashes raws h = (r, h')"
  shows "helper_grows h h'"
  using assms
proof (induction raws arbitrary: h)
  case Nil
  then show ?case by (auto intro: helper_grows_same)
next
  case (Cons bytes raws)
  show ?case
  proof (cases "already_included env hashes bytes")
    case True
    then show ?thesis using Cons by simp
  next
    case False
    obtain q g where q: "execute_constraint_transaction env bytes h = (q, g)"
      by (cases "execute_constraint_transaction env bytes h")
    have g: "helper_grows h g" by (rule helper_grows_constraint [OF q])
    have "helper_grows h (track_appended g)" using g by (simp add: helper_grows_def)
    then show ?thesis
      using g Cons.prems False q Cons.IH
      by (auto intro: helper_grows_trans split: sum.splits bool.splits)
  qed
qed

lemma helper_grows_insert: "insert_constraint_transactions env h = (r, h') \<Longrightarrow> helper_grows h h'"
  by (auto simp: insert_constraint_transactions_def split: if_splits intro: helper_grows_append helper_grows_same)

text \<open>
  What can have happened to a constrained transaction: it was in the block, it was appended, or committing it on top of the
  block and some of the appended transactions gave an error.
\<close>

definition settled ::
  "('w, 't, 'r) helper_env \<Rightarrow> B256 set \<Rightarrow> BlockBuildingSpaceState \<Rightarrow> TransactionExecutionInfo list
     \<Rightarrow> TransactionSignedEcRecoveredWithBlobs \<Rightarrow> bool" where
  "settled env hashes ss appended tx \<longleftrightarrow> tx_hash tx \<in> hashes \<or> tx \<in> tei_tx ` set appended \<or>
     (\<exists>k ss' f e f'. k \<le> length appended \<and> ss_reserved_block_space ss' = ss_reserved_block_space ss \<and>
        ss_space_used ss' = BlockSpace_add (ss_space_used ss) (total_space (take k appended)) \<and>
        commit_tx (he_lib env) (he_ctx env) tx ss' f = (Ok (Err e), f'))"

definition constraints_done ::
  "('w, 't, 'r) helper_env \<Rightarrow> B256 set \<Rightarrow> u8 list list \<Rightarrow> 'w BlockBuildingHelperFromProvider \<Rightarrow> TransactionExecutionInfo list
     \<Rightarrow> 'w BlockBuildingHelperFromProvider \<Rightarrow> bool" where
  "constraints_done env hashes raws h appended h' \<longleftrightarrow>
     executed_tx_infos (bbh_partial_block h') = executed_tx_infos (bbh_partial_block h) @ appended \<and>
     bbt_appended_constraint_txs (bbh_trace h') = bbt_appended_constraint_txs (bbh_trace h) @ map (tx_hash \<circ> tei_tx) appended \<and>
     (\<exists>txs. map (decode_constraint_tx env) raws = map Ok txs \<and> subseq (map tei_tx appended) txs \<and>
        (\<forall>i \<in> set appended. tx_hash (tei_tx i) \<notin> hashes) \<and>
        (\<forall>tx \<in> set txs. settled env hashes (pb_space_state (bbh_partial_block h)) appended tx))"

lemma settled_Cons:
  assumes "settled env hashes (use_space (tei_space_used i) ss) appended tx"
  shows "settled env hashes ss (i # appended) tx"
  using assms unfolding settled_def
proof (elim disjE exE conjE)
  fix k ss' f e f'
  assume "k \<le> length appended" "ss_reserved_block_space ss' = ss_reserved_block_space (use_space (tei_space_used i) ss)"
    "ss_space_used ss' = BlockSpace_add (ss_space_used (use_space (tei_space_used i) ss)) (total_space (take k appended))"
    "commit_tx (he_lib env) (he_ctx env) tx ss' f = (Ok (Err e), f')"
  then show "tx_hash tx \<in> hashes \<or> tx \<in> tei_tx ` set (i # appended) \<or>
     (\<exists>k ss' f e f'. k \<le> length (i # appended) \<and> ss_reserved_block_space ss' = ss_reserved_block_space ss \<and>
        ss_space_used ss' = BlockSpace_add (ss_space_used ss) (total_space (take k (i # appended))) \<and>
        commit_tx (he_lib env) (he_ctx env) tx ss' f = (Ok (Err e), f'))"
    by (intro disjI2 exI [of _ "Suc k"] exI [of _ ss'] exI [of _ f] exI [of _ e] exI [of _ f'])
      (simp add: use_space_def BlockSpace_add_assign_eq BlockSpace_add_assoc)
qed auto

lemma constraints_done_skip:
  assumes "constraints_done env hashes raws g appended h'" and "decode_constraint_tx env bytes = Ok tx"
    and "settled env hashes (pb_space_state (bbh_partial_block h)) appended tx"
    and "bbh_partial_block g = bbh_partial_block h" and "bbh_trace g = bbh_trace h"
  shows "constraints_done env hashes (bytes # raws) h appended h'"
proof -
  obtain txs where txs: "map (decode_constraint_tx env) raws = map Ok txs" "subseq (map tei_tx appended) txs"
    "\<forall>i \<in> set appended. tx_hash (tei_tx i) \<notin> hashes"
    "\<forall>tx \<in> set txs. settled env hashes (pb_space_state (bbh_partial_block h)) appended tx"
    using assms(1,4) unfolding constraints_done_def by auto
  have "map (decode_constraint_tx env) (bytes # raws) = map Ok (tx # txs)" using txs(1) assms(2) by simp
  moreover have "subseq (map tei_tx appended) (tx # txs)" using txs(2) by (rule list_emb_Cons)
  moreover have "\<forall>x \<in> set (tx # txs). settled env hashes (pb_space_state (bbh_partial_block h)) appended x"
    using txs(4) assms(3) by simp
  ultimately show ?thesis using assms(1,4,5) txs(3) unfolding constraints_done_def by metis
qed

lemma constraints_done_executed:
  assumes "constraints_done env hashes raws (track_appended (with_executed res f h)) rest h'"
    and "decode_constraint_tx env bytes = Ok tx" and "tei_tx (to_tx_info res) = tx" and "tx_hash tx \<notin> hashes"
  shows "constraints_done env hashes (bytes # raws) h (to_tx_info res # rest) h'"
proof -
  let ?ss = "pb_space_state (bbh_partial_block h)" and ?i = "to_tx_info res"
  obtain txs where txs: "map (decode_constraint_tx env) raws = map Ok txs" "subseq (map tei_tx rest) txs"
    "\<forall>i \<in> set rest. tx_hash (tei_tx i) \<notin> hashes"
    "\<forall>tx \<in> set txs. settled env hashes (use_space (tei_space_used ?i) ?ss) rest tx"
    using assms(1) unfolding constraints_done_def by (auto simp: to_space_used_def)
  have "settled env hashes ?ss (?i # rest) tx" using assms(3) by (auto simp: settled_def)
  then have "\<forall>x \<in> set (tx # txs). settled env hashes ?ss (?i # rest) x" using txs(4) by (auto intro: settled_Cons)
  moreover have "map (decode_constraint_tx env) (bytes # raws) = map Ok (tx # txs)"
    "subseq (map tei_tx (?i # rest)) (tx # txs)" "\<forall>i \<in> set (?i # rest). tx_hash (tei_tx i) \<notin> hashes"
    using txs(1-3) assms(2-4) by auto
  ultimately have spec: "\<exists>txs. map (decode_constraint_tx env) (bytes # raws) = map Ok txs \<and> subseq (map tei_tx (?i # rest)) txs \<and>
    (\<forall>i \<in> set (?i # rest). tx_hash (tei_tx i) \<notin> hashes) \<and> (\<forall>tx \<in> set txs. settled env hashes ?ss (?i # rest) tx)"
    by blast
  show ?thesis
    using assms(1) spec track_appended_last [of "with_executed res f h" "executed_tx_infos (bbh_partial_block h)" ?i]
    by (simp add: constraints_done_def)
qed

lemma append_constraint_txs_done:
  assumes "append_constraint_txs env hashes raws h = (Ok u, h')"
  shows "\<exists>appended. constraints_done env hashes raws h appended h'"
  using assms
proof (induction raws arbitrary: h)
  case Nil
  then show ?case by (auto simp: constraints_done_def)
next
  case (Cons bytes raws)
  show ?case
  proof (cases "already_included env hashes bytes")
    case True
    then obtain tx where tx: "decode_constraint_tx env bytes = Ok tx" "tx_hash tx \<in> hashes"
      by (cases "decode_constraint_tx env bytes") (auto simp: already_included_def compute_constraint_tx_hash_def)
    obtain appended where "constraints_done env hashes raws h appended h'" using Cons True by auto
    then have "constraints_done env hashes (bytes # raws) h appended h'"
      by (rule constraints_done_skip) (use tx in \<open>auto simp: settled_def\<close>)
    then show ?thesis by blast
  next
    case False
    obtain q g where q: "execute_constraint_transaction env bytes h = (q, g)"
      by (cases "execute_constraint_transaction env bytes h")
    from q show ?thesis
    proof (cases rule: execute_constraint_cases)
      case (executed tx res f)
      obtain rest where rest: "constraints_done env hashes raws (track_appended g) rest h'"
        using Cons False q executed(2) by auto
      have "tx_hash tx \<notin> hashes"
        using False executed(1) by (auto simp: already_included_def compute_constraint_tx_hash_def)
      from constraints_done_executed [OF rest [unfolded executed(4)] executed(1) commit_tx_OkD(2) [OF executed(3)] this]
      show ?thesis by blast
    next
      case (rejected tx e f)
      obtain appended where rest: "constraints_done env hashes raws g appended h'" using Cons False q rejected(2) by auto
      have "settled env hashes (pb_space_state (bbh_partial_block h)) appended tx"
        unfolding settled_def using rejected(3)
        by (intro disjI2 exI [of _ 0] exI [of _ "pb_space_state (bbh_partial_block h)"] exI) auto
      from constraints_done_skip [OF rest rejected(1) this] rejected(4) show ?thesis by auto
    qed (use Cons.prems False q in \<open>auto\<close>)
  qed
qed


text \<open>
  C36: Gas that is reserved for the constraints is not available to them.  The context has the reservation taken
  from the gas limit of the block, and a constrained transaction is committed against what is left: one whose gas limit
  does not fit next to the orders in the block is not appended, however much gas was reserved for it.
\<close>

theorem constraint_reservation_withheld:
  fixes h :: "'w BlockBuildingHelperFromProvider"
  assumes ctx: "ctx_gas_available (he_ctx env) = gas_available_after_reservation (ctx_gas_limit (he_ctx env))
      (calculate_constraint_gas_reservation (he_codec env) now (he_constraints env))"
    and fits: "constrained_gas (he_codec env) now (he_constraints env) \<le> unat (ctx_gas_limit (he_ctx env))"
    and tx: "decode_constraint_tx env bytes = Ok tx"
    and room: "unat (tx_gas_limit tx) + unat (gas (total_consumed_space (pb_space_state (bbh_partial_block h)))) < 2 ^ 64"
    and full: "unat (ctx_gas_limit (he_ctx env)) <
      unat (tx_gas_limit tx) + unat (gas (total_consumed_space (pb_space_state (bbh_partial_block h)))) +
      constrained_gas (he_codec env) now (he_constraints env)"
  shows "fst (execute_constraint_transaction env bytes h) = Ok False \<and>
    bbh_partial_block (snd (execute_constraint_transaction env bytes h)) = bbh_partial_block h"
proof -
  let ?ss = "pb_space_state (bbh_partial_block h)"
  have "unat (ctx_gas_limit (he_ctx env)) < 2 ^ 64" by (rule order.strict_trans2 [OF unsigned_less]) simp
  with fits have "constrained_gas (he_codec env) now (he_constraints env) < 2 ^ 64" by linarith
  then have "unat (ctx_gas_available (he_ctx env)) =
      unat (ctx_gas_limit (he_ctx env)) - constrained_gas (he_codec env) now (he_constraints env)"
    unfolding ctx by (simp add: reservation_eq gas_available_after_reservation_def unat_saturating_sub unat_of_nat)
  with fits full have "unat (ctx_gas_available (he_ctx env)) < unat (tx_gas_limit tx) + unat (gas (total_consumed_space ?ss))"
    by linarith
  also have "\<dots> = unat (tx_gas_limit tx + gas (total_consumed_space ?ss))"
    using room by (simp add: unat_add_noof)
  finally have "\<not> is_ok (can_fit_tx (he_ctx env) (tx_space_needed tx) (blobs_gas_used tx) ?ss)"
    by (simp add: can_fit_tx_def Let_def word_less_nat_alt tx_space_needed_def)
  then obtain e where "commit_tx (he_lib env) (he_ctx env) tx ?ss (fork_of None (bbh_block_state h)) =
      (Ok (Err e), fork_of None (bbh_block_state h))"
    by (cases "can_fit_tx (he_ctx env) (tx_space_needed tx) (blobs_gas_used tx) ?ss")
      (auto simp: commit_tx_def commit_tx_inner_def return_ok_def)
  then show ?thesis by (simp add: execute_constraint_transaction_def tx)
qed

section \<open>Sealing\<close>

lemma insert_refunds_OkE:
  assumes "insert_refunds_and_proposer_payout_tx lib ctx ro gl v adjust rv (pb, s) = (Ok rv', (pb', s'))"
  obtains nonce n pbm fm ok pb1 f where
    "pay_combined_refunds lib ctx (if adjust then [] else ro (combined_refunds pb)) nonce
       (free_reserved_block_space pb, fork_of (Some (pb_tracer pb)) s) = (Ok n, (pbm, fm))"
    "commit_payout_tx lib ctx IPE_PayoutTxReverted n (ctx_suggested_fee_recipient ctx) gl v (pbm, fm) = (Ok ok, (pb1, f))"
    "pb' = keep_tracer f pb1" "s' = world_of f"
    "rv' = rv\<lparr>last_tx_block_space := to_space_used ok, state_reverts := state_reverts rv + 1\<rparr>"
proof (cases "state_nonce lib (sg_address (ctx_builder_signer ctx)) (ws_world s)")
  case (Inl e)
  then show ?thesis using assms by (simp add: insert_refunds_and_proposer_payout_tx_def)
next
  case (Inr nonce)
  let ?pb = "free_reserved_block_space pb"
  have pay: "(if \<not> adjust then pay_combined_refunds lib ctx (ro (combined_refunds ?pb)) nonce else return_ok nonce) =
      pay_combined_refunds lib ctx (if adjust then [] else ro (combined_refunds pb)) nonce"
    by (simp add: free_reserved_block_space_def)
  obtain r pb1 f where run: "try_bind (pay_combined_refunds lib ctx (if adjust then [] else ro (combined_refunds pb)) nonce)
      (\<lambda>n. commit_payout_tx lib ctx IPE_PayoutTxReverted n (ctx_suggested_fee_recipient ctx) gl v)
      (?pb, fork_of (Some (pb_tracer ?pb)) s) = (r, (pb1, f))"
    using prod_cases3 by blast
  have res: "map_sum id (\<lambda>ok. rv\<lparr>last_tx_block_space := to_space_used ok, state_reverts := state_reverts rv + 1\<rparr>) r = Ok rv'"
    "pb' = keep_tracer f pb1" "s' = world_of f"
    using assms Inr run by (simp_all add: insert_refunds_and_proposer_payout_tx_def Let_def pay)
  obtain ok where ok: "r = Ok ok" using res(1) by (cases r) simp_all
  obtain n pbm fm where "pay_combined_refunds lib ctx (if adjust then [] else ro (combined_refunds pb)) nonce
      (?pb, fork_of (Some (pb_tracer ?pb)) s) = (Ok n, (pbm, fm))"
    "commit_payout_tx lib ctx IPE_PayoutTxReverted n (ctx_suggested_fee_recipient ctx) gl v (pbm, fm) = (Ok ok, (pb1, f))"
    using run unfolding ok by (auto elim!: try_bind_OkE)
  then show ?thesis using that res ok by (simp add: free_reserved_block_space_def)
qed

lemma finalize_execution_cases:
  assumes "finalize_block_execution env v subsidy adjust rv h = (r, h')"
  obtains g where "insert_constraint_transactions env
      (h\<lparr>bbh_trace := (bbh_trace h)\<lparr>coinbase_reward := pb_coinbase_profit (bbh_partial_block h)\<rparr>\<rparr>) = (Ok (), g)"
    "\<And>p. insert_refunds_and_proposer_payout_tx (he_lib env) (he_ctx env) (he_refund_order env) (payout_tx_gas g) v adjust rv
        (bbh_partial_block g, bbh_block_state g) = p \<Longrightarrow> bbh_partial_block h' = fst (snd p) \<and> bbh_block_state h' = snd (snd p) \<and>
        (\<forall>rv'. r = Ok rv' \<longrightarrow> fst p = Ok rv')"
    "included_orders (bbh_trace h') = included_orders (bbh_trace g)" "bbh_adjustment_state h' = bbh_adjustment_state g"
  | e where "insert_constraint_transactions env
      (h\<lparr>bbh_trace := (bbh_trace h)\<lparr>coinbase_reward := pb_coinbase_profit (bbh_partial_block h)\<rparr>\<rparr>) = (Err e, h')" "r = Err e"
proof -
  obtain q g where q: "insert_constraint_transactions env
      (h\<lparr>bbh_trace := (bbh_trace h)\<lparr>coinbase_reward := pb_coinbase_profit (bbh_partial_block h)\<rparr>\<rparr>) = (q, g)"
    using prod.exhaust by blast
  show ?thesis
  proof (cases q)
    case (Inl e)
    then show ?thesis using q assms that(2) by (simp add: finalize_block_execution_def)
  next
    case (Inr u)
    obtain p pb s where p: "insert_refunds_and_proposer_payout_tx (he_lib env) (he_ctx env) (he_refund_order env) (payout_tx_gas g) v
        adjust rv (bbh_partial_block g, bbh_block_state g) = (p, (pb, s))"
      using prod_cases3 by blast
    have "bbh_partial_block h' = pb \<and> bbh_block_state h' = s \<and> (\<forall>rv'. r = Ok rv' \<longrightarrow> p = Ok rv') \<and>
      included_orders (bbh_trace h') = included_orders (bbh_trace g) \<and> bbh_adjustment_state h' = bbh_adjustment_state g"
      using assms q Inr p by (cases p) (auto simp: finalize_block_execution_def Let_def split: sum.splits)
    then show ?thesis using that(1) [of g] q Inr p by auto
  qed
qed

lemma helper_grows_execution:
  assumes "finalize_block_execution env v subsidy adjust rv h = (r, h')"
  shows "block_grows (bbh_partial_block h) (bbh_partial_block h')"
    and "included_orders (bbh_trace h') = included_orders (bbh_trace h)" and "bbh_adjustment_state h' = bbh_adjustment_state h"
proof -
  have "block_grows (bbh_partial_block h) (bbh_partial_block h') \<and>
    included_orders (bbh_trace h') = included_orders (bbh_trace h) \<and> bbh_adjustment_state h' = bbh_adjustment_state h"
    using assms
  proof (cases rule: finalize_execution_cases)
    case (1 g)
    have "helper_grows (h\<lparr>bbh_trace := (bbh_trace h)\<lparr>coinbase_reward := pb_coinbase_profit (bbh_partial_block h)\<rparr>\<rparr>) g"
      by (rule helper_grows_insert [OF 1(1)])
    then have g: "block_grows (bbh_partial_block h) (bbh_partial_block g)"
      "included_orders (bbh_trace g) = included_orders (bbh_trace h)" "bbh_adjustment_state g = bbh_adjustment_state h"
      by (simp_all add: helper_grows_def)
    obtain p pb s where p: "insert_refunds_and_proposer_payout_tx (he_lib env) (he_ctx env) (he_refund_order env) (payout_tx_gas g) v
        adjust rv (bbh_partial_block g, bbh_block_state g) = (p, (pb, s))"
      using prod_cases3 by blast
    from grows_insert_refunds [OF p] 1(2) [OF p] have "block_grows (bbh_partial_block g) (bbh_partial_block h')" by simp
    then show ?thesis using 1(3,4) g block_grows_trans by simp
  next
    case (2 e)
    from helper_grows_insert [OF 2(1)] show ?thesis by (simp add: helper_grows_def)
  qed
  then show "block_grows (bbh_partial_block h) (bbh_partial_block h')"
    "included_orders (bbh_trace h') = included_orders (bbh_trace h)" "bbh_adjustment_state h' = bbh_adjustment_state h"
    by simp_all
qed

lemma insert_constraints_ErrD:
  assumes "insert_constraint_transactions env h = (Err e, h')"
  shows "e \<noteq> BHE_BundleConsistencyCheckFailed b"
proof -
  have "e \<noteq> BHE_BundleConsistencyCheckFailed b" if "append_constraint_txs env hashes raws h = (Err e, h')" for hashes raws h
    using that
  proof (induction raws arbitrary: h)
    case (Cons bytes raws)
    have "q \<noteq> BHE_BundleConsistencyCheckFailed b" if "execute_constraint_transaction env bytes h = (Err q, g)" for q g
      using that
      by (auto simp: execute_constraint_transaction_def decode_constraint_tx_def Let_def
          split: sum.splits prod.splits commit_failure.splits)
    then show ?case using Cons by (auto split: if_splits prod.splits sum.splits bool.splits)
  qed simp
  then show ?thesis using assms by (auto simp: insert_constraint_transactions_def split: if_splits)
qed

lemma execution_not_inconsistent:
  assumes "finalize_block_execution env v subsidy adjust rv h = (Err e, h')"
  shows "e \<noteq> BHE_BundleConsistencyCheckFailed b"
  using assms insert_constraints_ErrD
  by (fastforce simp: finalize_block_execution_def true_block_value_def Let_def split: prod.splits sum.splits)

text \<open>The last transaction of an executed block is the payout.\<close>

lemma finalize_execution_payout:
  assumes "finalize_block_execution env v subsidy adjust rv h = (Ok rv', h')"
  shows "\<exists>front i. executed_tx_infos (bbh_partial_block h') = front @ [i] \<and> last_tx_block_space rv' = tei_space_used i \<and>
    pays (he_ctx env) i (ctx_suggested_fee_recipient (he_ctx env), v)"
  using assms
proof (cases rule: finalize_execution_cases)
  case (1 g)
  obtain p pb s where p: "insert_refunds_and_proposer_payout_tx (he_lib env) (he_ctx env) (he_refund_order env) (payout_tx_gas g) v
      adjust rv (bbh_partial_block g, bbh_block_state g) = (p, (pb, s))"
    using prod_cases3 by blast
  then have h': "bbh_partial_block h' = pb" "p = Ok rv'" using 1(2) [OF p] by simp_all
  obtain n pbm fm ok pb1 f where
    "commit_payout_tx (he_lib env) (he_ctx env) IPE_PayoutTxReverted n (ctx_suggested_fee_recipient (he_ctx env)) (payout_tx_gas g) v
      (pbm, fm) = (Ok ok, (pb1, f))" "pb = keep_tracer f pb1" "last_tx_block_space rv' = to_space_used ok"
    using p h'(2) by (auto elim!: insert_refunds_OkE)
  then show ?thesis using h'(1) by (auto elim!: commit_payout_tx_OkE simp: to_space_used_def)
qed simp

text \<open>What the header and the body of a sealed block say of the executed transactions.\<close>

definition block_of :: "seal_ctx \<Rightarrow> PartialBlock \<Rightarrow> FinalizeResult \<Rightarrow> bool" where
  "block_of sc pb block \<longleftrightarrow>
     hd_gas_used (fr_header block) = gas (ss_space_used (pb_space_state pb)) \<and>
     hd_blob_gas_used (fr_header block) = (if sc_cancun sc then Some (blob_gas (ss_space_used (pb_space_state pb))) else None) \<and>
     fr_transactions block = map (rec_inner \<circ> tx_inner \<circ> tei_tx) (executed_tx_infos pb) \<and>
     fr_txs_blob_sidecars block = txs_blob_sidecars sc (executed_tx_infos pb)"

lemma process_requests_OkD:
  assumes "process_requests sl sc pb rv w = Ok (x, rv', w')"
  shows "rv' = rv\<lparr>state_reverts := state_reverts rv + 1\<rparr> \<and> (\<exists>changes. w' = sl_merge_transitions sl w changes)"
  using assms by (auto simp: process_requests_def split: sum.splits if_splits option.splits prod.splits)

lemma finalize_OkD:
  assumes "finalize lib sl ops rl ctx sc pb adjust (adj, caches, w) = (Ok block, (adj', caches', w'))"
  shows "block_of sc pb block" and "revert_state adj' = (revert_state adj)\<lparr>state_reverts := state_reverts (revert_state adj) + 1\<rparr>"
    and "\<exists>changes. w' = sl_merge_transitions sl w changes"
proof -
  obtain req wr rv w1 where req: "process_requests sl sc pb (revert_state adj) w = Ok ((req, wr), rv, w1)"
    using assms by (auto simp: finalize_def split: sum.splits)
  obtain rd bloom where rd: "calculate_receipts_data ops rl (executed_tx_infos pb) (sc_faster_finalize sc) adjust (bloom_cache caches) =
      Some (rd, bloom)"
    using assms req by (auto simp: finalize_def split: option.splits)
  obtain ch adj1 where ch: "incremental_change lib adjust (adj\<lparr>revert_state := rv\<rparr>) w1 = (ch, adj1)"
    using prod.exhaust by blast
  obtain root where root: "sl_state_root sl w1 ch = Ok root"
    using assms req rd ch by (auto simp: finalize_def Let_def split: sum.splits)
  obtain tr pr t where t: "calculate_tx_root_and_placeholder_proof ops rl (executed_tx_infos pb) (sc_faster_finalize sc) adjust
      (tx_root_cache (caches\<lparr>bloom_cache := bloom\<rparr>)) = Some ((tr, pr), t)"
    using assms req rd ch root by (auto simp: finalize_def Let_def split: option.splits)
  have "block_of sc pb block" "adj' = adj1" "w' = w1"
    using assms req rd ch root t by (auto simp: finalize_def Let_def block_of_def ss_gas_used_def ss_blob_gas_used_def)
  moreover have "revert_state adj1 = rv" using ch by (auto simp: incremental_change_def Let_def)
  ultimately show "block_of sc pb block" "revert_state adj' = (revert_state adj)\<lparr>state_reverts := state_reverts (revert_state adj) + 1\<rparr>"
    "\<exists>changes. w' = sl_merge_transitions sl w changes"
    using process_requests_OkD [OF req] by simp_all
qed

definition previous_sealing :: "'w BlockBuildingHelperFromProvider \<Rightarrow> FinalizeAdjustmentState" where
  "previous_sealing h = (case bbh_adjustment_state h of
     None \<Rightarrow> \<lparr>revert_state = FinalizeRevertState_default, account_changed_previous_iteration = []\<rparr> | Some a \<Rightarrow> a)"

text \<open>How far sealing can get.\<close>

lemma finalize_block_impl_cases:
  assumes "finalize_block_impl env v subsidy seen adjust (h, c) = (r, (h', c'))"
  obtains
    (refused) "h' = h" "r = Err BHE_BlockFinalizedIncorrectly"
  | (panicked) "r = Err BHE_Panicked" "h' = h\<lparr>bbh_adjustment_state := None\<rparr>"
  | (stopped) g e where "adjust = (bbh_adjustment_state h \<noteq> None)"
      "revert_for_adjustment env adjust (revert_state (previous_sealing h)) (h\<lparr>bbh_adjustment_state := None\<rparr>) = Some g"
      "finalize_block_execution env v subsidy adjust FinalizeRevertState_default g = (Err e, h')" "r = Err e"
  | (inconsistent) g rv e where "adjust = (bbh_adjustment_state h \<noteq> None)"
      "revert_for_adjustment env adjust (revert_state (previous_sealing h)) (h\<lparr>bbh_adjustment_state := None\<rparr>) = Some g"
      "finalize_block_execution env v subsidy adjust FinalizeRevertState_default g = (Ok rv, h')"
      "verify_bundle_consistency (ctx_blocklist (he_ctx env)) (bbh_trace h') = Err e" "r = Err (BHE_BundleConsistencyCheckFailed e)"
  | (finalized) g rv x q adj w where "adjust = (bbh_adjustment_state h \<noteq> None)"
      "revert_for_adjustment env adjust (revert_state (previous_sealing h)) (h\<lparr>bbh_adjustment_state := None\<rparr>) = Some g"
      "finalize_block_execution env v subsidy adjust FinalizeRevertState_default g = (Ok rv, x)"
      "finalize (he_lib env) (he_seal_lib env) (he_trie env) (he_receipts env) (he_ctx env) (he_seal_ctx env) (bbh_partial_block x)
         adjust ((previous_sealing h)\<lparr>revert_state := rv\<rparr>, c, ws_world (bbh_block_state x)) = (q, (adj, c', w))"
      "bbh_partial_block h' = bbh_partial_block x" "bbh_block_state h' = (bbh_block_state x)\<lparr>ws_world := w\<rparr>"
      "included_orders (bbh_trace h') = included_orders (bbh_trace x)"
      "case q of Err _ \<Rightarrow> bbh_adjustment_state h' = bbh_adjustment_state x \<and>
           (\<forall>b. r \<noteq> Ok b) \<and> (\<forall>e. r \<noteq> Err (BHE_BundleConsistencyCheckFailed e))
         | Ok block \<Rightarrow> bbh_adjustment_state h' = Some adj \<and> r = Ok \<lparr>sealed_trace = bbh_trace h', sealed_block = block\<rparr>"
proof (cases "adjust = (bbh_adjustment_state h \<noteq> None)")
  case False
  then show ?thesis using assms refused by (simp add: finalize_block_impl_def)
next
  case adjust: True
  then have not_refused: "(adjust \<noteq> (bbh_adjustment_state h \<noteq> None)) = False" by blast
  note run = assms [unfolded finalize_block_impl_def Let_def prod.case not_refused if_False, folded previous_sealing_def]
  show ?thesis
  proof (cases "revert_for_adjustment env adjust (revert_state (previous_sealing h)) (h\<lparr>bbh_adjustment_state := None\<rparr>)")
    case None
    then show ?thesis using run panicked by simp
  next
    case (Some g)
    obtain p x where x: "finalize_block_execution env v subsidy adjust FinalizeRevertState_default g = (p, x)"
      using prod.exhaust by blast
    show ?thesis
    proof (cases p)
      case (Inl e)
      then show ?thesis using run Some x stopped [OF adjust, of g e] by simp
    next
      case (Inr rv)
      obtain q adj c1 w where q: "finalize (he_lib env) (he_seal_lib env) (he_trie env) (he_receipts env) (he_ctx env) (he_seal_ctx env)
         (bbh_partial_block x) adjust ((previous_sealing h)\<lparr>revert_state := rv\<rparr>, c, ws_world (bbh_block_state x)) = (q, (adj, c1, w))"
        using prod_cases4 by blast
      show ?thesis
      proof (cases "if \<not> adjust then verify_bundle_consistency (ctx_blocklist (he_ctx env)) (bbh_trace x) else Ok ()")
        case (Inl e)
        then have "verify_bundle_consistency (ctx_blocklist (he_ctx env)) (bbh_trace x) = Err e" by (simp split: if_splits)
        then show ?thesis using run Some x \<open>p = Ok rv\<close> Inl inconsistent [OF adjust, of g rv e] by simp
      next
        case (Inr u)
        then show ?thesis
          using run Some x \<open>p = Ok rv\<close> q finalized [OF adjust, of g rv x q adj w]
          by (cases q) (auto split: FinalizeError.splits if_splits)
      qed
    qed
  qed
qed

section \<open>What holds of every helper\<close>

definition block_start :: "seal_ctx \<Rightarrow> BlockSpace" where
  "block_start sc = BlockSpace_new 0 (sc_withdrawals_length sc + BLOCK_HEADER_RLP_OVERHEAD) 0"

definition helper_inv :: "('w, 't, 'r) helper_env \<Rightarrow> 'w BlockBuildingHelperFromProvider \<Rightarrow> bool" where
  "helper_inv env h \<longleftrightarrow>
     block_inv (block_start (he_seal_ctx env)) (bbh_partial_block h) \<and>
     (\<forall>r \<in> set (included_orders (bbh_trace h)). verify_order (ctx_blocklist (he_ctx env)) r = Ok ()) \<and>
     (\<forall>adj. bbh_adjustment_state h = Some adj \<longrightarrow> executed_tx_infos (bbh_partial_block h) \<noteq> [] \<and>
        last_tx_block_space (revert_state adj) = tei_space_used (last (executed_tx_infos (bbh_partial_block h))))"

text \<open>The calls of a builder.  No order is committed to a block that is sealed.\<close>

datatype helper_event =
    Commit SimulatedOrder "SimValue \<Rightarrow> (unit, ExecutionError) result"
  | Seal U256 I256 "U256 option"
  | Adjust U256 I256 "U256 option"

fun helper_step :: "('w, 't, 'r) helper_env \<Rightarrow> ('w, 't) helper_state \<Rightarrow> helper_event \<Rightarrow> ('w, 't) helper_state" where
  "helper_step env (h, c) (Commit od flt) =
     (if bbh_adjustment_state h = None then (snd (helper_commit_order env od flt h), c) else (h, c))"
| "helper_step env st (Seal v subsidy seen) = snd (finalize_block env v subsidy seen st)"
| "helper_step env st (Adjust v subsidy seen) = snd (adjust_finalized_block env v subsidy seen st)"

lemma helper_inv_new:
  assumes "Helper_new env healthy s discard available = Ok h"
  shows "helper_inv env h"
  using assms
  by (auto simp: Helper_new_def pre_block_call_def Let_def helper_inv_def block_inv_def block_start_def PartialBlock_new_def
      pb_with_tracer_def reserve_block_space_def ss_reserve_block_space_def BuiltBlockTrace_new_def
      BlockBuildingSpaceState_ZERO_def use_space_def BlockSpace_add_assign_eq
      split: if_splits sum.splits option.splits)

lemma helper_inv_commit:
  assumes "helper_inv env h" and "bbh_adjustment_state h = None" and "helper_commit_order env od flt h = (r, h')"
  shows "helper_inv env h'"
proof -
  obtain q pb s where q: "pb_commit_order (he_lib env) (he_ctx env) (he_orders env) (he_detector env) od flt
      (bbh_partial_block h, bbh_block_state h) = (q, (pb, s))"
    using prod_cases3 by blast
  have h': "bbh_partial_block h' = pb" "bbh_adjustment_state h' = None"
    "included_orders (bbh_trace h') = included_orders (bbh_trace h) @ (case q of Ok (Ok res) \<Rightarrow> [res] | _ \<Rightarrow> [])"
    using assms(2,3) q
    by (auto simp: helper_commit_order_def Let_def add_considered_order_def add_failed_order_def add_included_order_def
        split: sum.splits)
  have grows: "block_grows (bbh_partial_block h) pb"
    using q by (cases rule: pb_commit_order_cases) (auto intro: block_grows_same block_grows_order)
  have "verify_order (ctx_blocklist (he_ctx env)) res = Ok ()" if "q = Ok (Ok res)" for res
    using q
  proof (cases rule: pb_commit_order_cases)
    case (committed ok t res')
    then show ?thesis using that committed_order_verified [of "he_lib env" "he_ctx env"] by auto
  qed (use that in auto)
  then show ?thesis
    using assms(1) h' block_inv_grows [OF _ grows] by (auto simp: helper_inv_def split: sum.splits)
qed

lemma BlockSpace_add_cancel: "BlockSpace_add a x = BlockSpace_add b x \<Longrightarrow> a = b"
  by (simp add: BlockSpace_add_def)

lemma revert_helper_inv:
  assumes "revert_for_adjustment env adjust (revert_state (previous_sealing h)) (h\<lparr>bbh_adjustment_state := None\<rparr>) = Some g"
    and "helper_inv env h" and "adjust = (bbh_adjustment_state h \<noteq> None)"
  shows "helper_inv env g \<and> bbh_adjustment_state g = None \<and> included_orders (bbh_trace g) = included_orders (bbh_trace h)"
proof (cases "bbh_adjustment_state h")
  case None
  then show ?thesis using assms by (auto simp: revert_for_adjustment_def helper_inv_def)
next
  case (Some adj)
  obtain front i where infos: "executed_tx_infos (bbh_partial_block h) = front @ [i]"
    and last: "last_tx_block_space (revert_state adj) = tei_space_used i"
    using assms(2) Some by (cases "executed_tx_infos (bbh_partial_block h)" rule: rev_cases) (auto simp: helper_inv_def)
  obtain used where used: "BlockSpace_sub_assign (ss_space_used (pb_space_state (bbh_partial_block h))) (tei_space_used i) = Some used"
    and g: "executed_tx_infos (bbh_partial_block g) = front" "ss_space_used (pb_space_state (bbh_partial_block g)) = used"
      "bbh_trace g = bbh_trace h" "bbh_adjustment_state g = None"
    using assms(1,3) Some last infos
    by (auto simp: revert_for_adjustment_def adjust_finalize_block_revert_to_prefinalized_state_def previous_sealing_def
        free_used_state_def)
  have "BlockSpace_add used (tei_space_used i) =
      BlockSpace_add (BlockSpace_add (block_start (he_seal_ctx env)) (total_space front)) (tei_space_used i)"
    using BlockSpace_add_sub [OF used] assms(2) infos
    by (simp add: helper_inv_def block_inv_def total_space_append BlockSpace_add_assoc)
  then have "used = BlockSpace_add (block_start (he_seal_ctx env)) (total_space front)" by (rule BlockSpace_add_cancel)
  then show ?thesis
    using assms(2) g infos by (auto simp: helper_inv_def block_inv_def receipts_ok_append)
qed

lemma helper_inv_executed:
  assumes "finalize_block_execution env v subsidy adjust rv g = (r, h')" and "helper_inv env g" and "bbh_adjustment_state g = None"
  shows "helper_inv env h' \<and> bbh_adjustment_state h' = None"
  using helper_grows_execution [OF assms(1)] assms(2,3) block_inv_grows by (auto simp: helper_inv_def)

lemma helper_inv_seal:
  assumes "helper_inv env h" and "finalize_block_impl env v subsidy seen adjust (h, c) = (r, (h', c'))"
  shows "helper_inv env h' \<and> (\<forall>e. r \<noteq> Err (BHE_BundleConsistencyCheckFailed e))"
  using assms(2)
proof (cases rule: finalize_block_impl_cases)
  case refused
  then show ?thesis using assms(1) by simp
next
  case panicked
  then show ?thesis using assms(1) by (simp add: helper_inv_def)
next
  case (stopped g e)
  have "helper_inv env h'"
    using revert_helper_inv [OF stopped(2) assms(1) stopped(1)] helper_inv_executed [OF stopped(3)] by blast
  moreover have "e \<noteq> BHE_BundleConsistencyCheckFailed b" for b
    using stopped(3) by (rule execution_not_inconsistent)
  ultimately show ?thesis using stopped(4) by simp
next
  case (inconsistent g rv e)
  have "helper_inv env h'"
    using revert_helper_inv [OF inconsistent(2) assms(1) inconsistent(1)] helper_inv_executed [OF inconsistent(3)] by blast
  then show ?thesis using inconsistent(4) by (simp add: verify_bundle_consistency_def helper_inv_def flip: verify_orders_Ok)
next
  case (finalized g rv x q adj w)
  have x: "helper_inv env x" "bbh_adjustment_state x = None"
    using revert_helper_inv [OF finalized(2) assms(1) finalized(1)] helper_inv_executed [OF finalized(3)] by blast+
  obtain front i where i: "executed_tx_infos (bbh_partial_block x) = front @ [i]" "last_tx_block_space rv = tei_space_used i"
    using finalize_execution_payout [OF finalized(3)] by blast
  show ?thesis
  proof (cases q)
    case (Inl e)
    then show ?thesis using finalized(5-8) x by (auto simp: helper_inv_def)
  next
    case (Inr block)
    have "last_tx_block_space (revert_state adj) = tei_space_used i"
      using finalize_OkD(2) [OF finalized(4) [unfolded Inr]] i(2) by simp
    then show ?thesis using finalized(5-8) x i(1) Inr by (auto simp: helper_inv_def)
  qed
qed

lemma helper_inv_step: "helper_inv env (fst st) \<Longrightarrow> helper_inv env (fst (helper_step env st ev))"
proof (cases ev)
  case (Commit od flt)
  assume inv: "helper_inv env (fst st)"
  obtain h c where "st = (h, c)" by (cases st)
  with Commit inv show ?thesis
    using helper_inv_commit [of env h od flt "fst (helper_commit_order env od flt h)" "snd (helper_commit_order env od flt h)"]
    by simp
next
  case (Seal v subsidy seen)
  assume "helper_inv env (fst st)"
  with Seal helper_inv_seal [of env "fst st" v subsidy seen False "snd st"] show ?thesis
    by (cases "finalize_block_impl env v subsidy seen False st") (auto simp: finalize_block_def)
next
  case (Adjust v subsidy seen)
  assume "helper_inv env (fst st)"
  with Adjust helper_inv_seal [of env "fst st" v subsidy seen True "snd st"] show ?thesis
    by (cases "finalize_block_impl env v subsidy seen True st") (auto simp: adjust_finalized_block_def)
qed

interpretation building: invariant_system "helper_step env" "\<lambda>st. helper_inv env (fst st)" for env
  by unfold_locales (rule helper_inv_step)


section \<open>Sealing again\<close>

text \<open>
  The block and the world of a sealing before its payout: the payout of the previous sealing is undone if there was one,
  the constraints are inserted, and in the first sealing the combined refunds are paid.
\<close>

definition before_payout ::
  "('w, 't, 'r) helper_env \<Rightarrow> bool \<Rightarrow> 'w BlockBuildingHelperFromProvider \<Rightarrow> PartialBlock \<Rightarrow> 'w PartialBlockFork \<Rightarrow> bool" where
  "before_payout env adjust h pb f \<longleftrightarrow> (\<exists>g g' nonce n.
     revert_for_adjustment env adjust (revert_state (previous_sealing h)) (h\<lparr>bbh_adjustment_state := None\<rparr>) = Some g \<and>
     insert_constraint_transactions env
       (g\<lparr>bbh_trace := (bbh_trace g)\<lparr>coinbase_reward := pb_coinbase_profit (bbh_partial_block g)\<rparr>\<rparr>) = (Ok (), g') \<and>
     pay_combined_refunds (he_lib env) (he_ctx env)
       (if adjust then [] else he_refund_order env (combined_refunds (bbh_partial_block g'))) nonce
       (free_reserved_block_space (bbh_partial_block g'), fork_of (Some (pb_tracer (bbh_partial_block g'))) (bbh_block_state g')) =
       (Ok n, (pb, f)))"

lemma sealing_payout:
  assumes "revert_for_adjustment env adjust (revert_state (previous_sealing h)) (h\<lparr>bbh_adjustment_state := None\<rparr>) = Some g"
    and "finalize_block_execution env v subsidy adjust FinalizeRevertState_default g = (Ok rv, x)"
  obtains pb f payout where "before_payout env adjust h pb f"
    "executed_tx_infos (bbh_partial_block x) = executed_tx_infos pb @ [payout]"
    "ss_space_used (pb_space_state (bbh_partial_block x)) = BlockSpace_add (ss_space_used (pb_space_state pb)) (tei_space_used payout)"
    "\<exists>ch. ws_world (bbh_block_state x) = db_commit (he_lib env) (pbf_state f) ch"
    "last_tx_block_space rv = tei_space_used payout" "state_reverts rv = 1"
  using assms(2)
proof (cases rule: finalize_execution_cases)
  case (1 g')
  obtain p pb s where p: "insert_refunds_and_proposer_payout_tx (he_lib env) (he_ctx env) (he_refund_order env) (payout_tx_gas g') v
      adjust FinalizeRevertState_default (bbh_partial_block g', bbh_block_state g') = (p, (pb, s))"
    using prod_cases3 by blast
  have x: "bbh_partial_block x = pb" "bbh_block_state x = s" "p = Ok rv" using 1(2) [OF p] by simp_all
  obtain nonce n pbm fm ok pb1 f where
    refunds: "pay_combined_refunds (he_lib env) (he_ctx env)
      (if adjust then [] else he_refund_order env (combined_refunds (bbh_partial_block g'))) nonce
      (free_reserved_block_space (bbh_partial_block g'), fork_of (Some (pb_tracer (bbh_partial_block g'))) (bbh_block_state g')) =
      (Ok n, (pbm, fm))"
    and payout: "commit_payout_tx (he_lib env) (he_ctx env) IPE_PayoutTxReverted n (ctx_suggested_fee_recipient (he_ctx env))
      (payout_tx_gas g') v (pbm, fm) = (Ok ok, (pb1, f))"
    and res: "pb = keep_tracer f pb1" "s = world_of f"
      "rv = FinalizeRevertState_default\<lparr>last_tx_block_space := to_space_used ok,
         state_reverts := state_reverts FinalizeRevertState_default + 1\<rparr>"
    using p [unfolded x(3)] by (rule insert_refunds_OkE)
  have before: "before_payout env adjust h pbm fm"
    unfolding before_payout_def using assms(1) 1(1) refunds by blast
  obtain tx where tx: "commit_tx (he_lib env) (he_ctx env) tx (pb_space_state pbm) fm = (Ok (Ok ok), f)"
    "pb1 = pbm\<lparr>pb_space_state := use_space (to_space_used ok) (pb_space_state pbm),
       executed_tx_infos := executed_tx_infos pbm @ [to_tx_info ok]\<rparr>"
    using payout by (auto elim!: commit_payout_tx_OkE)
  then show ?thesis
    using that [OF before, of "to_tx_info ok"] x res commit_tx_one_revert [OF tx(1)]
    by (auto simp: to_space_used_def FinalizeRevertState_default_def use_space_def BlockSpace_add_assign_eq)
qed simp

text \<open>
  C12: Sealing again undoes exactly the payout.  After a successful sealing, the revert at the start of the next adjustment
  gives back the transactions, the used space and the world that the sealing had right before its payout, with the
  refunds and the appended constraints in place; it panics only if the used space does not fit 64 bits.
\<close>

theorem adjustment_undoes_payout:
  assumes "revert_law (he_lib env)" and "transitions_law (he_lib env) (he_seal_lib env)"
    and "finalize_block_impl env v subsidy seen adjust (h, c) = (Ok sb, (h', c'))"
  shows "\<exists>pb f payout. before_payout env adjust h pb f \<and>
    executed_tx_infos (bbh_partial_block h') = executed_tx_infos pb @ [payout] \<and>
    (case revert_for_adjustment env True (revert_state (previous_sealing h')) (h'\<lparr>bbh_adjustment_state := None\<rparr>) of
       None \<Rightarrow> \<not> space_fits (ss_space_used (pb_space_state pb)) (tei_space_used payout)
     | Some back \<Rightarrow> executed_tx_infos (bbh_partial_block back) = executed_tx_infos pb \<and>
         ss_space_used (pb_space_state (bbh_partial_block back)) = ss_space_used (pb_space_state pb) \<and>
         ws_world (bbh_block_state back) = pbf_state f)"
  using assms(3)
proof (cases rule: finalize_block_impl_cases)
  case (finalized g rv x q adj w)
  then obtain block where q: "q = Ok block" "bbh_adjustment_state h' = Some adj" by (cases q) auto
  obtain changes where w: "w = sl_merge_transitions (he_seal_lib env) (ws_world (bbh_block_state x)) changes"
    and adj: "revert_state adj = rv\<lparr>state_reverts := state_reverts rv + 1\<rparr>"
    using finalize_OkD(2,3) [OF finalized(4) [unfolded q(1)]] by auto
  from finalized(3) obtain pb f payout where pb: "before_payout env adjust h pb f"
    "executed_tx_infos (bbh_partial_block x) = executed_tx_infos pb @ [payout]"
    "ss_space_used (pb_space_state (bbh_partial_block x)) = BlockSpace_add (ss_space_used (pb_space_state pb)) (tei_space_used payout)"
    "\<exists>ch. ws_world (bbh_block_state x) = db_commit (he_lib env) (pbf_state f) ch"
    "last_tx_block_space rv = tei_space_used payout" "state_reverts rv = 1"
    by (rule sealing_payout [OF finalized(2)])
  have "db_revert (he_lib env) w 2 = db_revert (he_lib env) (db_revert (he_lib env) w 1) 1"
    using revert_add [OF assms(1), of w 1 1] by (simp add: numeral_2_eq_2)
  also have "\<dots> = pbf_state f"
    using assms(1,2) pb(4) by (auto simp: w transitions_law_def revert_commit [unfolded One_nat_def])
  finally have world: "db_revert (he_lib env) w 2 = pbf_state f" .
  have sub: "BlockSpace_sub_assign (BlockSpace_add a b) b = Some used \<Longrightarrow> used = a" for a b used
    by (rule BlockSpace_add_cancel [OF BlockSpace_add_sub])
  have wraps: "BlockSpace_sub_assign (BlockSpace_add a b) b = None \<Longrightarrow> \<not> space_fits a b" for a b
    by (auto simp: BlockSpace_sub_add)
  show ?thesis
    using pb(1,2,3,5,6) finalized(5,6) q(2) world adj
    by (intro exI [of _ pb] exI [of _ f] exI [of _ payout])
      (auto simp: revert_for_adjustment_def adjust_finalize_block_revert_to_prefinalized_state_def previous_sealing_def
        free_used_state_def numeral_2_eq_2 dest!: sub dest: wraps split: option.split)
qed simp_all

section \<open>Examples\<close>

text \<open>
  System calls that change nothing, roots that count the items of the block, and raw transactions of one byte, the
  hash of the transaction, with a gas limit of 50000.
\<close>

definition sample_seal_lib :: "sample_world seal_lib" where
  "sample_seal_lib =
     \<lparr>sl_apply_pre_execution = (\<lambda>_. Ok []), sl_parse_deposits = (\<lambda>_. Ok []), sl_apply_post_execution = (\<lambda>_. Ok ([], [])),
      sl_increment_balances = (\<lambda>_ _ _. Some (\<lambda>_. None)), sl_merge_transitions = (\<lambda>w _. sample_account w # w),
      sl_withdrawals_root = (\<lambda>_. 0), sl_requests_hash = (\<lambda>_. 0), sl_state_root = (\<lambda>_ _. Ok 0)\<rparr>"

definition sample_seal_ctx :: seal_ctx where
  "sample_seal_ctx =
     \<lparr>sc_prague = True, sc_shanghai = True, sc_cancun = True, sc_osaka = False, sc_withdrawals = [],
      sc_withdrawals_length = 1, sc_excess_blob_gas = Some 0, sc_faster_finalize = False, sc_parent = 0, sc_prev_randao = 0,
      sc_parent_beacon_block_root = None, sc_extra_data = []\<rparr>"

definition counting_receipts_lib :: receipts_lib where
  "counting_receipts_lib = sample_receipts_lib\<lparr>hash_builder := (\<lambda>leaves _. (of_nat (length leaves), []))\<rparr>"

definition limit_codec :: "unit tx_codec" where
  "limit_codec =
     \<lparr>decode_pooled = (\<lambda>_. Err (RlpError ())),
      decode_signed = (\<lambda>bytes. case bytes of
         [b] \<Rightarrow> Ok ((rec_inner (tx_inner (sample_tx (ucast b) 0 0)))\<lparr>ts_gas_limit := 50000\<rparr>)
       | _ \<Rightarrow> Err (RlpError ())),
      recover_pooled = (\<lambda>_. None), recover_signed = (\<lambda>_. Some 7), rlp_header_decode = (\<lambda>_. None)\<rparr>"

definition sample_env :: "u64 \<Rightarrow> u64 \<Rightarrow> (sample_world, u8 list \<Rightarrow> u8 list option, unit) helper_env" where
  "sample_env limit available =
     \<lparr>he_lib = sample_lib, he_seal_lib = sample_seal_lib, he_trie = sample_trie_ops, he_receipts = counting_receipts_lib,
      he_codec = limit_codec, he_orders = sample_orders, he_refund_order = id,
      he_ctx = sample_ctx\<lparr>ctx_basefee := 0, ctx_gas_limit := limit, ctx_gas_available := available\<rparr>, he_seal_ctx = sample_seal_ctx,
      he_constraints = [sample_constraint 100 [[1]]], he_detector = {}\<rparr>"

definition sample_world_state :: "sample_world world_state" where
  "sample_world_state = \<lparr>ws_world = [[99 \<mapsto> sample_coinbase 50]], ws_tx_cache = TxExecutionCache_new False\<rparr>"

definition sample_caches :: "(u8 list \<Rightarrow> u8 list option) seal_caches" where
  "sample_caches =
     \<lparr>bloom_cache = \<lparr>rdc_logs = (\<lambda>_. None), rdc_trie = Map.empty, block_logs_bloom_without_last_tx = 0,
        receipts_bloom_without_last_tx = []\<rparr>, tx_root_cache = Map.empty\<rparr>"

definition sample_helper :: "u64 \<Rightarrow> u64 \<Rightarrow> sample_world BlockBuildingHelperFromProvider" where
  "sample_helper limit available =
     projr (Helper_new (sample_env limit available) True sample_world_state False OrderStatistics_new)"

lemma sample_helper_new:
  "Helper_new (sample_env 110000 60000) True sample_world_state False OrderStatistics_new = Ok (sample_helper 110000 60000)"
  "Helper_new (sample_env 1000000 950000) True sample_world_state False OrderStatistics_new = Ok (sample_helper 1000000 950000)"
proof -
  have "is_ok (Helper_new (sample_env 110000 60000) True sample_world_state False OrderStatistics_new)"
    "is_ok (Helper_new (sample_env 1000000 950000) True sample_world_state False OrderStatistics_new)" by code_simp+
  then show "Helper_new (sample_env 110000 60000) True sample_world_state False OrderStatistics_new = Ok (sample_helper 110000 60000)"
    "Helper_new (sample_env 1000000 950000) True sample_world_state False OrderStatistics_new = Ok (sample_helper 1000000 950000)"
    unfolding sample_helper_def by (auto elim: is_ok.elims)
qed


theorem constraint_reservation_withheld_witness:
  "fst (execute_constraint_transaction (sample_env 110000 60000) [1] (sample_helper 110000 60000)) = Ok False"
proof -
  let ?env = "sample_env 110000 60000" and ?h = "sample_helper 110000 60000"
  obtain tx where tx: "decode_constraint_tx ?env [1] = Ok tx" "tx_gas_limit tx = 50000"
  proof -
    have "is_ok (decode_constraint_tx ?env [1]) \<and> tx_gas_limit (projr (decode_constraint_tx ?env [1])) = 50000" by code_simp
    then show ?thesis using that by (cases "decode_constraint_tx ?env [1]") auto
  qed
  have consumed: "gas (total_consumed_space (pb_space_state (bbh_partial_block ?h))) = 21000" by code_simp
  have limit: "ctx_gas_limit (he_ctx ?env) = 110000" "ctx_gas_available (he_ctx ?env) = 60000" by (simp_all add: sample_env_def)
  have gas: "constrained_gas (he_codec ?env) 0 (he_constraints ?env) = 50000"
    by (simp add: sample_env_def constrained_gas_def decodable_gas_limit_def sample_constraint_def RawTx_decode_def
        TxEncoding_decode_def decode_enveloped_def decode_enveloped_with_fake_blobs_def limit_codec_def
        lookup_or_recover_def Let_def tx_gas_limit_def sample_tx_def)
  have available: "ctx_gas_available (he_ctx ?env) = gas_available_after_reservation (ctx_gas_limit (he_ctx ?env))
      (calculate_constraint_gas_reservation (he_codec ?env) 0 (he_constraints ?env))"
    unfolding reservation_eq gas limit by (simp add: gas_available_after_reservation_def saturating_sub_def)
  show ?thesis
    using constraint_reservation_withheld [OF available _ tx(1), of ?h] by (simp add: gas limit consumed tx(2))
qed

definition sample_simulated :: SimulatedOrder where
  "sample_simulated = \<lparr>so_order = sample_order, so_sim_value = SimValue_new 0 0 BlockSpace_ZERO [],
     so_used_state_trace = None\<rparr>"

definition sample_filled :: "(sample_world, u8 list \<Rightarrow> u8 list option) helper_state" where
  "sample_filled = foldl (helper_step (sample_env 1000000 950000)) (sample_helper 1000000 950000, sample_caches)
     [Commit sample_simulated (\<lambda>_. Ok ())]"

lemma sample_filled_sealed:
  "\<exists>sb h c. finalize_block_impl (sample_env 1000000 950000) 10 0 None False sample_filled = (Ok sb, (h, c)) \<and>
     map (tx_hash \<circ> tei_tx) (executed_tx_infos (bbh_partial_block h)) = [1, 2, 77]"
proof -
  let ?p = "finalize_block_impl (sample_env 1000000 950000) 10 0 None False sample_filled"
  have "is_ok (fst ?p) \<and> map (tx_hash \<circ> tei_tx) (executed_tx_infos (bbh_partial_block (fst (snd ?p)))) = [1, 2, 77]" by code_simp
  then show ?thesis by (cases ?p) (auto elim: is_ok.elims)
qed


lemma sample_transitions_law: "transitions_law sample_lib sample_seal_lib"
  by (simp add: transitions_law_def sample_seal_lib_def)

theorem adjustment_undoes_payout_witness:
  "\<exists>sb h c pb f payout. finalize_block_impl (sample_env 1000000 950000) 10 0 None False sample_filled = (Ok sb, (h, c)) \<and>
    before_payout (sample_env 1000000 950000) False (fst sample_filled) pb f \<and>
    executed_tx_infos (bbh_partial_block h) = executed_tx_infos pb @ [payout]"
proof -
  obtain sb h c where run: "finalize_block_impl (sample_env 1000000 950000) 10 0 None False sample_filled = (Ok sb, (h, c))"
    using sample_filled_sealed by blast
  have laws: "revert_law (he_lib (sample_env 1000000 950000))"
    "transitions_law (he_lib (sample_env 1000000 950000)) (he_seal_lib (sample_env 1000000 950000))"
    by (simp_all add: sample_env_def sample_revert_law sample_transitions_law)
  have "finalize_block_impl (sample_env 1000000 950000) 10 0 None False (fst sample_filled, snd sample_filled) = (Ok sb, (h, c))"
    using run by simp
  from adjustment_undoes_payout [OF laws this] run show ?thesis by blast
qed

section \<open>A constraint that is appended late\<close>


end
