(* ===== verification/Conflict_Groups.thy ===== *)
theory Conflict_Groups
  imports Order_Laws State_Trace
begin

text \<open>
  Groups of conflicting orders (\<^verbatim>\<open>rbuilder/src/building/builders/parallel_builder/groups.rs\<close>).  Orders conflict
  when one of them reads what the other one writes, or creates or destroys a contract the other one uses.  The finder keeps the
  groups with tables from what is used to the groups that use it.  Groups are numbered by natural numbers.
  The tables are association lists; their order is never visible, as every result is sorted.
\<close>

section \<open>Data\<close>

instantiation SlotKey_ext :: (linorder) linorder
begin

definition less_eq_SlotKey_ext :: "'a SlotKey_scheme \<Rightarrow> 'a SlotKey_scheme \<Rightarrow> bool" where
  "less_eq_SlotKey_ext a b \<longleftrightarrow> sk_address a < sk_address b \<or>
     sk_address a = sk_address b \<and> (sk_key a < sk_key b \<or> sk_key a = sk_key b \<and> SlotKey.more a \<le> SlotKey.more b)"

definition less_SlotKey_ext :: "'a SlotKey_scheme \<Rightarrow> 'a SlotKey_scheme \<Rightarrow> bool" where
  "less_SlotKey_ext a b \<longleftrightarrow> a \<le> b \<and> \<not> b \<le> a"

instance
  by standard (auto simp: less_eq_SlotKey_ext_def less_SlotKey_ext_def)

end

record GroupData =
  gd_orders :: "SimulatedOrder list"
  gd_reads :: "SlotKey list"
  gd_writes :: "SlotKey list"
  gd_balance_reads :: "address list"
  gd_balance_writes :: "address list"
  gd_code_writes :: "address list"
  gd_conflicting_group_ids :: "nat list"

record ConflictGroup =
  cg_id :: nat
  cg_orders :: "SimulatedOrder list"
  conflicting_group_ids :: "nat list"

type_synonym slot_index = "(address \<times> (B256 \<times> nat list) list) list"
type_synonym address_index = "(address \<times> nat list) list"

record ConflictFinder =
  group_counter :: nat
  group_reads :: slot_index
  group_writes :: slot_index
  group_balance_reads :: address_index
  group_balance_writes :: address_index
  group_code_writes :: address_index
  cf_groups :: "(nat \<times> GroupData) list"
  cf_orders :: "OrderId set"

definition ConflictFinder_new :: ConflictFinder where
  "ConflictFinder_new =
     \<lparr>group_counter = 0, group_reads = [], group_writes = [], group_balance_reads = [], group_balance_writes = [],
      group_code_writes = [], cf_groups = [], cf_orders = {}\<rparr>"

section \<open>Combining groups\<close>

definition sort_dedup :: "'a::linorder list \<Rightarrow> 'a list" where
  "sort_dedup xs = dedup (sort xs)"

definition combine_groups :: "GroupData list \<Rightarrow> nat list \<Rightarrow> GroupData" where
  "combine_groups groups removed_group_ids =
     \<lparr>gd_orders = concat (map gd_orders groups),
      gd_reads = sort_dedup (concat (map gd_reads groups)),
      gd_writes = sort_dedup (concat (map gd_writes groups)),
      gd_balance_reads = sort_dedup (concat (map gd_balance_reads groups)),
      gd_balance_writes = sort_dedup (concat (map gd_balance_writes groups)),
      gd_code_writes = sort_dedup (concat (map gd_code_writes groups)),
      gd_conflicting_group_ids = remdups (removed_group_ids @ concat (map gd_conflicting_group_ids groups))\<rparr>"

section \<open>The tables\<close>

definition add_group_key_to_map :: "nat \<Rightarrow> bool \<Rightarrow> 'k \<Rightarrow> ('k \<times> nat list) list \<Rightarrow> ('k \<times> nat list) list" where
  "add_group_key_to_map group_id is_new_id key m =
     alist_modify key (\<lambda>e. let groups = (case e of None \<Rightarrow> [] | Some gs \<Rightarrow> gs)
        in if is_new_id \<or> group_id \<notin> set groups then groups @ [group_id] else groups) m"

definition add_group_to_map :: "nat \<Rightarrow> bool \<Rightarrow> 'k list \<Rightarrow> ('k \<times> nat list) list \<Rightarrow> ('k \<times> nat list) list" where
  "add_group_to_map group_id is_new_id group_keys m =
     foldl (\<lambda>m key. add_group_key_to_map group_id is_new_id key m) m group_keys"

text \<open>\<^verbatim>\<open>swap_remove\<close> of the first position of an element.\<close>

fun swap_remove_first :: "'a \<Rightarrow> 'a list \<Rightarrow> 'a list" where
  "swap_remove_first x [] = []"
| "swap_remove_first x (y # ys) =
     (if x = y then (case rev ys of [] \<Rightarrow> [] | z # zs \<Rightarrow> z # rev zs) else y # swap_remove_first x ys)"

definition remove_group_key_from_map :: "nat \<Rightarrow> 'k \<Rightarrow> ('k \<times> nat list) list \<Rightarrow> ('k \<times> nat list) list" where
  "remove_group_key_from_map group_id key m =
     alist_modify key (\<lambda>e. swap_remove_first group_id (case e of None \<Rightarrow> [] | Some gs \<Rightarrow> gs)) m"

definition remove_group_from_map :: "nat \<Rightarrow> 'k list \<Rightarrow> ('k \<times> nat list) list \<Rightarrow> ('k \<times> nat list) list" where
  "remove_group_from_map group_id group_keys m =
     foldl (\<lambda>m key. remove_group_key_from_map group_id key m) m group_keys"

definition at_address :: "(('k \<times> 'v) list \<Rightarrow> ('k \<times> 'v) list) \<Rightarrow> address \<Rightarrow> (address \<times> ('k \<times> 'v) list) list
    \<Rightarrow> (address \<times> ('k \<times> 'v) list) list" where
  "at_address f a idx = alist_modify a (\<lambda>e. f (case e of None \<Rightarrow> [] | Some inner \<Rightarrow> inner)) idx"

definition add_slots :: "nat \<Rightarrow> bool \<Rightarrow> SlotKey list \<Rightarrow> slot_index \<Rightarrow> slot_index" where
  "add_slots group_id is_new_id ks idx =
     foldl (\<lambda>idx k. at_address (add_group_key_to_map group_id is_new_id (sk_key k)) (sk_address k) idx) idx ks"

definition remove_slots :: "nat \<Rightarrow> SlotKey list \<Rightarrow> slot_index \<Rightarrow> slot_index" where
  "remove_slots group_id ks idx =
     foldl (\<lambda>idx k. at_address (remove_group_key_from_map group_id (sk_key k)) (sk_address k) idx) idx ks"

definition add_group_to_index :: "nat \<Rightarrow> bool \<Rightarrow> GroupData \<Rightarrow> ConflictFinder \<Rightarrow> ConflictFinder" where
  "add_group_to_index group_id is_new_id g cf =
     cf\<lparr>group_reads := add_slots group_id is_new_id (gd_reads g) (group_reads cf),
        group_writes := add_slots group_id is_new_id (gd_writes g) (group_writes cf),
        group_balance_reads := add_group_to_map group_id is_new_id (gd_balance_reads g) (group_balance_reads cf),
        group_balance_writes := add_group_to_map group_id is_new_id (gd_balance_writes g) (group_balance_writes cf),
        group_code_writes := add_group_to_map group_id is_new_id (gd_code_writes g) (group_code_writes cf)\<rparr>"

definition remove_group_from_index :: "nat \<Rightarrow> GroupData \<Rightarrow> ConflictFinder \<Rightarrow> ConflictFinder" where
  "remove_group_from_index group_id g cf =
     cf\<lparr>group_reads := remove_slots group_id (gd_reads g) (group_reads cf),
        group_writes := remove_slots group_id (gd_writes g) (group_writes cf),
        group_balance_reads := remove_group_from_map group_id (gd_balance_reads g) (group_balance_reads cf),
        group_balance_writes := remove_group_from_map group_id (gd_balance_writes g) (group_balance_writes cf),
        group_code_writes := remove_group_from_map group_id (gd_code_writes g) (group_code_writes cf)\<rparr>"

section \<open>Adding orders\<close>

definition slot_groups :: "slot_index \<Rightarrow> SlotKey \<Rightarrow> nat list" where
  "slot_groups idx k =
     (case map_of idx (sk_address k) of
        None \<Rightarrow> []
      | Some inner \<Rightarrow> (case map_of inner (sk_key k) of None \<Rightarrow> [] | Some groups \<Rightarrow> groups))"

definition key_groups :: "('k \<times> nat list) list \<Rightarrow> 'k \<Rightarrow> nat list" where
  "key_groups m k = (case map_of m k of None \<Rightarrow> [] | Some groups \<Rightarrow> groups)"

definition address_slot_groups :: "slot_index \<Rightarrow> address \<Rightarrow> nat list" where
  "address_slot_groups idx a = (case map_of idx a of None \<Rightarrow> [] | Some inner \<Rightarrow> concat (map snd inner))"

definition all_groups_in_conflict :: "UsedStateTrace \<Rightarrow> ConflictFinder \<Rightarrow> nat list" where
  "all_groups_in_conflict used_state cf = sort_dedup
     (concat (map (\<lambda>k. slot_groups (group_writes cf) k @ key_groups (group_code_writes cf) (sk_address k))
        (map fst (read_slot_values used_state))) @
      concat (map (\<lambda>k. slot_groups (group_reads cf) k @ key_groups (group_code_writes cf) (sk_address k))
        (map fst (written_slot_values used_state))) @
      concat (map (key_groups (group_balance_reads cf)) (map fst (received_amount used_state) @ map fst (sent_amount used_state))) @
      concat (map (key_groups (group_balance_writes cf)) (map fst (read_balances used_state))) @
      concat (map (\<lambda>a. key_groups (group_code_writes cf) a @ address_slot_groups (group_reads cf) a @
          address_slot_groups (group_writes cf) a)
        (destructed_contracts used_state @ created_contracts used_state)))"

definition new_order_group :: "SimulatedOrder \<Rightarrow> UsedStateTrace \<Rightarrow> GroupData" where
  "new_order_group od used_state =
     \<lparr>gd_orders = [od],
      gd_reads = map fst (read_slot_values used_state),
      gd_writes = map fst (written_slot_values used_state),
      gd_balance_reads = map fst (read_balances used_state),
      gd_balance_writes = sort_dedup (map fst (sent_amount used_state) @ map fst (received_amount used_state)),
      gd_code_writes = sort_dedup (created_contracts used_state @ destructed_contracts used_state),
      gd_conflicting_group_ids = []\<rparr>"

definition insert_group :: "nat \<Rightarrow> GroupData \<Rightarrow> ConflictFinder \<Rightarrow> ConflictFinder" where
  "insert_group group_id g cf = cf\<lparr>cf_groups := alist_update group_id g (cf_groups cf)\<rparr>"

definition remove_group :: "nat \<Rightarrow> ConflictFinder \<Rightarrow> ConflictFinder" where
  "remove_group group_id cf = cf\<lparr>cf_groups := filter (\<lambda>kv. fst kv \<noteq> group_id) (cf_groups cf)\<rparr>"

text \<open>\<open>None\<close> is the panic on a group that is not found.\<close>

fun take_groups :: "nat list \<Rightarrow> ConflictFinder \<Rightarrow> ((nat \<times> GroupData) list \<times> ConflictFinder) option" where
  "take_groups [] cf = Some ([], cf)"
| "take_groups (i # is) cf =
     (case map_of (cf_groups cf) i of
        None \<Rightarrow> None
      | Some g \<Rightarrow> map_option (\<lambda>(gs, cf). ((i, g) # gs, cf)) (take_groups is (remove_group i cf)))"

definition place_group :: "GroupData \<Rightarrow> nat list \<Rightarrow> ConflictFinder \<Rightarrow> ConflictFinder option" where
  "place_group new_group in_conflict cf =
     (case in_conflict of
        [] \<Rightarrow>
          (let group_id = group_counter cf; cf = cf\<lparr>group_counter := group_counter cf + 1\<rparr>
           in Some (insert_group group_id new_group (add_group_to_index group_id True new_group cf)))
      | [group_id] \<Rightarrow>
          map_option (\<lambda>other_group.
              let combined_group = combine_groups [new_group, other_group] []
              in insert_group group_id combined_group (add_group_to_index group_id False combined_group (remove_group group_id cf)))
            (map_of (cf_groups cf) group_id)
      | _ \<Rightarrow>
          map_option (\<lambda>(conflicting_groups, cf).
              let cf = foldl (\<lambda>cf (i, g). remove_group_from_index i g cf) cf conflicting_groups;
                  group_id = group_counter cf;
                  cf = cf\<lparr>group_counter := group_counter cf + 1\<rparr>;
                  combined_group = combine_groups (map snd conflicting_groups @ [new_group]) (map fst conflicting_groups)
              in insert_group group_id combined_group (add_group_to_index group_id True combined_group cf))
            (take_groups in_conflict cf))"

definition add_order :: "SimulatedOrder \<Rightarrow> ConflictFinder \<Rightarrow> ConflictFinder option" where
  "add_order od cf =
     (if so_id od \<in> cf_orders cf then Some cf
      else
        let cf = cf\<lparr>cf_orders := insert (so_id od) (cf_orders cf)\<rparr>
        in case so_used_state_trace od of
             None \<Rightarrow> Some cf
           | Some used_state \<Rightarrow> place_group (new_order_group od used_state) (all_groups_in_conflict used_state cf) cf)"

fun add_orders :: "SimulatedOrder list \<Rightarrow> ConflictFinder \<Rightarrow> ConflictFinder option" where
  "add_orders [] cf = Some cf"
| "add_orders (od # ods) cf = Option.bind (add_order od cf) (add_orders ods)"

definition get_order_groups :: "ConflictFinder \<Rightarrow> ConflictGroup list" where
  "get_order_groups cf =
     map (\<lambda>(i, g). \<lparr>cg_id = i, cg_orders = gd_orders g, conflicting_group_ids = gd_conflicting_group_ids g\<rparr>)
       (sort_key fst (cf_groups cf))"

section \<open>What orders and groups use\<close>

datatype used =
    Read SlotKey
  | Write SlotKey
  | BalanceRead address
  | BalanceWrite address
  | Code address

fun clash :: "used \<Rightarrow> used \<Rightarrow> bool" where
  "clash (Read k) (Write l) \<longleftrightarrow> k = l"
| "clash (Write k) (Read l) \<longleftrightarrow> k = l"
| "clash (Read k) (Code a) \<longleftrightarrow> sk_address k = a"
| "clash (Code a) (Read k) \<longleftrightarrow> sk_address k = a"
| "clash (Write k) (Code a) \<longleftrightarrow> sk_address k = a"
| "clash (Code a) (Write k) \<longleftrightarrow> sk_address k = a"
| "clash (BalanceRead a) (BalanceWrite b) \<longleftrightarrow> a = b"
| "clash (BalanceWrite a) (BalanceRead b) \<longleftrightarrow> a = b"
| "clash (Code a) (Code b) \<longleftrightarrow> a = b"
| "clash _ _ \<longleftrightarrow> False"

lemma clash_sym: "clash x y \<longleftrightarrow> clash y x"
  by (cases x; cases y) auto

definition touched :: "UsedStateTrace \<Rightarrow> used set" where
  "touched t = Read ` fst ` set (read_slot_values t) \<union> Write ` fst ` set (written_slot_values t) \<union>
     BalanceRead ` fst ` set (read_balances t) \<union> BalanceWrite ` fst ` (set (sent_amount t) \<union> set (received_amount t)) \<union>
     Code ` (set (created_contracts t) \<union> set (destructed_contracts t))"

definition touches :: "GroupData \<Rightarrow> used set" where
  "touches g = Read ` set (gd_reads g) \<union> Write ` set (gd_writes g) \<union> BalanceRead ` set (gd_balance_reads g) \<union>
     BalanceWrite ` set (gd_balance_writes g) \<union> Code ` set (gd_code_writes g)"

definition order_touches :: "SimulatedOrder \<Rightarrow> used set" where
  "order_touches od = (case so_used_state_trace od of None \<Rightarrow> {} | Some t \<Rightarrow> touched t)"

definition clashing :: "used set \<Rightarrow> used set \<Rightarrow> bool" where
  "clashing X Y \<longleftrightarrow> (\<exists>x \<in> X. \<exists>y \<in> Y. clash x y)"

text \<open>Orders conflict when they use state in ways that clash.\<close>

definition orders_conflict :: "SimulatedOrder \<Rightarrow> SimulatedOrder \<Rightarrow> bool" where
  "orders_conflict a b \<longleftrightarrow> clashing (order_touches a) (order_touches b)"

lemma clashing_sym: "clashing X Y \<longleftrightarrow> clashing Y X"
  unfolding clashing_def using clash_sym by blast

lemma clashing_Union: "clashing X (\<Union>y \<in> S. f y) \<longleftrightarrow> (\<exists>y \<in> S. clashing X (f y))"
  by (auto simp: clashing_def)

lemma set_sort_dedup [simp]: "set (sort_dedup xs) = set xs"
  by (simp add: sort_dedup_def)

lemma sorted_sort_dedup: "sorted (sort_dedup xs)" and distinct_sort_dedup: "distinct (sort_dedup xs)"
  using sorted_dedup [of "sort xs"] by (simp_all add: sort_dedup_def)

lemma touches_new: "touches (new_order_group od t) = touched t"
  by (auto simp: touches_def touched_def new_order_group_def)

lemma touches_combine: "touches (combine_groups gs ids) = (\<Union>g \<in> set gs. touches g)"
  by (auto simp: touches_def combine_groups_def)

section \<open>The tables are exact\<close>

definition slots_wf :: "slot_index \<Rightarrow> bool" where
  "slots_wf idx \<longleftrightarrow> (\<forall>a inner. map_of idx a = Some inner \<longrightarrow> distinct (map fst inner))"

definition group_wf :: "GroupData \<Rightarrow> bool" where
  "group_wf g \<longleftrightarrow> distinct (gd_reads g) \<and> distinct (gd_writes g) \<and> distinct (gd_balance_reads g) \<and>
     distinct (gd_balance_writes g) \<and> distinct (gd_code_writes g)"

fun index_at :: "ConflictFinder \<Rightarrow> used \<Rightarrow> nat list" where
  "index_at cf (Read k) = slot_groups (group_reads cf) k"
| "index_at cf (Write k) = slot_groups (group_writes cf) k"
| "index_at cf (BalanceRead a) = key_groups (group_balance_reads cf) a"
| "index_at cf (BalanceWrite a) = key_groups (group_balance_writes cf) a"
| "index_at cf (Code a) = key_groups (group_code_writes cf) a"

lemma key_groups_add_key:
  "key_groups (add_group_key_to_map i n key m) k =
     (if k = key \<and> (n \<or> i \<notin> set (key_groups m key)) then key_groups m k @ [i] else key_groups m k)"
  by (auto simp: key_groups_def add_group_key_to_map_def Let_def)

lemma key_groups_remove_key:
  "key_groups (remove_group_key_from_map i key m) k =
     (if k = key then swap_remove_first i (key_groups m k) else key_groups m k)"
  by (auto simp: key_groups_def remove_group_key_from_map_def split: option.splits)

lemma slot_groups_key: "slot_groups idx k = key_groups (case map_of idx (sk_address k) of None \<Rightarrow> [] | Some inner \<Rightarrow> inner) (sk_key k)"
  by (simp add: slot_groups_def key_groups_def split: option.split)

lemma SlotKey_eq_iff: "k = l \<longleftrightarrow> sk_address k = sk_address l \<and> sk_key k = sk_key l" for k l :: SlotKey
  by auto

lemma swap_remove_mset: "mset (swap_remove_first i xs) = mset xs - {#i#}"
proof (induction xs)
  case (Cons x xs)
  have "mset (case rev xs of [] \<Rightarrow> [] | z # zs \<Rightarrow> z # rev zs) = mset xs"
    by (metis (no_types, lifting) list.case_eq_if list.collapse mset.simps(2) mset_rev rev_is_Nil_conv)
  then show ?case using Cons by auto
qed simp

lemma swap_remove_distinct:
  "distinct xs \<Longrightarrow> set (swap_remove_first i xs) = set xs - {i} \<and> distinct (swap_remove_first i xs)"
proof -
  assume d: "distinct xs"
  have "mset (swap_remove_first i xs) = mset (remove1 i xs)" by (simp add: swap_remove_mset)
  then show ?thesis
    using d by (metis distinct_remove1 mset_eq_imp_distinct_iff mset_eq_setD set_remove1_eq)
qed

text \<open>Adding to and removing from a table, for all kinds of tables at once.\<close>

locale group_table =
  fixes groups :: "'m \<Rightarrow> 'k \<Rightarrow> nat list"
    and add :: "nat \<Rightarrow> bool \<Rightarrow> 'k \<Rightarrow> 'm \<Rightarrow> 'm"
    and remove :: "nat \<Rightarrow> 'k \<Rightarrow> 'm \<Rightarrow> 'm"
  assumes groups_add: "groups (add i n key m) k =
      (if k = key \<and> (n \<or> i \<notin> set (groups m key)) then groups m k @ [i] else groups m k)"
    and groups_remove: "groups (remove i key m) k =
      (if k = key then swap_remove_first i (groups m k) else groups m k)"
begin

lemma groups_add_all:
  "set (groups (foldl (\<lambda>m key. add i n key m) m ks) k) = set (groups m k) \<union> (if k \<in> set ks then {i} else {})"
  by (induction ks arbitrary: m) (auto simp: groups_add)

lemma distinct_add_all:
  "distinct ks \<Longrightarrow> distinct (groups m k) \<Longrightarrow> (n \<Longrightarrow> i \<notin> set (groups m k)) \<Longrightarrow>
    distinct (groups (foldl (\<lambda>m key. add i n key m) m ks) k)"
proof (induction ks arbitrary: m)
  case (Cons key ks)
  show ?case
  proof (cases "k = key")
    case True
    have other: "groups (foldl (\<lambda>m key. add i n key m) m' ks) k = groups m' k" for m'
      using Cons.prems(1) True by (induction ks arbitrary: m') (auto simp: groups_add)
    show ?thesis unfolding foldl.simps other using Cons.prems(2,3) by (auto simp: groups_add)
  next
    case False
    then show ?thesis using Cons by (simp add: groups_add)
  qed
qed simp

lemma groups_remove_all:
  "distinct (groups m k) \<Longrightarrow>
    set (groups (foldl (\<lambda>m key. remove i key m) m ks) k) = set (groups m k) - (if k \<in> set ks then {i} else {}) \<and>
    distinct (groups (foldl (\<lambda>m key. remove i key m) m ks) k)"
proof (induction ks arbitrary: m)
  case (Cons key ks)
  have m: "distinct (groups (remove i key m) k)"
    "set (groups (remove i key m) k) = set (groups m k) - (if k = key then {i} else {})"
    using Cons.prems by (auto simp: groups_remove swap_remove_distinct)
  show ?case using Cons.IH [OF m(1)] m(2) by auto
qed simp

end

interpretation keys: group_table key_groups add_group_key_to_map remove_group_key_from_map
  by unfold_locales (auto simp: key_groups_add_key key_groups_remove_key)

interpretation slots: group_table slot_groups
  "\<lambda>i n k. at_address (add_group_key_to_map i n (sk_key k)) (sk_address k)"
  "\<lambda>i k. at_address (remove_group_key_from_map i (sk_key k)) (sk_address k)"
  by unfold_locales
    (auto simp: slot_groups_key at_address_def key_groups_add_key key_groups_remove_key SlotKey_eq_iff)

lemma index_add:
  "set (index_at (add_group_to_index i n g cf) u) = set (index_at cf u) \<union> (if u \<in> touches g then {i} else {})"
  by (cases u) (auto simp: add_group_to_index_def add_slots_def add_group_to_map_def slots.groups_add_all keys.groups_add_all
      touches_def)

lemma distinct_index_add:
  assumes "group_wf g" and "distinct (index_at cf u)" and "n \<Longrightarrow> i \<notin> set (index_at cf u)"
  shows "distinct (index_at (add_group_to_index i n g cf) u)"
  using assms
  by (cases u) (auto simp: add_group_to_index_def add_slots_def add_group_to_map_def group_wf_def
      intro!: slots.distinct_add_all keys.distinct_add_all)

lemma index_remove:
  assumes "distinct (index_at cf u)"
  shows "set (index_at (remove_group_from_index i g cf) u) = set (index_at cf u) - (if u \<in> touches g then {i} else {}) \<and>
    distinct (index_at (remove_group_from_index i g cf) u)"
proof (cases u)
  case (Read k)
  then show ?thesis
    using assms slots.groups_remove_all [of "group_reads cf" k i "gd_reads g"]
    by (auto simp: remove_group_from_index_def remove_slots_def touches_def)
next
  case (Write k)
  then show ?thesis
    using assms slots.groups_remove_all [of "group_writes cf" k i "gd_writes g"]
    by (auto simp: remove_group_from_index_def remove_slots_def touches_def)
next
  case (BalanceRead a)
  then show ?thesis
    using assms keys.groups_remove_all [of "group_balance_reads cf" a i "gd_balance_reads g"]
    by (auto simp: remove_group_from_index_def remove_group_from_map_def touches_def)
next
  case (BalanceWrite a)
  then show ?thesis
    using assms keys.groups_remove_all [of "group_balance_writes cf" a i "gd_balance_writes g"]
    by (auto simp: remove_group_from_index_def remove_group_from_map_def touches_def)
next
  case (Code a)
  then show ?thesis
    using assms keys.groups_remove_all [of "group_code_writes cf" a i "gd_code_writes g"]
    by (auto simp: remove_group_from_index_def remove_group_from_map_def touches_def)
qed

lemma slots_wf_at:
  assumes "slots_wf idx" and "\<And>m. distinct (map fst m) \<Longrightarrow> distinct (map fst (f m))"
  shows "slots_wf (at_address f a idx)"
  using assms by (auto simp: slots_wf_def at_address_def split: option.splits)

lemma slots_wf_add: "slots_wf idx \<Longrightarrow> slots_wf (add_slots i n ks idx)"
  unfolding add_slots_def
proof (induction ks arbitrary: idx)
  case (Cons k ks)
  have "slots_wf (at_address (add_group_key_to_map i n (sk_key k)) (sk_address k) idx)"
    by (rule slots_wf_at [OF Cons.prems]) (simp add: add_group_key_to_map_def)
  from Cons.IH [OF this] show ?case by simp
qed simp

lemma slots_wf_remove: "slots_wf idx \<Longrightarrow> slots_wf (remove_slots i ks idx)"
  unfolding remove_slots_def
proof (induction ks arbitrary: idx)
  case (Cons k ks)
  have "slots_wf (at_address (remove_group_key_from_map i (sk_key k)) (sk_address k) idx)"
    by (rule slots_wf_at [OF Cons.prems]) (simp add: remove_group_key_from_map_def)
  from Cons.IH [OF this] show ?case by simp
qed simp

lemma set_address_slot_groups:
  assumes "slots_wf idx"
  shows "set (address_slot_groups idx a) = (\<Union>k \<in> {k. sk_address k = a}. set (slot_groups idx k))"
proof (cases "map_of idx a")
  case None
  then show ?thesis by (auto simp: address_slot_groups_def slot_groups_def)
next
  case (Some inner)
  have d: "distinct (map fst inner)" using assms Some by (simp add: slots_wf_def)
  show ?thesis
  proof (intro set_eqI iffI)
    fix i assume "i \<in> set (address_slot_groups idx a)"
    then obtain key gs where "(key, gs) \<in> set inner" "i \<in> set gs" using Some by (auto simp: address_slot_groups_def)
    then have "i \<in> set (slot_groups idx \<lparr>sk_address = a, sk_key = key\<rparr>)"
      using Some d by (simp add: slot_groups_def)
    then show "i \<in> (\<Union>k \<in> {k. sk_address k = a}. set (slot_groups idx k))" by force
  next
    fix i assume "i \<in> (\<Union>k \<in> {k. sk_address k = a}. set (slot_groups idx k))"
    then obtain k where "sk_address k = a" "i \<in> set (slot_groups idx k)" by blast
    then obtain gs where "map_of inner (sk_key k) = Some gs" "i \<in> set gs"
      using Some by (cases "map_of inner (sk_key k)") (simp_all add: slot_groups_def)
    then show "i \<in> set (address_slot_groups idx a)"
      using Some by (force simp: address_slot_groups_def dest: map_of_SomeD)
  qed
qed

lemma set_all_groups_in_conflict:
  assumes "slots_wf (group_reads cf)" and "slots_wf (group_writes cf)"
  shows "set (all_groups_in_conflict t cf) = {i. \<exists>x \<in> touched t. \<exists>y. clash x y \<and> i \<in> set (index_at cf y)}" (is "?l = ?r")
proof -
  have clashes: "{y. clash (Read k) y} = {Write k, Code (sk_address k)}"
    "{y. clash (Write k) y} = {Read k, Code (sk_address k)}"
    "{y. clash (BalanceRead a) y} = {BalanceWrite a}" "{y. clash (BalanceWrite a) y} = {BalanceRead a}"
    "{y. clash (Code a) y} = {Code a} \<union> Read ` {k. sk_address k = a} \<union> Write ` {k. sk_address k = a}" for k a
    by (auto elim: clash.elims)
  have "?r = (\<Union>x \<in> touched t. \<Union>y \<in> {y. clash x y}. set (index_at cf y))" by blast
  also have "\<dots> = ?l"
    by (auto simp: all_groups_in_conflict_def touched_def clashes set_address_slot_groups assms)
  finally show ?thesis by simp
qed

section \<open>The groups of a finder\<close>

definition groups_at :: "ConflictFinder \<Rightarrow> nat \<Rightarrow> GroupData option" where
  "groups_at cf = map_of (cf_groups cf)"

definition finder_inv :: "ConflictFinder \<Rightarrow> bool" where
  "finder_inv cf \<longleftrightarrow> slots_wf (group_reads cf) \<and> slots_wf (group_writes cf) \<and> distinct (map fst (cf_groups cf)) \<and>
     (\<forall>i g. groups_at cf i = Some g \<longrightarrow> i < group_counter cf \<and> group_wf g) \<and>
     (\<forall>u. distinct (index_at cf u) \<and> set (index_at cf u) = {i. \<exists>g. groups_at cf i = Some g \<and> u \<in> touches g})"

lemma finder_inv_new: "finder_inv ConflictFinder_new"
proof -
  have "index_at ConflictFinder_new u = []" for u
    by (cases u) (simp_all add: ConflictFinder_new_def slot_groups_def key_groups_def)
  then show ?thesis by (simp add: finder_inv_def ConflictFinder_new_def slots_wf_def groups_at_def)
qed

lemma conflicting_groups:
  assumes "finder_inv cf"
  shows "set (all_groups_in_conflict t cf) = {i. \<exists>g. groups_at cf i = Some g \<and> clashing (touched t) (touches g)}"
  using assms unfolding finder_inv_def by (auto simp: set_all_groups_in_conflict clashing_def)

lemma finder_simps [simp]:
  "groups_at (insert_group i g cf) = (groups_at cf)(i \<mapsto> g)" "groups_at (remove_group i cf) = (groups_at cf)(i := None)"
  "groups_at (add_group_to_index i n g cf) = groups_at cf" "groups_at (remove_group_from_index i g cf) = groups_at cf"
  "groups_at (cf\<lparr>group_counter := c\<rparr>) = groups_at cf" "groups_at (cf\<lparr>cf_orders := os\<rparr>) = groups_at cf"
  "group_counter (insert_group i g cf) = group_counter cf" "group_counter (remove_group i cf) = group_counter cf"
  "group_counter (add_group_to_index i n g cf) = group_counter cf"
  "group_counter (remove_group_from_index i g cf) = group_counter cf"
  "cf_orders (insert_group i g cf) = cf_orders cf" "cf_orders (remove_group i cf) = cf_orders cf"
  "cf_orders (add_group_to_index i n g cf) = cf_orders cf" "cf_orders (remove_group_from_index i g cf) = cf_orders cf"
  by (simp_all add: insert_group_def remove_group_def add_group_to_index_def remove_group_from_index_def groups_at_def
      map_of_remove)

lemma index_simps [simp]:
  "index_at (insert_group i g cf) u = index_at cf u" "index_at (remove_group i cf) u = index_at cf u"
  "index_at (cf\<lparr>group_counter := c\<rparr>) u = index_at cf u" "index_at (cf\<lparr>cf_orders := os\<rparr>) u = index_at cf u"
  by (cases u; simp add: insert_group_def remove_group_def)+

text \<open>The parts of a finder that are only about the shape of its tables.\<close>

definition finder_wf :: "ConflictFinder \<Rightarrow> bool" where
  "finder_wf cf \<longleftrightarrow> slots_wf (group_reads cf) \<and> slots_wf (group_writes cf) \<and> distinct (map fst (cf_groups cf))"

lemma finder_wf_keeps [simp]:
  "finder_wf cf \<Longrightarrow> finder_wf (insert_group i g cf)" "finder_wf cf \<Longrightarrow> finder_wf (remove_group i cf)"
  "finder_wf cf \<Longrightarrow> finder_wf (add_group_to_index i n g cf)" "finder_wf cf \<Longrightarrow> finder_wf (remove_group_from_index i g cf)"
  "finder_wf (cf\<lparr>group_counter := c\<rparr>) = finder_wf cf" "finder_wf (cf\<lparr>cf_orders := os\<rparr>) = finder_wf cf"
  by (auto simp: finder_wf_def insert_group_def remove_group_def add_group_to_index_def remove_group_from_index_def
      slots_wf_add slots_wf_remove)

lemma take_groups_spec:
  assumes "distinct ids" and "\<forall>i \<in> set ids. groups_at cf i \<noteq> None"
  shows "\<exists>gs cf'. take_groups ids cf = Some (gs, cf') \<and> map fst gs = ids \<and> (\<forall>(i, g) \<in> set gs. groups_at cf i = Some g) \<and>
    groups_at cf' = (\<lambda>i. if i \<in> set ids then None else groups_at cf i) \<and> (finder_wf cf \<longrightarrow> finder_wf cf') \<and>
    (\<forall>u. index_at cf' u = index_at cf u) \<and> group_counter cf' = group_counter cf \<and> cf_orders cf' = cf_orders cf"
  using assms
proof (induction ids arbitrary: cf)
  case (Cons i ids)
  obtain g where g: "groups_at cf i = Some g" using Cons.prems by auto
  have "\<forall>j \<in> set ids. groups_at (remove_group i cf) j \<noteq> None" using Cons.prems by auto
  from Cons.IH [OF _ this] Cons.prems(1) obtain gs cf' where IH: "take_groups ids (remove_group i cf) = Some (gs, cf')"
    "map fst gs = ids" "\<forall>(j, h) \<in> set gs. groups_at (remove_group i cf) j = Some h"
    "groups_at cf' = (\<lambda>j. if j \<in> set ids then None else groups_at (remove_group i cf) j)"
    "finder_wf (remove_group i cf) \<longrightarrow> finder_wf cf'" "\<forall>u. index_at cf' u = index_at (remove_group i cf) u"
    "group_counter cf' = group_counter (remove_group i cf)" "cf_orders cf' = cf_orders (remove_group i cf)"
    by auto
  have "take_groups (i # ids) cf = Some ((i, g) # gs, cf')" using g IH(1) by (simp add: groups_at_def)
  then show ?case using IH(2-8) g by (auto split: if_splits)
qed simp

text \<open>Removing several groups from the tables.\<close>

lemma remove_groups_spec:
  fixes gs :: "(nat \<times> GroupData) list"
  assumes "\<forall>u. distinct (index_at cf u)"
  defines "cf' \<equiv> foldl (\<lambda>cf (i, g). remove_group_from_index i g cf) cf gs"
  shows "(\<forall>u. distinct (index_at cf' u) \<and>
      set (index_at cf' u) = set (index_at cf u) - {i. \<exists>g. (i, g) \<in> set gs \<and> u \<in> touches g}) \<and>
    groups_at cf' = groups_at cf \<and> (finder_wf cf \<longrightarrow> finder_wf cf') \<and> group_counter cf' = group_counter cf \<and>
    cf_orders cf' = cf_orders cf"
  using assms(1) unfolding cf'_def
proof (induction gs arbitrary: cf)
  case (Cons p gs)
  obtain i g where p: "p = (i, g)" by (cases p)
  have rm: "\<forall>u. distinct (index_at (remove_group_from_index i g cf) u) \<and>
    set (index_at (remove_group_from_index i g cf) u) = set (index_at cf u) - (if u \<in> touches g then {i} else {})"
    using index_remove Cons.prems by blast
  from Cons.IH [of "remove_group_from_index i g cf"] rm show ?case by (auto simp: p)
qed auto

lemma finder_inv_insert:
  assumes wf: "finder_wf cf" and distinct: "\<forall>u. distinct (index_at cf u)"
    and index: "\<forall>u. set (index_at cf u) = {i. i \<noteq> j \<and> (\<exists>g. groups_at cf i = Some g \<and> u \<in> touches g)} \<union> (if u \<in> T then {j} else {})"
    and T: "T \<subseteq> touches comb" "is_new \<Longrightarrow> T = {}" and comb: "group_wf comb"
    and bounds: "j < group_counter cf" "\<forall>i g. groups_at cf i = Some g \<longrightarrow> i < group_counter cf \<and> group_wf g"
  shows "finder_inv (insert_group j comb (add_group_to_index j is_new comb cf))" (is "finder_inv ?cf")
proof -
  have "distinct (index_at ?cf u)" for u
    using distinct index T(2) comb by (auto intro!: distinct_index_add)
  moreover have "set (index_at ?cf u) = {i. \<exists>g. groups_at ?cf i = Some g \<and> u \<in> touches g}" for u
    using index T(1) by (auto simp: index_add)
  ultimately show ?thesis
    using finder_wf_keeps(1) [OF finder_wf_keeps(3) [OF wf]] bounds comb
    by (auto simp: finder_inv_def finder_wf_def)
qed

text \<open>The effect of placing a new group that clashes with the groups \<open>ids\<close>.\<close>

definition merged_orders :: "ConflictFinder \<Rightarrow> nat list \<Rightarrow> SimulatedOrder multiset" where
  "merged_orders cf ids = sum_list (map (\<lambda>i. mset (gd_orders (the (groups_at cf i)))) ids)"

definition placed_as :: "GroupData \<Rightarrow> nat list \<Rightarrow> ConflictFinder \<Rightarrow> nat \<Rightarrow> GroupData \<Rightarrow> ConflictFinder \<Rightarrow> bool" where
  "placed_as g ids cf j comb cf' \<longleftrightarrow> finder_inv cf' \<and> cf_orders cf' = cf_orders cf \<and>
     groups_at cf' = (\<lambda>i. if i = j then Some comb else if i \<in> set ids then None else groups_at cf i) \<and>
     (if length ids = 1 then j = hd ids \<and> group_counter cf' = group_counter cf
      else j = group_counter cf \<and> group_counter cf' = group_counter cf + 1) \<and>
     touches comb = touches g \<union> (\<Union>i \<in> set ids. touches (the (groups_at cf i))) \<and>
     mset (gd_orders comb) = mset (gd_orders g) + merged_orders cf ids \<and>
     set (gd_conflicting_group_ids comb) = set (gd_conflicting_group_ids g) \<union>
       (\<Union>i \<in> set ids. set (gd_conflicting_group_ids (the (groups_at cf i)))) \<union> (if length ids = 1 then {} else set ids)"

lemma group_wf_combine: "group_wf (combine_groups gs ids)"
  by (simp add: group_wf_def combine_groups_def distinct_sort_dedup)

lemma combine_sel [simp]:
  "gd_orders (combine_groups gs ids) = concat (map gd_orders gs)"
  "set (gd_conflicting_group_ids (combine_groups gs ids)) = set ids \<union> (\<Union>g \<in> set gs. set (gd_conflicting_group_ids g))"
  by (auto simp: combine_groups_def)

lemma new_order_group_sel [simp]:
  "gd_orders (new_order_group od t) = [od]" "gd_conflicting_group_ids (new_order_group od t) = []"
  by (simp_all add: new_order_group_def)

lemma finder_invD:
  assumes "finder_inv cf"
  shows "finder_wf cf" and "distinct (index_at cf u)" and "set (index_at cf u) = {i. \<exists>g. groups_at cf i = Some g \<and> u \<in> touches g}"
    and "groups_at cf i = Some h \<Longrightarrow> i < group_counter cf \<and> group_wf h"
  using assms by (auto simp: finder_inv_def finder_wf_def)

lemma place_alone:
  assumes inv: "finder_inv cf" and "group_wf g"
  shows "\<exists>cf' j comb. place_group g [] cf = Some cf' \<and> placed_as g [] cf j comb cf'"
proof -
  let ?j = "group_counter cf" and ?cf = "cf\<lparr>group_counter := group_counter cf + 1\<rparr>"
  have fresh: "groups_at cf ?j = None" using finder_invD(4) [OF inv, of ?j] by (cases "groups_at cf ?j") auto
  have "finder_inv (insert_group ?j g (add_group_to_index ?j True g ?cf))"
    by (rule finder_inv_insert [where T = "{}"])
      (use finder_invD [OF inv] fresh assms(2) in \<open>auto simp: less_Suc_eq\<close>)
  then show ?thesis
    using fresh by (auto simp: place_group_def Let_def placed_as_def merged_orders_def fun_eq_iff
        intro!: exI [of _ ?j] exI [of _ g])
qed

lemma place_one:
  assumes inv: "finder_inv cf" and "group_wf g" and h: "groups_at cf i = Some h"
  shows "\<exists>cf' j comb. place_group g [i] cf = Some cf' \<and> placed_as g [i] cf j comb cf'"
proof -
  let ?comb = "combine_groups [g, h] []" and ?cf = "remove_group i cf"
  have "finder_inv (insert_group i ?comb (add_group_to_index i False ?comb ?cf))"
    by (rule finder_inv_insert [where T = "touches h"])
      (use finder_invD [OF inv] h in \<open>auto simp: group_wf_combine touches_combine\<close>)
  then show ?thesis
    using h by (auto simp: place_group_def Let_def placed_as_def merged_orders_def fun_eq_iff groups_at_def [symmetric]
        touches_combine intro!: exI [of _ i] exI [of _ ?comb])
qed

lemma place_many:
  assumes inv: "finder_inv cf" and "group_wf g" and ids: "distinct ids" "\<forall>i \<in> set ids. groups_at cf i \<noteq> None"
    and many: "length ids \<ge> 2"
  shows "\<exists>cf' j comb. place_group g ids cf = Some cf' \<and> placed_as g ids cf j comb cf'"
proof -
  obtain gs cf1 where t: "take_groups ids cf = Some (gs, cf1)" "map fst gs = ids" "\<forall>(i, h) \<in> set gs. groups_at cf i = Some h"
    "groups_at cf1 = (\<lambda>i. if i \<in> set ids then None else groups_at cf i)" "finder_wf cf1" "\<forall>u. index_at cf1 u = index_at cf u"
    "group_counter cf1 = group_counter cf" "cf_orders cf1 = cf_orders cf"
    using take_groups_spec [OF ids] finder_invD(1) [OF inv] by auto
  define cf2 where "cf2 = foldl (\<lambda>cf (i, g). remove_group_from_index i g cf) cf1 gs"
  have r: "\<forall>u. distinct (index_at cf2 u) \<and>
      set (index_at cf2 u) = set (index_at cf u) - {i. \<exists>h. (i, h) \<in> set gs \<and> u \<in> touches h}"
    "groups_at cf2 = groups_at cf1" "finder_wf cf2" "group_counter cf2 = group_counter cf" "cf_orders cf2 = cf_orders cf"
    using remove_groups_spec [of cf1 gs] t finder_invD(2) [OF inv] unfolding cf2_def by auto
  have gs: "gs = map (\<lambda>i. (i, the (groups_at cf i))) ids"
    unfolding t(2) [symmetric] map_map by (rule map_idI [symmetric]) (use t(3) in \<open>force simp: comp_def\<close>)
  let ?j = "group_counter cf" and ?cf = "cf2\<lparr>group_counter := group_counter cf2 + 1\<rparr>"
  let ?comb = "combine_groups (map snd gs @ [g]) (map fst gs)"
  have fresh: "groups_at cf ?j = None" using finder_invD(4) [OF inv, of ?j] by (cases "groups_at cf ?j") auto
  then have "?j \<notin> set ids" using ids(2) by blast
  have "set (index_at cf2 u) = {i. i \<notin> set ids \<and> (\<exists>g. groups_at cf i = Some g \<and> u \<in> touches g)}" for u
    unfolding r(1) [rule_format, THEN conjunct2] finder_invD(3) [OF inv] gs by auto
  then have index: "set (index_at cf2 u) = {i. i \<noteq> ?j \<and> (\<exists>g. groups_at cf2 i = Some g \<and> u \<in> touches g)}" for u
    using fresh unfolding r(2) t(4) by auto
  have "finder_inv (insert_group ?j ?comb (add_group_to_index ?j True ?comb ?cf))"
  proof (rule finder_inv_insert [where T = "{}"])
    show "\<forall>u. set (index_at ?cf u) = {i. i \<noteq> ?j \<and> (\<exists>g. groups_at ?cf i = Some g \<and> u \<in> touches g)} \<union> (if u \<in> {} then {?j} else {})"
      using index by simp
  qed (use r t(4) finder_invD(4) [OF inv] in \<open>auto simp: group_wf_combine less_Suc_eq split: if_splits\<close>)
  moreover have "place_group g ids cf = Some (insert_group ?j ?comb (add_group_to_index ?j True ?comb ?cf))"
    using many t(1) r(4) by (cases ids rule: remdups_adj.cases) (simp_all add: place_group_def Let_def cf2_def)
  ultimately show ?thesis
    using many \<open>?j \<notin> set ids\<close> r(2,4,5) t(4)
    by (intro exI [of _ "insert_group ?j ?comb (add_group_to_index ?j True ?comb ?cf)"] exI [of _ ?j] exI [of _ ?comb])
      (auto simp: placed_as_def touches_combine gs fun_eq_iff merged_orders_def
        mset_concat comp_def ac_simps)
qed

lemma place_group_spec:
  assumes "finder_inv cf" and "group_wf g" and "distinct ids" and "\<forall>i \<in> set ids. groups_at cf i \<noteq> None"
  shows "\<exists>cf' j comb. place_group g ids cf = Some cf' \<and> placed_as g ids cf j comb cf'"
proof (cases ids rule: remdups_adj.cases)
  case 1
  then show ?thesis using place_alone assms by simp
next
  case (2 i)
  then show ?thesis using place_one assms by auto
next
  case (3 i k ks)
  then show ?thesis using place_many [OF assms] by simp
qed

section \<open>The groups are the components of the conflict relation\<close>

definition linked :: "SimulatedOrder set \<Rightarrow> (SimulatedOrder \<times> SimulatedOrder) set" where
  "linked A = {(a, b). a \<in> A \<and> b \<in> A \<and> orders_conflict a b}"

definition connected :: "SimulatedOrder set \<Rightarrow> bool" where
  "connected A \<longleftrightarrow> (\<forall>a \<in> A. \<forall>b \<in> A. (a, b) \<in> (linked A)\<^sup>*)"

lemma orders_conflict_sym: "orders_conflict a b \<longleftrightarrow> orders_conflict b a"
  using clashing_sym by (simp add: orders_conflict_def)

lemma linked_mono: "A \<subseteq> B \<Longrightarrow> (linked A)\<^sup>* \<subseteq> (linked B)\<^sup>*"
  by (rule rtrancl_mono) (auto simp: linked_def)

lemma linked_rtrancl_sym: "(a, b) \<in> (linked A)\<^sup>* \<Longrightarrow> (b, a) \<in> (linked A)\<^sup>*"
proof -
  have "sym (linked A)" using orders_conflict_sym by (auto simp: linked_def sym_def)
  then show "(a, b) \<in> (linked A)\<^sup>* \<Longrightarrow> (b, a) \<in> (linked A)\<^sup>*" by (meson sym_rtrancl symD)
qed

lemma connected_star:
  assumes "\<forall>A \<in> C. connected A \<and> (\<exists>a \<in> A. orders_conflict od a)"
  shows "connected (insert od (\<Union>C))" (is "connected ?S")
proof -
  have to_centre: "(b, od) \<in> (linked ?S)\<^sup>*" if b: "b \<in> ?S" for b
  proof (cases "b = od")
    case False
    then obtain A a where A: "A \<in> C" "b \<in> A" "connected A" "a \<in> A" "orders_conflict od a" using b assms by auto
    then have "(b, a) \<in> (linked ?S)\<^sup>*" using linked_mono [of A ?S] by (auto simp: connected_def)
    moreover have "(a, od) \<in> linked ?S" using A orders_conflict_sym by (auto simp: linked_def)
    ultimately show ?thesis by (rule rtrancl_into_rtrancl)
  qed simp
  show ?thesis unfolding connected_def using to_centre linked_rtrancl_sym by (meson rtrancl_trans)
qed

definition group_orders :: "(nat \<Rightarrow> GroupData option) \<Rightarrow> nat \<Rightarrow> SimulatedOrder list" where
  "group_orders G i = gd_orders (the (G i))"

definition superseded :: "(nat \<Rightarrow> GroupData option) \<Rightarrow> nat set" where
  "superseded G = (\<Union>i \<in> dom G. set (gd_conflicting_group_ids (the (G i))))"

definition partitioned :: "ConflictFinder \<Rightarrow> SimulatedOrder list \<Rightarrow> bool" where
  "partitioned cf ods \<longleftrightarrow> finder_inv cf \<and> (let G = groups_at cf in
     (\<forall>i \<in> dom G. touches (the (G i)) = (\<Union>od \<in> set (group_orders G i). order_touches od) \<and> connected (set (group_orders G i)) \<and> group_orders G i \<noteq> []) \<and>
     (\<forall>i \<in> dom G. \<forall>j \<in> dom G. i \<noteq> j \<longrightarrow> \<not> clashing (touches (the (G i))) (touches (the (G j)))) \<and>
     (\<Sum>i \<in> dom G. mset (group_orders G i)) = mset ods \<and>
     dom G \<union> superseded G = {..<group_counter cf} \<and> dom G \<inter> superseded G = {})"

lemma partitioned_new: "partitioned ConflictFinder_new []"
  using finder_inv_new by (auto simp: partitioned_def ConflictFinder_new_def groups_at_def superseded_def)

lemma finite_groups [simp]: "finite (dom (groups_at cf))"
  by (simp add: groups_at_def finite_dom_map_of)

text \<open>Placing the group of one order keeps the partition, with that order added.\<close>

definition placement ::
  "ConflictFinder \<Rightarrow> SimulatedOrder list \<Rightarrow> SimulatedOrder \<Rightarrow> UsedStateTrace \<Rightarrow> nat list \<Rightarrow> nat \<Rightarrow> GroupData \<Rightarrow> ConflictFinder \<Rightarrow> bool"
where
  "placement cf ods od t ids j comb cf' \<longleftrightarrow> partitioned cf ods \<and> so_used_state_trace od = Some t \<and> distinct ids \<and>
     set ids = {i. \<exists>g. groups_at cf i = Some g \<and> clashing (touched t) (touches g)} \<and>
     placed_as (new_order_group od t) ids cf j comb cf'"

lemma placementD:
  assumes "placement cf ods od t ids j comb cf'"
  shows "groups_at cf' = (\<lambda>i. if i = j then Some comb else if i \<in> set ids then None else groups_at cf i)"
    and "touches comb = touched t \<union> (\<Union>i \<in> set ids. touches (the (groups_at cf i)))"
    and "mset (gd_orders comb) = add_mset od (\<Sum>i \<in> set ids. mset (group_orders (groups_at cf) i))"
    and "set ids \<subseteq> dom (groups_at cf)"
  using assms by (auto simp: placement_def placed_as_def touches_new merged_orders_def group_orders_def
      sum_list_distinct_conv_sum_set)

lemma place_fresh:
  assumes "placement cf ods od t ids j comb cf'"
  shows "j \<notin> dom (groups_at cf) - set ids"
proof (cases "length ids = 1")
  case True
  then show ?thesis using assms by (auto simp: placement_def placed_as_def length_Suc_conv)
next
  case False
  then have "j = group_counter cf" "finder_inv cf"
    using assms by (simp_all add: placement_def placed_as_def partitioned_def)
  then show ?thesis using finder_invD(4) [of cf j] by auto
qed

lemma dom_after:
  assumes "placement cf ods od t ids j comb cf'"
  shows "dom (groups_at cf') = insert j (dom (groups_at cf) - set ids)"
  by (auto simp: placementD(1) [OF assms] dom_def split: if_splits)

lemma group_after:
  assumes "placement cf ods od t ids j comb cf'"
  shows "groups_at cf' j = Some comb" and "i \<in> dom (groups_at cf) - set ids \<Longrightarrow> i \<noteq> j \<and> groups_at cf' i = groups_at cf i"
  using place_fresh [OF assms] by (auto simp: placementD(1) [OF assms])

lemma total_after:
  assumes p: "placement cf ods od t ids j comb cf'"
  shows "(\<Sum>i \<in> dom (groups_at cf'). mset (group_orders (groups_at cf') i)) = mset (od # ods)"
proof -
  have "(\<Sum>i \<in> dom (groups_at cf'). mset (group_orders (groups_at cf') i)) =
      mset (gd_orders comb) + (\<Sum>i \<in> dom (groups_at cf) - set ids. mset (group_orders (groups_at cf') i))"
    unfolding dom_after [OF p] using place_fresh [OF p]
    by (subst sum.insert) (simp_all add: group_orders_def group_after(1) [OF p])
  also have "(\<Sum>i \<in> dom (groups_at cf) - set ids. mset (group_orders (groups_at cf') i)) =
      (\<Sum>i \<in> dom (groups_at cf) - set ids. mset (group_orders (groups_at cf) i))"
    by (rule sum.cong) (use group_after(2) [OF p] in \<open>auto simp: group_orders_def\<close>)
  also have "mset (gd_orders comb) + \<dots> = add_mset od (\<Sum>i \<in> dom (groups_at cf). mset (group_orders (groups_at cf) i))"
    using sum.subset_diff [OF placementD(4) [OF p] finite_groups, of "\<lambda>i. mset (group_orders (groups_at cf) i)"]
    by (simp add: placementD(3) [OF p] ac_simps)
  finally show ?thesis using p by (simp add: placement_def partitioned_def Let_def)
qed

lemma set_orders_after:
  assumes "placement cf ods od t ids j comb cf'"
  shows "set (gd_orders comb) = insert od (\<Union>i \<in> set ids. set (group_orders (groups_at cf) i))"
proof -
  have "set_mset (mset (gd_orders comb)) = insert od (\<Union>i \<in> set ids. set (group_orders (groups_at cf) i))"
    unfolding placementD(3) [OF assms] by (simp add: set_mset_sum)
  then show ?thesis by simp
qed

lemma partitionedD:
  assumes "partitioned cf ods"
  shows "finder_inv cf"
    and "i \<in> dom (groups_at cf) \<Longrightarrow> touches (the (groups_at cf i)) = (\<Union>od \<in> set (group_orders (groups_at cf) i). order_touches od)"
    and "i \<in> dom (groups_at cf) \<Longrightarrow> connected (set (group_orders (groups_at cf) i))"
    and "i \<in> dom (groups_at cf) \<Longrightarrow> k \<in> dom (groups_at cf) \<Longrightarrow> i \<noteq> k \<Longrightarrow>
      \<not> clashing (touches (the (groups_at cf i))) (touches (the (groups_at cf k)))"
    and "(\<Sum>i \<in> dom (groups_at cf). mset (group_orders (groups_at cf) i)) = mset ods"
    and "dom (groups_at cf) \<union> superseded (groups_at cf) = {..<group_counter cf}"
    and "dom (groups_at cf) \<inter> superseded (groups_at cf) = {}"
    and "i \<in> dom (groups_at cf) \<Longrightarrow> group_orders (groups_at cf) i \<noteq> []"
  using assms unfolding partitioned_def Let_def by blast+

lemma combined_component:
  assumes p: "placement cf ods od t ids j comb cf'"
  shows "touches comb = (\<Union>od \<in> set (gd_orders comb). order_touches od)" and "connected (set (gd_orders comb))"
    and "gd_orders comb \<noteq> []"
proof -
  have part: "partitioned cf ods" and t: "order_touches od = touched t"
    using p by (simp_all add: placement_def order_touches_def)
  note ids = subsetD [OF placementD(4) [OF p]]
  show "touches comb = (\<Union>od \<in> set (gd_orders comb). order_touches od)"
    unfolding placementD(2) [OF p] set_orders_after [OF p] using partitionedD(2) [OF part ids] t by simp
  have "\<exists>a \<in> set (group_orders (groups_at cf) i). orders_conflict od a" if i: "i \<in> set ids" for i
  proof -
    have "clashing (touched t) (touches (the (groups_at cf i)))" using i p by (auto simp: placement_def)
    then show ?thesis
      unfolding partitionedD(2) [OF part ids [OF i]] clashing_Union by (simp add: orders_conflict_def t)
  qed
  then show "connected (set (gd_orders comb))"
    unfolding set_orders_after [OF p] by (intro connected_star) (use partitionedD(3) [OF part ids] in auto)
  show "gd_orders comb \<noteq> []" using set_orders_after [OF p] by auto
qed

lemma separate_after:
  assumes p: "placement cf ods od t ids j comb cf'" and i: "i \<in> dom (groups_at cf) - set ids"
  shows "\<not> clashing (touches comb) (touches (the (groups_at cf i)))"
proof -
  have "\<not> clashing (touched t) (touches (the (groups_at cf i)))" using i p by (auto simp: placement_def)
  moreover have "\<not> clashing (touches (the (groups_at cf k))) (touches (the (groups_at cf i)))" if "k \<in> set ids" for k
    using partitionedD(4) [of cf ods k i] that i p placementD(4) [OF p] by (auto simp: placement_def)
  ultimately show ?thesis unfolding placementD(2) [OF p] by (auto simp: clashing_def)
qed

lemma superseded_after:
  assumes p: "placement cf ods od t ids j comb cf'"
  shows "superseded (groups_at cf') = superseded (groups_at cf) \<union> (if length ids = 1 then {} else set ids)"
proof -
  have "superseded (groups_at cf') = set (gd_conflicting_group_ids comb) \<union>
      (\<Union>i \<in> dom (groups_at cf) - set ids. set (gd_conflicting_group_ids (the (groups_at cf i))))"
    unfolding superseded_def dom_after [OF p] by (simp add: group_after(1) [OF p]) (use group_after(2) [OF p] in force)
  also have "set (gd_conflicting_group_ids comb) =
      (\<Union>i \<in> set ids. set (gd_conflicting_group_ids (the (groups_at cf i)))) \<union> (if length ids = 1 then {} else set ids)"
    using p by (simp add: placement_def placed_as_def)
  finally show ?thesis
    unfolding superseded_def using Un_Diff_cancel [of "set ids" "dom (groups_at cf)"] placementD(4) [OF p]
    by (simp add: Un_absorb1 Un_ac flip: UN_Un)
qed

lemma next_id:
  fixes D S I :: "nat set"
  assumes "D \<union> S = {..<c}" and "D \<inter> S = {}" and "I \<subseteq> D"
  shows "insert c (D - I) \<union> (S \<union> I) = {..<Suc c} \<and> insert c (D - I) \<inter> (S \<union> I) = {}"
proof -
  have "c \<notin> D \<and> c \<notin> S" using assms(1) by blast
  then show ?thesis using assms unfolding lessThan_Suc assms(1) [symmetric] by blast
qed

lemma ids_after:
  assumes p: "placement cf ods od t ids j comb cf'"
  shows "dom (groups_at cf') \<union> superseded (groups_at cf') = {..<group_counter cf'} \<and>
    dom (groups_at cf') \<inter> superseded (groups_at cf') = {}"
proof -
  have part: "partitioned cf ods" and placed: "placed_as (new_order_group od t) ids cf j comb cf'"
    using p by (simp_all add: placement_def)
  note all = partitionedD(6,7) [OF part] and sub = placementD(4) [OF p]
  show ?thesis
  proof (cases "length ids = 1")
    case True
    then have "ids = [j]" "group_counter cf' = group_counter cf" using placed by (auto simp: placed_as_def length_Suc_conv)
    then show ?thesis
      using all sub unfolding dom_after [OF p] superseded_after [OF p] by (simp add: insert_absorb)
  next
    case False
    then have "j = group_counter cf" "group_counter cf' = Suc (group_counter cf)" using placed by (simp_all add: placed_as_def)
    then show ?thesis
      using next_id [OF all sub] False unfolding dom_after [OF p] superseded_after [OF p] by simp
  qed
qed

lemma partitioned_after:
  assumes p: "placement cf ods od t ids j comb cf'"
  shows "partitioned cf' (od # ods)"
proof -
  let ?G = "groups_at cf'"
  have part: "partitioned cf ods" using p by (simp add: placement_def)
  note at = group_after [OF p]
  have "touches (the (?G i)) = (\<Union>od \<in> set (group_orders ?G i). order_touches od) \<and> connected (set (group_orders ?G i)) \<and>
      group_orders ?G i \<noteq> []" if i: "i \<in> dom ?G" for i
  proof (cases "i = j")
    case True
    then show ?thesis using combined_component [OF p] at(1) by (simp add: group_orders_def)
  next
    case False
    then have "i \<in> dom (groups_at cf) - set ids" using i dom_after [OF p] by auto
    then show ?thesis using at(2) [of i] partitionedD(2,3,8) [OF part, of i] by (simp add: group_orders_def)
  qed
  moreover have "\<not> clashing (touches (the (?G i))) (touches (the (?G k)))" if ik: "i \<in> dom ?G" "k \<in> dom ?G" "i \<noteq> k" for i k
  proof (cases "i = j \<or> k = j")
    case True
    have "\<not> clashing (touches (the (?G j))) (touches (the (?G l)))" if "l \<in> dom ?G" "l \<noteq> j" for l
    proof -
      have "l \<in> dom (groups_at cf) - set ids" using that dom_after [OF p] by blast
      then show ?thesis using separate_after [OF p, of l] at(1) at(2) [of l] by simp
    qed
    then show ?thesis using True ik clashing_sym by metis
  next
    case False
    then have "i \<in> dom (groups_at cf) - set ids" "k \<in> dom (groups_at cf) - set ids" using ik dom_after [OF p] by auto
    then show ?thesis using at(2) partitionedD(4) [OF part, of i k] ik(3) by simp
  qed
  moreover have "finder_inv cf'" using p by (simp add: placement_def placed_as_def)
  ultimately show ?thesis
    unfolding partitioned_def Let_def using total_after [OF p] ids_after [OF p] by blast
qed

text \<open>A group that keeps its id keeps its orders or has more of them.\<close>

definition grown :: "ConflictFinder \<Rightarrow> ConflictFinder \<Rightarrow> bool" where
  "grown cf cf' \<longleftrightarrow> group_counter cf \<le> group_counter cf' \<and>
     (\<forall>i \<in> dom (groups_at cf'). i < group_counter cf \<longrightarrow> i \<in> dom (groups_at cf) \<and>
        (group_orders (groups_at cf') i = group_orders (groups_at cf) i \<or>
         length (group_orders (groups_at cf) i) < length (group_orders (groups_at cf') i)))"

lemma grown_refl: "finder_inv cf \<Longrightarrow> groups_at cf' = groups_at cf \<Longrightarrow> group_counter cf' = group_counter cf \<Longrightarrow> grown cf cf'"
  by (simp add: grown_def)

lemma grown_trans:
  assumes ab: "grown a b" and bc: "grown b c"
  shows "grown a c"
proof -
  have "i \<in> dom (groups_at a) \<and> (group_orders (groups_at c) i = group_orders (groups_at a) i \<or>
      length (group_orders (groups_at a) i) < length (group_orders (groups_at c) i))"
    if i: "i \<in> dom (groups_at c)" "i < group_counter a" for i
  proof -
    have "i < group_counter b" using ab i(2) by (simp add: grown_def)
    then have b: "i \<in> dom (groups_at b)" "group_orders (groups_at c) i = group_orders (groups_at b) i \<or>
        length (group_orders (groups_at b) i) < length (group_orders (groups_at c) i)"
      using bc i(1) by (simp_all add: grown_def)
    then show ?thesis using ab i(2) by (auto simp: grown_def)
  qed
  then show ?thesis using ab bc by (simp add: grown_def)
qed

lemma placement_grown:
  assumes p: "placement cf ods od t ids j comb cf'"
  shows "grown cf cf'"
proof -
  have placed: "placed_as (new_order_group od t) ids cf j comb cf'" using p by (simp add: placement_def)
  have "i \<in> dom (groups_at cf) \<and> (group_orders (groups_at cf') i = group_orders (groups_at cf) i \<or>
      length (group_orders (groups_at cf) i) < length (group_orders (groups_at cf') i))"
    if i: "i \<in> dom (groups_at cf')" "i < group_counter cf" for i
  proof (cases "i = j")
    case True
    then have ids: "ids = [j]" using i(2) placed by (auto simp: placed_as_def length_Suc_conv split: if_splits)
    then have "mset (gd_orders comb) = add_mset od (mset (group_orders (groups_at cf) j))" using placementD(3) [OF p] by simp
    then have "length (gd_orders comb) = Suc (length (group_orders (groups_at cf) j))" by (metis size_add_mset size_mset)
    then show ?thesis using True ids placementD(4) [OF p] group_after(1) [OF p] by (auto simp: group_orders_def)
  next
    case False
    then have "i \<in> dom (groups_at cf) - set ids" using i(1) dom_after [OF p] by auto
    then show ?thesis using group_after(2) [OF p, of i] by (simp add: group_orders_def)
  qed
  moreover have "group_counter cf \<le> group_counter cf'" using placed by (auto simp: placed_as_def split: if_splits)
  ultimately show ?thesis by (auto simp: grown_def)
qed

lemma partitioned_orders [simp]: "partitioned (cf\<lparr>cf_orders := os\<rparr>) ods = partitioned cf ods"
  by (simp add: partitioned_def finder_inv_def)

lemma group_wf_new: "wf_trace t \<Longrightarrow> group_wf (new_order_group od t)"
  by (simp add: group_wf_def new_order_group_def wf_trace_def distinct_sort_dedup)

definition traces_wf :: "SimulatedOrder list \<Rightarrow> bool" where
  "traces_wf ods \<longleftrightarrow> list_all (\<lambda>od. case so_used_state_trace od of None \<Rightarrow> True | Some t \<Rightarrow> wf_trace t) ods"

text \<open>The orders the finder keeps: the first of each id, when it has a trace.\<close>

fun tracked_orders :: "OrderId set \<Rightarrow> SimulatedOrder list \<Rightarrow> SimulatedOrder list" where
  "tracked_orders seen [] = []"
| "tracked_orders seen (od # ods) =
     (if so_id od \<in> seen then tracked_orders seen ods
      else (if so_used_state_trace od = None then [] else [od]) @ tracked_orders (insert (so_id od) seen) ods)"

lemma add_order_spec:
  assumes part: "partitioned cf ods" and wf: "traces_wf [od]"
  shows "\<exists>cf'. add_order od cf = Some cf' \<and> cf_orders cf' = insert (so_id od) (cf_orders cf) \<and>
    partitioned cf' (rev (tracked_orders (cf_orders cf) [od]) @ ods) \<and> grown cf cf'"
proof (cases "so_id od \<in> cf_orders cf \<or> so_used_state_trace od = None")
  case True
  then show ?thesis
    using part grown_refl [OF partitionedD(1) [OF part]] by (auto simp: add_order_def insert_absorb)
next
  case False
  then obtain t where t: "so_used_state_trace od = Some t" by auto
  let ?cf = "cf\<lparr>cf_orders := insert (so_id od) (cf_orders cf)\<rparr>" and ?g = "new_order_group od t"
  let ?ids = "all_groups_in_conflict t ?cf"
  have part': "partitioned ?cf ods" using part by simp
  have ids: "set ?ids = {i. \<exists>g. groups_at ?cf i = Some g \<and> clashing (touched t) (touches g)}" "distinct ?ids"
    using conflicting_groups [OF partitionedD(1) [OF part']] by (simp_all add: all_groups_in_conflict_def distinct_sort_dedup)
  have "group_wf ?g" using wf t by (simp add: traces_wf_def group_wf_new)
  moreover have "\<forall>i \<in> set ?ids. groups_at ?cf i \<noteq> None" using ids(1) by auto
  ultimately obtain cf' j comb where p: "place_group ?g ?ids ?cf = Some cf'" "placed_as ?g ?ids ?cf j comb cf'"
    using place_group_spec [OF partitionedD(1) [OF part'] _ ids(2)] by blast
  then have pl: "placement ?cf ods od t ?ids j comb cf'" using part' t ids by (simp add: placement_def)
  then show ?thesis
    using partitioned_after [OF pl] placement_grown [OF pl] False t p by (simp add: add_order_def placed_as_def grown_def)
qed

lemma add_orders_spec:
  assumes "partitioned cf placed" and "traces_wf ods"
  shows "\<exists>cf'. add_orders ods cf = Some cf' \<and> partitioned cf' (rev (tracked_orders (cf_orders cf) ods) @ placed) \<and> grown cf cf'"
  using assms
proof (induction ods arbitrary: cf placed)
  case (Cons od ods)
  have "traces_wf [od]" "traces_wf ods" using Cons.prems(2) by (simp_all add: traces_wf_def)
  then obtain cf1 where 1: "add_order od cf = Some cf1" "cf_orders cf1 = insert (so_id od) (cf_orders cf)"
    "partitioned cf1 (rev (tracked_orders (cf_orders cf) [od]) @ placed)" "grown cf cf1"
    using add_order_spec [OF Cons.prems(1)] by blast
  from Cons.IH [OF 1(3) \<open>traces_wf ods\<close>] show ?case
    using 1(1,2) grown_trans [OF 1(4)] by (auto simp: insert_absorb)
next
  case Nil
  then show ?case using grown_refl partitionedD(1) by auto
qed

text \<open>Two orders of a partition are in one group iff a chain of conflicts leads from one to the other.\<close>

lemma partition_set:
  assumes "partitioned cf ods"
  shows "set ods = (\<Union>i \<in> dom (groups_at cf). set (group_orders (groups_at cf) i))"
proof -
  have "set_mset (mset ods) = (\<Union>i \<in> dom (groups_at cf). set (group_orders (groups_at cf) i))"
    unfolding partitionedD(5) [OF assms, symmetric] by (simp add: set_mset_sum)
  then show ?thesis by simp
qed

lemma partition_components:
  assumes part: "partitioned cf ods" and i: "i \<in> dom (groups_at cf)" and a: "a \<in> set (group_orders (groups_at cf) i)"
  shows "b \<in> set (group_orders (groups_at cf) i) \<longleftrightarrow> (a, b) \<in> (linked (set ods))\<^sup>*" (is "b \<in> ?A \<longleftrightarrow> _")
proof
  assume "b \<in> ?A"
  then have "(a, b) \<in> (linked ?A)\<^sup>*" using partitionedD(3) [OF part i] a by (simp add: connected_def)
  then show "(a, b) \<in> (linked (set ods))\<^sup>*"
    using linked_mono [of ?A "set ods"] i unfolding partition_set [OF part] by blast
next
  assume "(a, b) \<in> (linked (set ods))\<^sup>*"
  then show "b \<in> ?A"
  proof (induction rule: rtrancl_induct)
    case base
    show ?case by (rule a)
  next
    case (step b c)
    then have c: "c \<in> set ods" "orders_conflict b c" by (simp_all add: linked_def)
    then obtain k where k: "k \<in> dom (groups_at cf)" "c \<in> set (group_orders (groups_at cf) k)"
      unfolding partition_set [OF part] by blast
    have "clashing (touches (the (groups_at cf i))) (touches (the (groups_at cf k)))"
      unfolding partitionedD(2) [OF part i] partitionedD(2) [OF part k(1)]
      using c(2) step.IH k(2) by (auto simp: orders_conflict_def clashing_def)
    then show ?case using partitionedD(4) [OF part i k(1)] k(2) by blast
  qed
qed

text \<open>The groups handed out are those of the table, in the order of their ids.\<close>

lemma get_order_groups_table:
  assumes "finder_inv cf"
  shows "sorted_wrt (<) (map cg_id (get_order_groups cf))"
    and "set (map cg_id (get_order_groups cf)) = dom (groups_at cf)"
    and "(\<Union>g \<in> set (get_order_groups cf). set (conflicting_group_ids g)) = superseded (groups_at cf)"
    and "g \<in> set (get_order_groups cf) \<Longrightarrow> cg_id g \<in> dom (groups_at cf) \<and> cg_orders g = group_orders (groups_at cf) (cg_id g)"
proof -
  have d: "distinct (map fst (cf_groups cf))" using assms by (simp add: finder_inv_def)
  have ids: "map cg_id (get_order_groups cf) = map fst (sort_key fst (cf_groups cf))"
    by (auto simp: get_order_groups_def comp_def case_prod_beta)
  have "distinct (map fst (sort_key fst (cf_groups cf)))" "sorted (map fst (sort_key fst (cf_groups cf)))"
    using d by (simp_all add: distinct_map)
  then show "sorted_wrt (<) (map cg_id (get_order_groups cf))" unfolding ids strict_sorted_iff by simp
  show "set (map cg_id (get_order_groups cf)) = dom (groups_at cf)" unfolding ids by (simp add: groups_at_def dom_map_of_conv_image_fst)
  show "(\<Union>g \<in> set (get_order_groups cf). set (conflicting_group_ids g)) = superseded (groups_at cf)"
    using d by (force simp: get_order_groups_def superseded_def groups_at_def dom_map_of_conv_image_fst)
  show "g \<in> set (get_order_groups cf) \<Longrightarrow> cg_id g \<in> dom (groups_at cf) \<and> cg_orders g = group_orders (groups_at cf) (cg_id g)"
    using d by (force simp: get_order_groups_def group_orders_def groups_at_def dom_map_of_conv_image_fst)
qed

lemma sum_table:
  "distinct (map fst xs) \<Longrightarrow> (\<Sum>i \<in> dom (map_of xs). mset (f (the (map_of xs i)))) = mset (concat (map (f \<circ> snd) xs))"
proof (induction xs)
  case (Cons x xs)
  have "fst x \<notin> dom (map_of xs)" using Cons.prems by (simp add: dom_map_of_conv_image_fst)
  moreover from this have "(\<Sum>i \<in> dom (map_of xs). mset (f (the (map_of (x # xs) i)))) = (\<Sum>i \<in> dom (map_of xs). mset (f (the (map_of xs i))))"
    by (intro sum.cong) auto
  ultimately show ?case using Cons by (cases x) (simp add: finite_dom_map_of del: fun_upd_apply, simp)
qed simp

lemma get_order_groups_orders:
  assumes "partitioned cf ods"
  shows "mset (concat (map cg_orders (get_order_groups cf))) = mset ods"
proof -
  have d: "distinct (map fst (cf_groups cf))" using partitionedD(1) [OF assms] by (simp add: finder_inv_def)
  have "mset (concat (map cg_orders (get_order_groups cf))) = mset (concat (map (gd_orders \<circ> snd) (sort_key fst (cf_groups cf))))"
    by (simp add: get_order_groups_def comp_def case_prod_beta)
  also have "\<dots> = mset (concat (map (gd_orders \<circ> snd) (cf_groups cf)))" by (simp add: mset_concat flip: sum_mset_sum_list)
  finally show ?thesis
    using sum_table [OF d, of gd_orders] partitionedD(5) [OF assms] by (simp add: group_orders_def groups_at_def)
qed

text \<open>C9: Whatever orders arrive, in whatever order, adding them never meets a missing group, and the
  groups handed to the resolvers hold each order once (the first with its id, when it has a trace).
  Two orders share a group exactly when a chain of conflicts leads from one to the other, so that groups
  can be resolved apart. The ids of the groups, with the ids of the groups they replaced, are all the
  ids given out, none in both roles.\<close>

theorem conflict_groups_are_components:
  assumes "traces_wf ods"
  shows "\<exists>cf. add_orders ods ConflictFinder_new = Some cf \<and>
    (let gs = get_order_groups cf; tracked = tracked_orders {} ods; replaced = (\<Union>g \<in> set gs. set (conflicting_group_ids g)) in
     sorted_wrt (<) (map cg_id gs) \<and> mset (concat (map cg_orders gs)) = mset tracked \<and>
     (\<forall>g \<in> set gs. \<forall>a \<in> set (cg_orders g). \<forall>b. b \<in> set (cg_orders g) \<longleftrightarrow> (a, b) \<in> (linked (set tracked))\<^sup>*) \<and>
     cg_id ` set gs \<union> replaced = {..<group_counter cf} \<and> cg_id ` set gs \<inter> replaced = {})"
proof -
  obtain cf where cf: "add_orders ods ConflictFinder_new = Some cf" "partitioned cf (rev (tracked_orders {} ods))"
    using add_orders_spec [OF partitioned_new assms] by (auto simp: ConflictFinder_new_def)
  note inv = partitionedD(1) [OF cf(2)]
  have "b \<in> set (cg_orders g) \<longleftrightarrow> (a, b) \<in> (linked (set (tracked_orders {} ods)))\<^sup>*"
    if "g \<in> set (get_order_groups cf)" "a \<in> set (cg_orders g)" for g a b
    using partition_components [OF cf(2), of "cg_id g" a b] get_order_groups_table(4) [OF inv that(1)] that(2) by simp
  moreover have "cg_id ` set (get_order_groups cf) = dom (groups_at cf)" using get_order_groups_table(2) [OF inv] by simp
  ultimately show ?thesis
    using cf get_order_groups_table(1,3) [OF inv] get_order_groups_orders [OF cf(2)] partitionedD(6,7) [OF cf(2)]
    by (simp add: Let_def)
qed

definition slot_order :: "B256 \<Rightarrow> B256 list \<Rightarrow> B256 list \<Rightarrow> SimulatedOrder" where
  "slot_order h reads writes = \<lparr>so_order = Order_Tx (MempoolTx (sample_tx h 7 5)),
     so_sim_value = SimValue_new 0 0 (BlockSpace_new 21000 0 0) [],
     so_used_state_trace = Some (empty_trace\<lparr>read_slot_values := map (\<lambda>k. (\<lparr>sk_address = 1, sk_key = k\<rparr>, 0)) reads,
       written_slot_values := map (\<lambda>k. (\<lparr>sk_address = 1, sk_key = k\<rparr>, 0)) writes\<rparr>)\<rparr>"

theorem conflict_groups_are_components_witness:
  "\<exists>cf. add_orders [slot_order 1 [] [1], slot_order 2 [] [2], slot_order 3 [3] [], slot_order 4 [1, 2] []] ConflictFinder_new = Some cf \<and>
     map (\<lambda>g. (cg_id g, map so_id (cg_orders g), conflicting_group_ids g)) (get_order_groups cf) =
       [(2, [OrderId_Tx 3], []), (3, [OrderId_Tx 1, OrderId_Tx 2, OrderId_Tx 4], [0, 1])] \<and>
     cg_id ` set (get_order_groups cf) \<inter> (\<Union>g \<in> set (get_order_groups cf). set (conflicting_group_ids g)) = {}"
proof -
  let ?ods = "[slot_order 1 [] [1], slot_order 2 [] [2], slot_order 3 [3] [], slot_order 4 [1, 2] []]"
  have "traces_wf ?ods \<and>
    map_option (\<lambda>cf. map (\<lambda>g. (cg_id g, map so_id (cg_orders g), conflicting_group_ids g)) (get_order_groups cf))
      (add_orders ?ods ConflictFinder_new) = Some [(2, [OrderId_Tx 3], []), (3, [OrderId_Tx 1, OrderId_Tx 2, OrderId_Tx 4], [0, 1])]"
    by code_simp
  with conflict_groups_are_components [of ?ods] show ?thesis by (auto simp: Let_def)
qed

end
