(* ===== verification/Conflict_Tasks.thy ===== *)
theory Conflict_Tasks
  imports Conflict_Groups Interfaces
begin

text \<open>
  The tasks by which the parallel builder resolves conflict groups and the best results it keeps
  (\<^verbatim>\<open>task.rs\<close>, \<^verbatim>\<open>conflict_task_generator.rs\<close>, \<^verbatim>\<open>results_aggregator.rs\<close> and the intake of orders in \<^verbatim>\<open>mod.rs\<close> of
  \<^verbatim>\<open>rbuilder/src/building/builders/parallel_builder\<close>).  The task queue comes from the crate \<^verbatim>\<open>crossbeam\<close> and is
  an argument; a queue that never runs empty makes a loop over it not return, which is \<open>None\<close>.  The channel of
  results is the list of what was sent.  Log messages are left out.
\<close>

section \<open>Tasks\<close>

record ResolutionResult =
  total_profit :: U256
  sequence_of_orders :: "(nat \<times> U256) list"

datatype TaskPriority = Low | Medium | High

fun task_priority_value :: "TaskPriority \<Rightarrow> nat" where
  "task_priority_value Low = 0"
| "task_priority_value Medium = 1"
| "task_priority_value High = 2"

datatype Algorithm =
    Greedy
  | ReverseGreedy
  | Length
  | AllPermutations
  | Random u64 nat

record ConflictTask =
  group_idx :: nat
  algorithm :: Algorithm
  ct_priority :: TaskPriority
  ct_group :: ConflictGroup
  created_at :: nat

definition ConflictTask_eq :: "ConflictTask \<Rightarrow> ConflictTask \<Rightarrow> bool" where
  "ConflictTask_eq a b \<longleftrightarrow> ct_priority a = ct_priority b"

definition ConflictTask_cmp :: "ConflictTask \<Rightarrow> ConflictTask \<Rightarrow> ordering" where
  "ConflictTask_cmp a b =
     then_with (cmp (task_priority_value (ct_priority b)) (task_priority_value (ct_priority a))) (cmp (created_at a) (created_at b))"

section \<open>The queue\<close>

record 'q queue_ops =
  q_new :: 'q
  q_push :: "'q \<Rightarrow> ConflictTask \<Rightarrow> 'q"
  q_pop :: "'q \<Rightarrow> (ConflictTask \<times> 'q) option"

text \<open>First in, first out; \<open>items\<close> gives the tasks in a queue, the first one to leave first.\<close>

definition queue_law :: "'q queue_ops \<Rightarrow> ('q \<Rightarrow> ConflictTask list) \<Rightarrow> bool" where
  "queue_law ops items \<longleftrightarrow>
     items (q_new ops) = [] \<and> (\<forall>q t. items (q_push ops q t) = items q @ [t]) \<and>
     (\<forall>q. case q_pop ops q of None \<Rightarrow> items q = [] | Some (t, q') \<Rightarrow> items q = t # items q')"

definition list_queue :: "ConflictTask list queue_ops" where
  "list_queue = \<lparr>q_new = [], q_push = (\<lambda>q t. q @ [t]), q_pop = (\<lambda>q. case q of [] \<Rightarrow> None | t # ts \<Rightarrow> Some (t, ts))\<rparr>"

lemma list_queue_law: "queue_law list_queue id"
  by (simp add: queue_law_def list_queue_def split: list.split)

section \<open>The generator\<close>

definition THRESHOLD_FOR_SIGNIFICANT_CHANGE :: u64 where
  "THRESHOLD_FOR_SIGNIFICANT_CHANGE = 20"

definition NUMBER_OF_TOP_ORDERS_TO_CONSIDER_FOR_SIGNIFICANT_CHANGE :: nat where
  "NUMBER_OF_TOP_ORDERS_TO_CONSIDER_FOR_SIGNIFICANT_CHANGE = 10"

definition MAX_LENGTH_FOR_ALL_PERMUTATIONS :: nat where
  "MAX_LENGTH_FOR_ALL_PERMUTATIONS = 3"

definition NUMBER_OF_RANDOM_TASKS :: nat where
  "NUMBER_OF_RANDOM_TASKS = 50"

type_synonym group_result = "nat \<times> ResolutionResult \<times> ConflictGroup"

record 'q ConflictTaskGenerator =
  existing_groups :: "(nat \<times> ConflictGroup) list"
  task_queue :: 'q
  results_sent :: "group_result list"
  safe_sorting_only :: bool

definition ConflictTaskGenerator_new :: "bool \<Rightarrow> 'q \<Rightarrow> 'q ConflictTaskGenerator" where
  "ConflictTaskGenerator_new safe q = \<lparr>existing_groups = [], task_queue = q, results_sent = [], safe_sorting_only = safe\<rparr>"

text \<open>\<open>now\<close> is the clock.\<close>

definition get_tasks_for_group :: "nat \<Rightarrow> ConflictGroup \<Rightarrow> TaskPriority \<Rightarrow> bool \<Rightarrow> ConflictTask list" where
  "get_tasks_for_group now grp priority safe =
     (let task = (\<lambda>a p. \<lparr>group_idx = cg_id grp, algorithm = a, ct_priority = p, ct_group = grp, created_at = now\<rparr>)
      in [task Greedy priority] @
         (if length (cg_orders grp) \<le> MAX_LENGTH_FOR_ALL_PERMUTATIONS \<and> \<not> safe
          then [task AllPermutations priority]
          else (if \<not> safe then [task (Random (of_nat (cg_id grp)) NUMBER_OF_RANDOM_TASKS) Low] else []) @
               [task Length Low] @
               (if \<not> safe then [task ReverseGreedy Low] else [])))"

definition create_new_tasks :: "'q queue_ops \<Rightarrow> nat \<Rightarrow> ConflictGroup \<Rightarrow> TaskPriority \<Rightarrow> 'q ConflictTaskGenerator \<Rightarrow> 'q ConflictTaskGenerator" where
  "create_new_tasks ops now new_group priority gen =
     gen\<lparr>task_queue := foldl (q_push ops) (task_queue gen) (get_tasks_for_group now new_group priority (safe_sorting_only gen))\<rparr>"

text \<open>The two loops of \<^verbatim>\<open>cancel_tasks_for_group\<close>.\<close>

partial_function (option) keep_other_tasks :: "'q queue_ops \<Rightarrow> nat \<Rightarrow> 'q \<Rightarrow> 'q \<Rightarrow> ('q \<times> 'q) option" where
  "keep_other_tasks ops group_id q temp_queue =
     (case q_pop ops q of
        None \<Rightarrow> Some (q, temp_queue)
      | Some (task, q) \<Rightarrow>
          keep_other_tasks ops group_id q (if group_idx task \<noteq> group_id then q_push ops temp_queue task else temp_queue))"

partial_function (option) move_tasks :: "'q queue_ops \<Rightarrow> 'q \<Rightarrow> 'q \<Rightarrow> 'q option" where
  "move_tasks ops temp_queue q =
     (case q_pop ops temp_queue of
        None \<Rightarrow> Some q
      | Some (task, temp_queue) \<Rightarrow> move_tasks ops temp_queue (q_push ops q task))"

declare keep_other_tasks.simps [code] move_tasks.simps [code]

definition cancel_tasks_for_group :: "'q queue_ops \<Rightarrow> nat \<Rightarrow> 'q ConflictTaskGenerator \<Rightarrow> 'q ConflictTaskGenerator option" where
  "cancel_tasks_for_group ops group_id gen =
     Option.bind (keep_other_tasks ops group_id (task_queue gen) (q_new ops)) (\<lambda>(q, temp_queue).
       map_option (\<lambda>q. gen\<lparr>task_queue := q\<rparr>) (move_tasks ops temp_queue q))"

definition update_tasks ::
  "'q queue_ops \<Rightarrow> nat \<Rightarrow> nat \<Rightarrow> ConflictGroup \<Rightarrow> TaskPriority \<Rightarrow> 'q ConflictTaskGenerator \<Rightarrow> 'q ConflictTaskGenerator option" where
  "update_tasks ops now group_id new_group priority gen =
     map_option (create_new_tasks ops now new_group priority) (cancel_tasks_for_group ops group_id gen)"

definition order_profit :: "SimulatedOrder \<Rightarrow> U256" where
  "order_profit od = pi_coinbase_profit (full_profit_info (so_sim_value od))"

definition sum_top_n_profits :: "SimulatedOrder list \<Rightarrow> nat \<Rightarrow> U256" where
  "sum_top_n_profits ods n = sum_list (take n (rev (sort (map order_profit ods))))"

definition has_significant_changes :: "ConflictGroup \<Rightarrow> ConflictGroup \<Rightarrow> bool" where
  "has_significant_changes new_group existing_group =
     (let n = NUMBER_OF_TOP_ORDERS_TO_CONSIDER_FOR_SIGNIFICANT_CHANGE;
          new_top_profit = sum_top_n_profits (cg_orders new_group) n;
          existing_top_profit = sum_top_n_profits (cg_orders existing_group) n
      in new_top_profit \<noteq> existing_top_profit \<and> new_top_profit > existing_top_profit \<and>
         new_top_profit - existing_top_profit > existing_top_profit * ucast THRESHOLD_FOR_SIGNIFICANT_CHANGE div 100)"

text \<open>The finder hands out the same order objects again, so that equal orders are equal also in the order of their traces.\<close>

definition group_has_changed :: "ConflictGroup \<Rightarrow> ConflictGroup \<Rightarrow> bool" where
  "group_has_changed new_group existing_group \<longleftrightarrow>
     length (cg_orders new_group) \<noteq> length (cg_orders existing_group) \<or>
     list_ex (\<lambda>(new_order, existing_order). new_order \<noteq> existing_order) (zip (cg_orders new_group) (cg_orders existing_group))"

text \<open>A group with one order needs no resolver: its result is sent at once.\<close>

definition process_single_order_group :: "nat \<Rightarrow> ConflictGroup \<Rightarrow> 'q ConflictTaskGenerator \<Rightarrow> 'q ConflictTaskGenerator" where
  "process_single_order_group group_id grp gen =
     (let profit = order_profit (hd (cg_orders grp));
          r = \<lparr>total_profit = profit, sequence_of_orders = [(0, profit)]\<rparr>
      in gen\<lparr>results_sent := results_sent gen @ [(group_id, r, grp)]\<rparr>)"

definition process_multi_order_group ::
  "'q queue_ops \<Rightarrow> nat \<Rightarrow> nat \<Rightarrow> ConflictGroup \<Rightarrow> 'q ConflictTaskGenerator \<Rightarrow> 'q ConflictTaskGenerator option" where
  "process_multi_order_group ops now group_id new_group gen =
     (let priority = (case map_of (existing_groups gen) group_id of
            Some existing_group \<Rightarrow> (if has_significant_changes new_group existing_group then High else Medium)
          | None \<Rightarrow> High)
      in if map_of (existing_groups gen) group_id \<noteq> None
         then update_tasks ops now group_id new_group priority gen
         else Some (create_new_tasks ops now new_group priority gen))"

definition process_single_group ::
  "'q queue_ops \<Rightarrow> nat \<Rightarrow> ConflictGroup \<Rightarrow> 'q ConflictTaskGenerator \<Rightarrow> 'q ConflictTaskGenerator option" where
  "process_single_group ops now new_group gen =
     (let group_id = cg_id new_group;
          should_process = (case map_of (existing_groups gen) group_id of
            Some existing_group \<Rightarrow> group_has_changed new_group existing_group
          | None \<Rightarrow> True)
      in if should_process
         then map_option (\<lambda>gen. gen\<lparr>existing_groups := alist_update group_id new_group (existing_groups gen)\<rparr>)
                (if length (cg_orders new_group) = 1
                 then Some (process_single_order_group group_id new_group gen)
                 else process_multi_order_group ops now group_id new_group gen)
         else Some gen)"

definition subset_ids :: "ConflictGroup \<Rightarrow> 'q ConflictTaskGenerator \<Rightarrow> nat list" where
  "subset_ids grp gen = filter (\<lambda>i. i \<in> set (conflicting_group_ids grp)) (map fst (existing_groups gen))"

fun remove_groups :: "'q queue_ops \<Rightarrow> nat list \<Rightarrow> 'q ConflictTaskGenerator \<Rightarrow> 'q ConflictTaskGenerator option" where
  "remove_groups ops [] gen = Some gen"
| "remove_groups ops (i # is) gen =
     Option.bind (cancel_tasks_for_group ops i (gen\<lparr>existing_groups := filter (\<lambda>kv. fst kv \<noteq> i) (existing_groups gen)\<rparr>))
       (remove_groups ops is)"

definition remove_conflicting_subset_groups ::
  "'q queue_ops \<Rightarrow> ConflictGroup \<Rightarrow> 'q ConflictTaskGenerator \<Rightarrow> 'q ConflictTaskGenerator option" where
  "remove_conflicting_subset_groups ops superset_group gen = remove_groups ops (subset_ids superset_group gen) gen"

definition add_processed_groups :: "ConflictGroup \<Rightarrow> 'q ConflictTaskGenerator \<Rightarrow> nat set \<Rightarrow> nat set" where
  "add_processed_groups new_group gen processed = insert (cg_id new_group) (set (subset_ids new_group gen) \<union> processed)"

fun process_sorted_groups ::
  "'q queue_ops \<Rightarrow> nat \<Rightarrow> nat set \<Rightarrow> ConflictGroup list \<Rightarrow> 'q ConflictTaskGenerator \<Rightarrow> 'q ConflictTaskGenerator option" where
  "process_sorted_groups ops now processed [] gen = Some gen"
| "process_sorted_groups ops now processed (new_group # gs) gen =
     (if cg_id new_group \<in> processed then process_sorted_groups ops now processed gs gen
      else Option.bind (process_single_group ops now new_group gen) (\<lambda>gen.
        let processed = add_processed_groups new_group gen processed
        in Option.bind (if conflicting_group_ids new_group \<noteq> [] then remove_conflicting_subset_groups ops new_group gen else Some gen)
             (process_sorted_groups ops now processed gs)))"

text \<open>The sort is stable: largest groups first, in the given order among those of one size.\<close>

definition process_groups ::
  "'q queue_ops \<Rightarrow> nat \<Rightarrow> ConflictGroup list \<Rightarrow> 'q ConflictTaskGenerator \<Rightarrow> 'q ConflictTaskGenerator option" where
  "process_groups ops now new_groups gen =
     process_sorted_groups ops now {} (rev (sort_key (\<lambda>g. length (cg_orders g)) (rev new_groups))) gen"

text \<open>The part of the loop of \<^verbatim>\<open>run_order_intake\<close> after the new orders were drained.\<close>

definition intake_new_orders ::
  "'q queue_ops \<Rightarrow> nat \<Rightarrow> SimulatedOrder list option \<Rightarrow> ConflictFinder \<times> 'q ConflictTaskGenerator
     \<Rightarrow> (ConflictFinder \<times> 'q ConflictTaskGenerator) option" where
  "intake_new_orders ops now drained st =
     (case drained of
        None \<Rightarrow> Some st
      | Some new_orders \<Rightarrow>
          if new_orders = [] then Some st
          else Option.bind (add_orders new_orders (fst st)) (\<lambda>finder.
            map_option (Pair finder) (process_groups ops now (get_order_groups finder) (snd st))))"

section \<open>The best results\<close>

record BestResults =
  br_data :: "(nat \<times> ResolutionResult \<times> ConflictGroup) list"
  br_version :: u64

definition BestResults_new :: BestResults where
  "BestResults_new = \<lparr>br_data = [], br_version = 0\<rparr>"

definition increment_version :: "BestResults \<Rightarrow> BestResults" where
  "increment_version b = b\<lparr>br_version := br_version b + 1\<rparr>"

definition get_results_and_version :: "BestResults \<Rightarrow> (ResolutionResult \<times> ConflictGroup) list \<times> u64" where
  "get_results_and_version b = (map snd (br_data b), br_version b)"

definition get_number_of_orders :: "BestResults \<Rightarrow> nat" where
  "get_number_of_orders b = sum_list (map (\<lambda>(_, _, g). length (cg_orders g)) (br_data b))"

text \<open>\<open>None\<close> when a conflicting group with a result is at least as profitable.\<close>

fun conflicting_groups_to_remove ::
  "(nat \<times> ResolutionResult \<times> ConflictGroup) list \<Rightarrow> U256 \<Rightarrow> nat list \<Rightarrow> nat list \<Rightarrow> nat list option" where
  "conflicting_groups_to_remove data profit [] acc = Some acc"
| "conflicting_groups_to_remove data profit (i # is) acc =
     (case map_of data i of
        None \<Rightarrow> conflicting_groups_to_remove data profit is acc
      | Some (r, _) \<Rightarrow>
          if profit > total_profit r then conflicting_groups_to_remove data profit is (acc @ [i]) else None)"

definition update_best_result ::
  "nat \<Rightarrow> ResolutionResult \<Rightarrow> ConflictGroup \<Rightarrow> BestResults \<Rightarrow> (bool \<times> U256) \<times> BestResults" where
  "update_best_result group_id r order_group b =
     (case conflicting_groups_to_remove (br_data b) (total_profit r) (conflicting_group_ids order_group) [] of
        None \<Rightarrow> ((False, 0), b)
      | Some to_remove \<Rightarrow>
          let (updated, old_profit, data) = (case map_of (br_data b) group_id of
                 None \<Rightarrow> (True, 0, alist_update group_id (r, order_group) (br_data b))
               | Some (old, _) \<Rightarrow>
                   if total_profit r > total_profit old
                   then (True, total_profit old, alist_update group_id (r, order_group) (br_data b))
                   else (False, 0, br_data b));
              b = b\<lparr>br_data := filter (\<lambda>kv. fst kv \<notin> set to_remove) data\<rparr>
          in ((updated, old_profit), if updated \<or> to_remove \<noteq> [] then increment_version b else b))"

definition process_update :: "group_result \<Rightarrow> BestResults \<Rightarrow> BestResults" where
  "process_update msg b = (case msg of (group_id, r, order_group) \<Rightarrow> snd (update_best_result group_id r order_group b))"

text \<open>The loop of \<^verbatim>\<open>ResultsAggregator::run\<close> over the results received until it is cancelled.\<close>

definition run_aggregator :: "group_result list \<Rightarrow> BestResults \<Rightarrow> BestResults" where
  "run_aggregator msgs b = foldl (\<lambda>b msg. process_update msg b) b msgs"

definition get_and_display_sum_of_best_results :: "BestResults \<Rightarrow> U256" where
  "get_and_display_sum_of_best_results b = sum_list (map (\<lambda>(_, r, _). total_profit r) (br_data b))"

section \<open>The queue after a cancellation\<close>

lemma queue_push: "queue_law ops items \<Longrightarrow> items (q_push ops q t) = items q @ [t]"
  by (simp add: queue_law_def)

lemma queue_push_all: "queue_law ops items \<Longrightarrow> items (foldl (q_push ops) q ts) = items q @ ts"
  by (induction ts arbitrary: q) (simp_all add: queue_push)

lemma queue_pop:
  assumes "queue_law ops items"
  shows "items q = [] \<Longrightarrow> q_pop ops q = None" and "items q = t # ts \<Longrightarrow> \<exists>q'. q_pop ops q = Some (t, q') \<and> items q' = ts"
proof -
  have "case q_pop ops q of None \<Rightarrow> items q = [] | Some (t, q') \<Rightarrow> items q = t # items q'"
    using assms by (simp add: queue_law_def)
  then show "items q = [] \<Longrightarrow> q_pop ops q = None" and "items q = t # ts \<Longrightarrow> \<exists>q'. q_pop ops q = Some (t, q') \<and> items q' = ts"
    by (auto split: option.splits)
qed

lemma keep_other_tasks_spec:
  assumes "queue_law ops items"
  shows "\<exists>q' temp'. keep_other_tasks ops i q temp = Some (q', temp') \<and> items q' = [] \<and>
    items temp' = items temp @ filter (\<lambda>t. group_idx t \<noteq> i) (items q)"
proof (induction "items q" arbitrary: q temp)
  case Nil
  then show ?case using queue_pop(1) [OF assms, of q] by (subst keep_other_tasks.simps) simp
next
  case (Cons t ts)
  obtain q' where q': "q_pop ops q = Some (t, q')" "items q' = ts" using queue_pop(2) [OF assms] Cons.hyps(2) by metis
  let ?temp = "if group_idx t \<noteq> i then q_push ops temp t else temp"
  have "items q = t # ts" using Cons.hyps(2) by simp
  then show ?case
    using Cons.hyps(1) [of q' ?temp] q' queue_push [OF assms, of temp t] by (subst keep_other_tasks.simps) auto
qed

lemma move_tasks_spec:
  assumes "queue_law ops items"
  shows "\<exists>q'. move_tasks ops temp q = Some q' \<and> items q' = items q @ items temp"
proof (induction "items temp" arbitrary: q temp)
  case Nil
  then show ?case using queue_pop(1) [OF assms, of temp] by (subst move_tasks.simps) simp
next
  case (Cons t ts)
  obtain temp' where t: "q_pop ops temp = Some (t, temp')" "items temp' = ts" using queue_pop(2) [OF assms] Cons.hyps(2) by metis
  have "items temp = t # ts" using Cons.hyps(2) by simp
  then show ?case
    using Cons.hyps(1) [of temp' "q_push ops q t"] t queue_push [OF assms, of q t] by (subst move_tasks.simps) auto
qed

lemma cancel_tasks_spec:
  assumes "queue_law ops items"
  shows "\<exists>q. cancel_tasks_for_group ops i gen = Some (gen\<lparr>task_queue := q\<rparr>) \<and>
    items q = filter (\<lambda>t. group_idx t \<noteq> i) (items (task_queue gen))"
proof -
  have "items (q_new ops) = []" using assms by (simp add: queue_law_def)
  then obtain q' temp where 1: "keep_other_tasks ops i (task_queue gen) (q_new ops) = Some (q', temp)" "items q' = []"
    "items temp = filter (\<lambda>t. group_idx t \<noteq> i) (items (task_queue gen))"
    using keep_other_tasks_spec [OF assms, of i "task_queue gen" "q_new ops"] by auto
  obtain q where "move_tasks ops temp q' = Some q" "items q = items q' @ items temp" using move_tasks_spec [OF assms] by blast
  then show ?thesis using 1 by (intro exI [of _ q]) (simp add: cancel_tasks_for_group_def)
qed

section \<open>Every group has its current tasks\<close>

text \<open>
  A group is covered when its result was sent, if it has one order, and otherwise when a task with the quick
  algorithm for exactly its orders is in the queue or was taken by a worker.
\<close>

definition covered :: "group_result list \<Rightarrow> ConflictTask set \<Rightarrow> ConflictGroup \<Rightarrow> bool" where
  "covered sent tasks g \<longleftrightarrow>
     (if length (cg_orders g) = 1 then \<exists>r g'. (cg_id g, r, g') \<in> set sent \<and> cg_orders g' = cg_orders g
      else \<exists>t \<in> tasks. group_idx t = cg_id g \<and> algorithm t = Greedy \<and> cg_orders (ct_group t) = cg_orders g)"

definition gen_inv :: "('q \<Rightarrow> ConflictTask list) \<Rightarrow> ConflictTask list \<Rightarrow> 'q ConflictTaskGenerator \<Rightarrow> bool" where
  "gen_inv items popped gen \<longleftrightarrow>
     (\<forall>t \<in> set (items (task_queue gen)). map_of (existing_groups gen) (group_idx t) = Some (ct_group t)) \<and>
     (\<forall>i. pred_option (\<lambda>g. cg_id g = i \<and> covered (results_sent gen) (set (items (task_queue gen)) \<union> set popped) g)
        (map_of (existing_groups gen) i))"

lemma gen_invD:
  assumes "gen_inv items popped gen"
  shows "t \<in> set (items (task_queue gen)) \<Longrightarrow> map_of (existing_groups gen) (group_idx t) = Some (ct_group t)"
    and "map_of (existing_groups gen) i = Some g \<Longrightarrow> cg_id g = i"
    and "map_of (existing_groups gen) i = Some g \<Longrightarrow> covered (results_sent gen) (set (items (task_queue gen)) \<union> set popped) g"
  using assms unfolding gen_inv_def by (auto dest: spec [of _ i])

text \<open>A group may follow the one stored under its id: the same orders, or more of them.\<close>

definition follows :: "ConflictGroup \<Rightarrow> ConflictGroup option \<Rightarrow> bool" where
  "follows g eg \<longleftrightarrow> cg_orders g \<noteq> [] \<and>
     (case eg of None \<Rightarrow> True | Some e \<Rightarrow> cg_orders e = cg_orders g \<or> 0 < length (cg_orders e) \<and> length (cg_orders e) < length (cg_orders g))"

lemma group_has_changed_iff: "group_has_changed g e \<longleftrightarrow> cg_orders g \<noteq> cg_orders e"
  by (auto simp: group_has_changed_def list_ex_iff list_eq_iff_nth_eq set_zip)

lemma greedy_task:
  "\<exists>t \<in> set (get_tasks_for_group now g p safe). group_idx t = cg_id g \<and> algorithm t = Greedy \<and> cg_orders (ct_group t) = cg_orders g"
  by (simp add: get_tasks_for_group_def Let_def)

lemma tasks_for_group: "t \<in> set (get_tasks_for_group now g p safe) \<Longrightarrow> group_idx t = cg_id g \<and> ct_group t = g"
  by (auto simp: get_tasks_for_group_def Let_def split: if_splits)

lemma covered_mono:
  "covered sent ts g \<Longrightarrow> set sent \<subseteq> set sent' \<Longrightarrow> {t \<in> ts. group_idx t = cg_id g} \<subseteq> ts' \<Longrightarrow> covered sent' ts' g"
  unfolding covered_def by (auto split: if_splits)

text \<open>A change of the generator that keeps the tasks of the groups it keeps.\<close>

lemma gen_inv_change:
  assumes inv: "gen_inv items popped gen" and sent: "set (results_sent gen) \<subseteq> set (results_sent gen')"
    and tasks: "\<And>t. t \<in> set (items (task_queue gen')) \<Longrightarrow> map_of (existing_groups gen') (group_idx t) = Some (ct_group t)"
    and kept: "\<And>i h. map_of (existing_groups gen') i = Some h \<Longrightarrow>
      cg_id h = i \<and> covered (results_sent gen') (set (items (task_queue gen')) \<union> set popped) h \<or>
      map_of (existing_groups gen) i = Some h \<and> {t \<in> set (items (task_queue gen)). group_idx t = i} \<subseteq> set (items (task_queue gen'))"
  shows "gen_inv items popped gen'"
proof -
  have "cg_id h = i \<and> covered (results_sent gen') (set (items (task_queue gen')) \<union> set popped) h"
    if h: "map_of (existing_groups gen') i = Some h" for i h
    using kept [OF h]
  proof
    assume old: "map_of (existing_groups gen) i = Some h \<and> {t \<in> set (items (task_queue gen)). group_idx t = i} \<subseteq> set (items (task_queue gen'))"
    then have "covered (results_sent gen) (set (items (task_queue gen)) \<union> set popped) h" and i: "cg_id h = i"
      using gen_invD(2,3) [OF inv] by blast+
    from this(1) have "covered (results_sent gen') (set (items (task_queue gen')) \<union> set popped) h"
      by (rule covered_mono [OF _ sent]) (use old i in auto)
    then show ?thesis using i by simp
  qed
  then have "pred_option (\<lambda>h. cg_id h = i \<and> covered (results_sent gen') (set (items (task_queue gen')) \<union> set popped) h)
      (map_of (existing_groups gen') i)" for i
    by (cases "map_of (existing_groups gen') i") simp_all
  then show ?thesis using tasks by (simp add: gen_inv_def)
qed

lemma gen_inv_replace:
  assumes inv: "gen_inv items popped gen"
    and q: "set (items q) = {t \<in> set (items (task_queue gen)). group_idx t \<noteq> cg_id g} \<union> set (get_tasks_for_group now g p safe)"
    and g: "length (cg_orders g) \<noteq> 1"
  shows "gen_inv items popped (gen\<lparr>task_queue := q, existing_groups := alist_update (cg_id g) g (existing_groups gen)\<rparr>)" (is "gen_inv _ _ ?gen")
proof (rule gen_inv_change [OF inv])
  fix t assume t: "t \<in> set (items (task_queue ?gen))"
  show "map_of (existing_groups ?gen) (group_idx t) = Some (ct_group t)"
  proof (cases "t \<in> set (get_tasks_for_group now g p safe)")
    case True
    then show ?thesis using tasks_for_group [OF True] by simp
  next
    case False
    then have "t \<in> set (items (task_queue gen))" "group_idx t \<noteq> cg_id g" using t q by simp_all
    then show ?thesis using gen_invD(1) [OF inv] by simp
  qed
next
  fix i h assume "map_of (existing_groups ?gen) i = Some h"
  then show "cg_id h = i \<and> covered (results_sent ?gen) (set (items (task_queue ?gen)) \<union> set popped) h \<or>
      map_of (existing_groups gen) i = Some h \<and> {t \<in> set (items (task_queue gen)). group_idx t = i} \<subseteq> set (items (task_queue ?gen))"
    using greedy_task [of now g p safe] g q by (cases "i = cg_id g") (auto simp: covered_def)
qed simp

lemma gen_inv_single:
  assumes inv: "gen_inv items popped gen" and g: "length (cg_orders g) = 1" and none: "map_of (existing_groups gen) (cg_id g) = None"
  shows "gen_inv items popped ((process_single_order_group (cg_id g) g gen)\<lparr>existing_groups := alist_update (cg_id g) g (existing_groups gen)\<rparr>)"
    (is "gen_inv _ _ ?gen")
proof (rule gen_inv_change [OF inv])
  fix t assume "t \<in> set (items (task_queue ?gen))"
  then have "map_of (existing_groups gen) (group_idx t) = Some (ct_group t)"
    using gen_invD(1) [OF inv] by (simp add: process_single_order_group_def Let_def)
  then show "map_of (existing_groups ?gen) (group_idx t) = Some (ct_group t)" using none by auto
next
  fix i h assume "map_of (existing_groups ?gen) i = Some h"
  then show "cg_id h = i \<and> covered (results_sent ?gen) (set (items (task_queue ?gen)) \<union> set popped) h \<or>
      map_of (existing_groups gen) i = Some h \<and> {t \<in> set (items (task_queue gen)). group_idx t = i} \<subseteq> set (items (task_queue ?gen))"
    using g by (cases "i = cg_id g") (auto simp: covered_def process_single_order_group_def Let_def)
qed (auto simp: process_single_order_group_def Let_def)

lemma process_single_group_spec:
  assumes law: "queue_law ops items" and inv: "gen_inv items popped gen"
    and g: "follows g (map_of (existing_groups gen) (cg_id g))"
  shows "\<exists>gen' g'. process_single_group ops now g gen = Some gen' \<and> gen_inv items popped gen' \<and> cg_orders g' = cg_orders g \<and>
    map_of (existing_groups gen') = (map_of (existing_groups gen))(cg_id g \<mapsto> g')"
proof (cases "\<exists>e. map_of (existing_groups gen) (cg_id g) = Some e \<and> cg_orders e = cg_orders g")
  case True
  then obtain e where e: "map_of (existing_groups gen) (cg_id g) = Some e" "cg_orders e = cg_orders g" by blast
  then show ?thesis
    using inv by (intro exI [of _ gen] exI [of _ e]) (simp add: process_single_group_def group_has_changed_iff fun_upd_idem)
next
  case changed: False
  show ?thesis
  proof (cases "length (cg_orders g) = 1")
    case True
    then have none: "map_of (existing_groups gen) (cg_id g) = None"
      using changed g by (auto simp: follows_def length_Suc_conv split: option.splits)
    then show ?thesis
      using gen_inv_single [OF inv True none] True by (auto simp: process_single_group_def process_single_order_group_def Let_def)
  next
    case False
    show ?thesis
    proof (cases "map_of (existing_groups gen) (cg_id g)")
      case None
      then have "{t \<in> set (items (task_queue gen)). group_idx t \<noteq> cg_id g} = set (items (task_queue gen))"
        using inv by (auto simp: gen_inv_def)
      then show ?thesis
        using None False gen_inv_replace [OF inv, of "task_queue (create_new_tasks ops now g High gen)" g now High "safe_sorting_only gen"]
        by (auto simp: process_single_group_def process_multi_order_group_def Let_def create_new_tasks_def queue_push_all [OF law])
    next
      case (Some e)
      let ?p = "if has_significant_changes g e then High else Medium"
      obtain q where q: "cancel_tasks_for_group ops (cg_id g) gen = Some (gen\<lparr>task_queue := q\<rparr>)"
        "items q = filter (\<lambda>t. group_idx t \<noteq> cg_id g) (items (task_queue gen))"
        using cancel_tasks_spec [OF law] by blast
      show ?thesis
        using Some False changed q(1)
          gen_inv_replace [OF inv, of "foldl (q_push ops) q (get_tasks_for_group now g ?p (safe_sorting_only gen))" g now ?p "safe_sorting_only gen"]
        by (auto simp: process_single_group_def process_multi_order_group_def update_tasks_def Let_def create_new_tasks_def
            queue_push_all [OF law] q(2) group_has_changed_iff)
    qed
  qed
qed

lemma remove_groups_existing:
  assumes law: "queue_law ops items" and inv: "gen_inv items popped gen"
  shows "\<exists>gen'. remove_groups ops is gen = Some gen' \<and> gen_inv items popped gen' \<and>
    map_of (existing_groups gen') = (map_of (existing_groups gen)) |` (- set is)"
  using inv
proof (induction "is" arbitrary: gen)
  case Nil
  then show ?case by (simp add: restrict_map_def)
next
  case (Cons i "is")
  let ?gen = "gen\<lparr>existing_groups := filter (\<lambda>kv. fst kv \<noteq> i) (existing_groups gen)\<rparr>"
  obtain q where q: "cancel_tasks_for_group ops i ?gen = Some (?gen\<lparr>task_queue := q\<rparr>)"
    "items q = filter (\<lambda>t. group_idx t \<noteq> i) (items (task_queue gen))"
    using cancel_tasks_spec [OF law, of i ?gen] by auto
  have rest: "map_of (filter (\<lambda>kv. fst kv \<noteq> i) (existing_groups gen)) = (map_of (existing_groups gen))(i := None)"
    by (rule map_of_remove)
  have "gen_inv items popped (?gen\<lparr>task_queue := q\<rparr>)"
  proof (rule gen_inv_change [OF Cons.prems])
    fix t assume "t \<in> set (items (task_queue (?gen\<lparr>task_queue := q\<rparr>)))"
    then show "map_of (existing_groups (?gen\<lparr>task_queue := q\<rparr>)) (group_idx t) = Some (ct_group t)"
      using gen_invD(1) [OF Cons.prems] by (simp add: q(2) rest)
  qed (auto simp: q(2) rest split: if_splits)
  from Cons.IH [OF this] obtain gen' where "remove_groups ops is (?gen\<lparr>task_queue := q\<rparr>) = Some gen'" "gen_inv items popped gen'"
    "map_of (existing_groups gen') = map_of (existing_groups (?gen\<lparr>task_queue := q\<rparr>)) |` (- set is)"
    by blast
  then show ?case using q(1) by (auto simp: rest restrict_map_def fun_eq_iff)
qed

text \<open>
  Groups come from the finder: their ids are distinct and none is an id some group replaced; each may follow what is
  stored under its id.
\<close>

definition groups_ok :: "ConflictGroup list \<Rightarrow> bool" where
  "groups_ok gs \<longleftrightarrow> distinct (map cg_id gs) \<and> cg_id ` set gs \<inter> (\<Union>g \<in> set gs. set (conflicting_group_ids g)) = {}"

definition stored_orders :: "'q ConflictTaskGenerator \<Rightarrow> nat \<Rightarrow> SimulatedOrder list option" where
  "stored_orders gen i = map_option cg_orders (map_of (existing_groups gen) i)"

lemma set_subset_ids: "set (subset_ids g gen) = set (conflicting_group_ids g) \<inter> dom (map_of (existing_groups gen))"
  by (auto simp: subset_ids_def dom_map_of_conv_image_fst)

lemma remove_subsets_spec:
  assumes law: "queue_law ops items" and inv: "gen_inv items popped gen"
  shows "\<exists>gen'. (if conflicting_group_ids g \<noteq> [] then remove_conflicting_subset_groups ops g gen else Some gen) = Some gen' \<and>
    gen_inv items popped gen' \<and> map_of (existing_groups gen') = (map_of (existing_groups gen)) |` (- set (conflicting_group_ids g))"
proof (cases "conflicting_group_ids g = []")
  case True
  then show ?thesis using inv by (simp add: restrict_map_def)
next
  case False
  obtain gen' where gen': "remove_groups ops (subset_ids g gen) gen = Some gen'" "gen_inv items popped gen'"
    "map_of (existing_groups gen') = (map_of (existing_groups gen)) |` (- set (subset_ids g gen))"
    using remove_groups_existing [OF law inv] by blast
  have "map_of (existing_groups gen') = (map_of (existing_groups gen)) |` (- set (conflicting_group_ids g))"
    unfolding gen'(3) by (auto simp: set_subset_ids restrict_map_def fun_eq_iff)
  then show ?thesis using gen'(1,2) False by (simp add: remove_conflicting_subset_groups_def)
qed

lemma process_sorted_groups_spec:
  assumes law: "queue_law ops items" and inv: "gen_inv items popped gen" and ok: "groups_ok (ds @ gs)"
    and follow: "\<forall>g \<in> set gs. follows g (map_of (existing_groups gen) (cg_id g))"
    and processed: "processed \<subseteq> cg_id ` set ds \<union> (\<Union>g \<in> set ds. set (conflicting_group_ids g))"
  shows "\<exists>gen'. process_sorted_groups ops now processed gs gen = Some gen' \<and> gen_inv items popped gen' \<and>
    (\<forall>i. stored_orders gen' i = (case find (\<lambda>g. cg_id g = i) gs of Some g \<Rightarrow> Some (cg_orders g)
       | None \<Rightarrow> if i \<in> (\<Union>g \<in> set gs. set (conflicting_group_ids g)) then None else stored_orders gen i))"
  using inv ok follow processed
proof (induction gs arbitrary: ds gen processed)
  case Nil
  then show ?case by simp
next
  case (Cons g gs)
  have ids: "cg_id g \<notin> cg_id ` set ds" "cg_id g \<notin> cg_id ` set gs"
    "cg_id g \<notin> (\<Union>h \<in> set (ds @ g # gs). set (conflicting_group_ids h))"
    "cg_id ` set gs \<inter> set (conflicting_group_ids g) = {}"
    using Cons.prems(2) by (auto simp: groups_ok_def)
  then have fresh: "cg_id g \<notin> processed" using Cons.prems(4) by auto
  obtain gen1 g' where 1: "process_single_group ops now g gen = Some gen1" "gen_inv items popped gen1" "cg_orders g' = cg_orders g"
    "map_of (existing_groups gen1) = (map_of (existing_groups gen))(cg_id g \<mapsto> g')"
    using process_single_group_spec [OF law Cons.prems(1), of g now] Cons.prems(3) by (meson list.set_intros(1))
  obtain gen2 where 2: "(if conflicting_group_ids g \<noteq> [] then remove_conflicting_subset_groups ops g gen1 else Some gen1) = Some gen2"
    "gen_inv items popped gen2" "map_of (existing_groups gen2) = (map_of (existing_groups gen1)) |` (- set (conflicting_group_ids g))"
    using remove_subsets_spec [OF law 1(2)] by blast
  have ok: "groups_ok ((ds @ [g]) @ gs)" using Cons.prems(2) by simp
  have "\<forall>h \<in> set gs. follows h (map_of (existing_groups gen2) (cg_id h))"
    using Cons.prems(3) ids 1(4) 2(3) by (auto simp: restrict_map_def) (metis imageI)
  moreover have "add_processed_groups g gen1 processed \<subseteq> cg_id ` set (ds @ [g]) \<union> (\<Union>h \<in> set (ds @ [g]). set (conflicting_group_ids h))"
    using Cons.prems(4) by (auto simp: add_processed_groups_def set_subset_ids)
  ultimately obtain gen' where 3: "process_sorted_groups ops now (add_processed_groups g gen1 processed) gs gen2 = Some gen'"
    "gen_inv items popped gen'" "\<forall>i. stored_orders gen' i = (case find (\<lambda>g. cg_id g = i) gs of Some g \<Rightarrow> Some (cg_orders g)
       | None \<Rightarrow> if i \<in> (\<Union>g \<in> set gs. set (conflicting_group_ids g)) then None else stored_orders gen2 i)"
    using Cons.IH [OF 2(2) ok] by blast
  have "find (\<lambda>h. cg_id h = cg_id g) gs = None" using ids(2) unfolding find_None_iff by (metis imageI)
  moreover have "stored_orders gen2 i = (if i \<in> set (conflicting_group_ids g) then None else if i = cg_id g then Some (cg_orders g) else stored_orders gen i)" for i
    using 1(3,4) 2(3) by (simp add: stored_orders_def restrict_map_def)
  ultimately have "stored_orders gen' i = (case find (\<lambda>g. cg_id g = i) (g # gs) of Some g \<Rightarrow> Some (cg_orders g)
       | None \<Rightarrow> if i \<in> (\<Union>g \<in> set (g # gs). set (conflicting_group_ids g)) then None else stored_orders gen i)" for i
    using 3(3) ids by (cases "i = cg_id g") (auto split: option.split)
  then show ?case using fresh 1(1) 2(1) 3(1,2) by (auto simp: Let_def)
qed

section \<open>Batches of orders and workers\<close>

text \<open>Between the batches of orders, workers take tasks from the queue; the last component holds the tasks taken.\<close>

datatype intake_event = New_orders nat "SimulatedOrder list option" | Worker_takes

fun intake_step ::
  "'q queue_ops \<Rightarrow> intake_event \<Rightarrow> ConflictFinder \<times> 'q ConflictTaskGenerator \<times> ConflictTask list
     \<Rightarrow> (ConflictFinder \<times> 'q ConflictTaskGenerator \<times> ConflictTask list) option" where
  "intake_step ops (New_orders now drained) (cf, gen, popped) =
     map_option (\<lambda>(cf, gen). (cf, gen, popped)) (intake_new_orders ops now drained (cf, gen))"
| "intake_step ops Worker_takes (cf, gen, popped) =
     (case q_pop ops (task_queue gen) of
        None \<Rightarrow> Some (cf, gen, popped)
      | Some (t, q) \<Rightarrow> Some (cf, gen\<lparr>task_queue := q\<rparr>, popped @ [t]))"

fun intake_run ::
  "'q queue_ops \<Rightarrow> intake_event list \<Rightarrow> ConflictFinder \<times> 'q ConflictTaskGenerator \<times> ConflictTask list
     \<Rightarrow> (ConflictFinder \<times> 'q ConflictTaskGenerator \<times> ConflictTask list) option" where
  "intake_run ops [] st = Some st"
| "intake_run ops (ev # evs) st = Option.bind (intake_step ops ev st) (intake_run ops evs)"

fun event_wf :: "intake_event \<Rightarrow> bool" where
  "event_wf (New_orders now (Some ods)) \<longleftrightarrow> traces_wf ods"
| "event_wf _ \<longleftrightarrow> True"

definition intake_inv :: "('q \<Rightarrow> ConflictTask list) \<Rightarrow> ConflictFinder \<times> 'q ConflictTaskGenerator \<times> ConflictTask list \<Rightarrow> bool" where
  "intake_inv items st = (case st of (cf, gen, popped) \<Rightarrow>
     (\<exists>ods. partitioned cf ods) \<and> gen_inv items popped gen \<and> (\<forall>i. stored_orders gen i = map_option gd_orders (groups_at cf i)))"

lemma find_by_id: "distinct (map cg_id gs) \<Longrightarrow> g \<in> set gs \<Longrightarrow> find (\<lambda>h. cg_id h = cg_id g) gs = Some g"
  by (induction gs) auto

lemma finder_groups_ok:
  assumes "partitioned cf ods"
  shows "groups_ok (rev (sort_key f (rev (get_order_groups cf))))"
proof -
  note t = get_order_groups_table [OF partitionedD(1) [OF assms]]
  have "distinct (map cg_id (get_order_groups cf))" using t(1) strict_sorted_iff by blast
  moreover have "cg_id ` set (get_order_groups cf) \<inter> (\<Union>g \<in> set (get_order_groups cf). set (conflicting_group_ids g)) = {}"
    using t(2,3) partitionedD(7) [OF assms] by simp
  ultimately show ?thesis by (simp add: groups_ok_def distinct_map rev_map [symmetric])
qed

text \<open>The groups stored by the generator are those of the finder before the new orders; they may be followed by the new ones.\<close>

lemma stored_group:
  assumes part: "partitioned cf ods" and stored: "\<And>i. stored_orders gen i = map_option gd_orders (groups_at cf i)"
    and e: "map_of (existing_groups gen) i = Some e"
  shows "i < group_counter cf" and "0 < length (cg_orders e)" and "group_orders (groups_at cf) i = cg_orders e"
proof -
  obtain g where g: "groups_at cf i = Some g" "gd_orders g = cg_orders e"
    using e stored [of i] by (cases "groups_at cf i") (auto simp: stored_orders_def)
  then show "i < group_counter cf" "0 < length (cg_orders e)" "group_orders (groups_at cf) i = cg_orders e"
    using partitionedD(8) [OF part, of i] finder_invD(4) [OF partitionedD(1) [OF part]] by (auto simp: group_orders_def)
qed

lemma finder_groups_follow:
  assumes part: "partitioned cf ods" and stored: "\<And>i. stored_orders gen i = map_option gd_orders (groups_at cf i)"
    and part': "partitioned cf' ods'" and grown: "grown cf cf'" and g: "g \<in> set (get_order_groups cf')"
  shows "follows g (map_of (existing_groups gen) (cg_id g))"
proof -
  have in_cf': "cg_id g \<in> dom (groups_at cf')" "cg_orders g = group_orders (groups_at cf') (cg_id g)"
    using get_order_groups_table(4) [OF partitionedD(1) [OF part'] g] by simp_all
  have some: "cg_orders g \<noteq> []" using partitionedD(8) [OF part' in_cf'(1)] in_cf'(2) by simp
  show ?thesis
  proof (cases "map_of (existing_groups gen) (cg_id g)")
    case None
    then show ?thesis using some by (simp add: follows_def)
  next
    case (Some e)
    note e = stored_group [OF part stored Some]
    have "cg_orders g = cg_orders e \<or> length (cg_orders e) < length (cg_orders g)"
      using grown e(1,3) in_cf' unfolding grown_def by metis
    then show ?thesis using Some e(2) some by (auto simp: follows_def)
  qed
qed

lemma stored_after_batch:
  assumes part: "partitioned cf ods" and stored: "\<And>i. stored_orders gen i = map_option gd_orders (groups_at cf i)"
    and part': "partitioned cf' ods'" and grown: "grown cf cf'"
    and gs: "set gs = set (get_order_groups cf')" "groups_ok gs"
    and after: "stored_orders gen' i = (case find (\<lambda>g. cg_id g = i) gs of Some g \<Rightarrow> Some (cg_orders g)
       | None \<Rightarrow> if i \<in> (\<Union>g \<in> set gs. set (conflicting_group_ids g)) then None else stored_orders gen i)"
  shows "stored_orders gen' i = map_option gd_orders (groups_at cf' i)"
proof (cases "i \<in> dom (groups_at cf')")
  case True
  note t = get_order_groups_table [OF partitionedD(1) [OF part']]
  have "i \<in> cg_id ` set gs" using True unfolding gs(1) t(2) [symmetric] by simp
  then obtain g where g: "g \<in> set gs" "cg_id g = i" by blast
  have "find (\<lambda>h. cg_id h = i) gs = Some g" using find_by_id [of gs g] g gs(2) unfolding groups_ok_def by blast
  then have "stored_orders gen' i = Some (cg_orders g)" using after by simp
  then show ?thesis using t(4) [of g] g gs(1) True by (auto simp: group_orders_def)
next
  case False
  note t = get_order_groups_table [OF partitionedD(1) [OF part']]
  have "i \<notin> cg_id ` set gs" using False unfolding gs(1) t(2) [symmetric] by simp
  then have none: "find (\<lambda>g. cg_id g = i) gs = None" unfolding find_None_iff by blast
  have "stored_orders gen i = None" if "i \<notin> superseded (groups_at cf')"
  proof (cases "map_of (existing_groups gen) i")
    case (Some e)
    then have "i < group_counter cf'" using stored_group(1) [OF part stored Some] grown by (simp add: grown_def)
    then show ?thesis using partitionedD(6) [OF part'] that False by auto
  qed (simp add: stored_orders_def)
  then show ?thesis using after none t(3) gs(1) False by auto
qed

lemma intake_new_orders_inv:
  assumes law: "queue_law ops items" and inv: "intake_inv items (cf, gen, popped)" and wf: "traces_wf new_orders"
  shows "\<exists>cf' gen'. intake_new_orders ops now (Some new_orders) (cf, gen) = Some (cf', gen') \<and> intake_inv items (cf', gen', popped)"
proof (cases "new_orders = []")
  case True
  then show ?thesis using inv by (simp add: intake_new_orders_def)
next
  case False
  from inv obtain ods where part: "partitioned cf ods" and gen: "gen_inv items popped gen"
    and stored: "\<And>i. stored_orders gen i = map_option gd_orders (groups_at cf i)"
    by (auto simp: intake_inv_def)
  obtain cf' ods' where cf': "add_orders new_orders cf = Some cf'" "partitioned cf' ods'" "grown cf cf'"
    using add_orders_spec [OF part wf] by blast
  let ?gs = "rev (sort_key (\<lambda>g. length (cg_orders g)) (rev (get_order_groups cf')))"
  have gs: "set ?gs = set (get_order_groups cf')" "groups_ok ?gs" using finder_groups_ok [OF cf'(2)] by simp_all
  have "\<forall>g \<in> set ?gs. follows g (map_of (existing_groups gen) (cg_id g))"
    using finder_groups_follow [OF part stored cf'(2,3)] gs(1) by blast
  then obtain gen' where gen': "process_sorted_groups ops now {} ?gs gen = Some gen'" "gen_inv items popped gen'"
    "\<forall>i. stored_orders gen' i = (case find (\<lambda>g. cg_id g = i) ?gs of Some g \<Rightarrow> Some (cg_orders g)
       | None \<Rightarrow> if i \<in> (\<Union>g \<in> set ?gs. set (conflicting_group_ids g)) then None else stored_orders gen i)"
    using process_sorted_groups_spec [OF law gen, of "[]" ?gs "{}" now] gs(2) by auto
  have "stored_orders gen' i = map_option gd_orders (groups_at cf' i)" for i
    using stored_after_batch [OF part stored cf'(2,3) gs] gen'(3) by blast
  then show ?thesis
    using cf' gen' False by (auto simp: intake_new_orders_def process_groups_def intake_inv_def)
qed

lemma intake_step_inv:
  assumes law: "queue_law ops items" and inv: "intake_inv items st" and wf: "event_wf ev"
  shows "\<exists>st'. intake_step ops ev st = Some st' \<and> intake_inv items st'"
proof -
  obtain cf gen popped where st: "st = (cf, gen, popped)" using prod_cases3 by blast
  show ?thesis
  proof (cases ev)
    case (New_orders now drained)
    show ?thesis
    proof (cases drained)
      case None
      then show ?thesis using inv New_orders st by (simp add: intake_new_orders_def)
    next
      case (Some ods)
      then show ?thesis using intake_new_orders_inv [OF law inv [unfolded st], of ods now] New_orders wf st by auto
    qed
  next
    case Worker_takes
    show ?thesis
    proof (cases "q_pop ops (task_queue gen)")
      case None
      then show ?thesis using inv Worker_takes st by simp
    next
      case (Some tq)
      obtain t q where tq: "tq = (t, q)" by (cases tq)
      then have "items (task_queue gen) = t # items q" using Some law by (auto simp: queue_law_def dest: spec [of _ "task_queue gen"])
      then show ?thesis using inv Worker_takes st Some tq by (auto simp: intake_inv_def gen_inv_def stored_orders_def insert_commute)
    qed
  qed
qed

lemma intake_run_inv:
  assumes "queue_law ops items"
  shows "intake_inv items st \<Longrightarrow> list_all event_wf evs \<Longrightarrow> \<exists>st'. intake_run ops evs st = Some st' \<and> intake_inv items st'"
proof (induction evs arbitrary: st)
  case (Cons ev evs)
  then obtain st1 where "intake_step ops ev st = Some st1" "intake_inv items st1" using intake_step_inv [OF assms] by fastforce
  then show ?case using Cons by simp
qed simp

text \<open>C20: While batches of orders arrive and workers take tasks in between, intake never gets stuck; no task is
  left in the queue for a group that was merged away or for an older state of a group; and no group is
  forgotten: the result of each one-order group was sent, and for each larger group a quick task for exactly its
  current orders is queued or was taken by a worker.\<close>

theorem groups_keep_current_tasks:
  assumes "queue_law ops items" and "items q = []" and "list_all event_wf evs"
  shows "\<exists>cf gen popped. intake_run ops evs (ConflictFinder_new, ConflictTaskGenerator_new safe q, []) = Some (cf, gen, popped) \<and>
    (\<forall>t \<in> set (items (task_queue gen)). \<exists>g \<in> set (get_order_groups cf). group_idx t = cg_id g \<and> cg_orders (ct_group t) = cg_orders g) \<and>
    (\<forall>g \<in> set (get_order_groups cf). covered (results_sent gen) (set (items (task_queue gen)) \<union> set popped) g)"
proof -
  have "intake_inv items (ConflictFinder_new, ConflictTaskGenerator_new safe q, [])"
    using partitioned_new assms(2)
    by (auto simp: intake_inv_def gen_inv_def ConflictTaskGenerator_new_def stored_orders_def ConflictFinder_new_def groups_at_def)
  then obtain cf gen popped where run: "intake_run ops evs (ConflictFinder_new, ConflictTaskGenerator_new safe q, []) = Some (cf, gen, popped)"
    and "intake_inv items (cf, gen, popped)"
    using intake_run_inv [OF assms(1) _ assms(3)] by (metis prod_cases3)
  then obtain ods where part: "partitioned cf ods" and gen: "gen_inv items popped gen"
    and stored: "\<And>i. stored_orders gen i = map_option gd_orders (groups_at cf i)" by (auto simp: intake_inv_def)
  note t = get_order_groups_table [OF partitionedD(1) [OF part]]
  have "\<exists>g \<in> set (get_order_groups cf). group_idx t = cg_id g \<and> cg_orders (ct_group t) = cg_orders g"
    if "t \<in> set (items (task_queue gen))" for t
  proof -
    have s: "stored_orders gen (group_idx t) = Some (cg_orders (ct_group t))" using gen_invD(1) [OF gen that] by (simp add: stored_orders_def)
    then have "group_idx t \<in> cg_id ` set (get_order_groups cf)" using stored [of "group_idx t"] t(2) by auto
    then obtain g where "g \<in> set (get_order_groups cf)" "cg_id g = group_idx t" by auto
    then show ?thesis using t(4) [of g] s stored [of "group_idx t"] by (intro bexI [of _ g]) (auto simp: group_orders_def)
  qed
  moreover have "covered (results_sent gen) (set (items (task_queue gen)) \<union> set popped) g" if g: "g \<in> set (get_order_groups cf)" for g
  proof -
    have "stored_orders gen (cg_id g) = Some (cg_orders g)" using t(4) [OF g] stored by (auto simp: group_orders_def)
    then obtain e where e: "map_of (existing_groups gen) (cg_id g) = Some e" "cg_orders e = cg_orders g" by (auto simp: stored_orders_def)
    show ?thesis using gen_invD(3) [OF gen e(1)] unfolding covered_def gen_invD(2) [OF gen e(1)] e(2) .
  qed
  ultimately show ?thesis using run by blast
qed

theorem groups_keep_current_tasks_witness:
  "\<exists>cf gen popped. intake_run list_queue
       [New_orders 0 (Some [slot_order 1 [] [1], slot_order 2 [] [2], slot_order 5 [2] []]), Worker_takes,
        New_orders 1 (Some [slot_order 4 [1, 2] []])] (ConflictFinder_new, ConflictTaskGenerator_new True [], []) = Some (cf, gen, popped) \<and>
     map (\<lambda>t. (group_idx t, algorithm t)) popped = [(1, Greedy)] \<and>
     map (\<lambda>t. (group_idx t, algorithm t)) (task_queue gen) = [(2, Greedy), (2, Length)] \<and>
     (\<forall>t \<in> set (task_queue gen). \<exists>g \<in> set (get_order_groups cf). group_idx t = cg_id g \<and> cg_orders (ct_group t) = cg_orders g)"
proof -
  let ?evs = "[New_orders 0 (Some [slot_order 1 [] [1], slot_order 2 [] [2], slot_order 5 [2] []]), Worker_takes,
        New_orders 1 (Some [slot_order 4 [1, 2] []])]"
  have "list_all event_wf ?evs \<and>
    map_option (\<lambda>(cf, gen, popped). (map (\<lambda>t. (group_idx t, algorithm t)) popped, map (\<lambda>t. (group_idx t, algorithm t)) (task_queue gen)))
      (intake_run list_queue ?evs (ConflictFinder_new, ConflictTaskGenerator_new True [], [])) =
    Some ([(1, Greedy)], [(2, Greedy), (2, Length)])"
    by code_simp
  with groups_keep_current_tasks [OF list_queue_law, of "[]" ?evs True] show ?thesis by auto
qed

section \<open>What the best results hold\<close>

definition stored_profit :: "BestResults \<Rightarrow> nat \<Rightarrow> U256 option" where
  "stored_profit b i = map_option (total_profit \<circ> fst) (map_of (br_data b) i)"

definition outbid :: "U256 \<Rightarrow> nat list \<Rightarrow> BestResults \<Rightarrow> bool" where
  "outbid profit ids b \<longleftrightarrow> (\<exists>i \<in> set ids. \<exists>p. stored_profit b i = Some p \<and> profit \<le> p)"

text \<open>A stored group replaced the group with id \<open>i\<close>; no stored group was replaced by another one.\<close>

definition replaced_in :: "BestResults \<Rightarrow> nat \<Rightarrow> bool" where
  "replaced_in b i \<longleftrightarrow> (\<exists>j r g. map_of (br_data b) j = Some (r, g) \<and> i \<in> set (conflicting_group_ids g))"

definition separate :: "BestResults \<Rightarrow> bool" where
  "separate b \<longleftrightarrow> (\<forall>i. stored_profit b i \<noteq> None \<longrightarrow> \<not> replaced_in b i)"

lemma outbid_simps [simp]:
  "outbid profit [] b \<longleftrightarrow> False"
  "outbid profit (i # is) b \<longleftrightarrow> (case stored_profit b i of None \<Rightarrow> False | Some p \<Rightarrow> profit \<le> p) \<or> outbid profit is b"
  by (auto simp: outbid_def split: option.splits)

lemma stored_profit_data: "map_of (br_data b) i = None \<Longrightarrow> stored_profit b i = None"
  "map_of (br_data b) i = Some (r, g) \<Longrightarrow> stored_profit b i = Some (total_profit r)"
  by (simp_all add: stored_profit_def)

lemma conflicting_groups_to_remove_eq:
  "conflicting_groups_to_remove (br_data b) profit ids acc =
     (if outbid profit ids b then None else Some (acc @ filter (\<lambda>i. stored_profit b i \<noteq> None) ids))"
proof (induction ids arbitrary: acc)
  case (Cons i ids)
  then show ?case
    by (cases "map_of (br_data b) i") (auto simp: stored_profit_data not_less split: prod.splits)
qed simp

lemma process_update_rejected:
  "outbid (total_profit r) (conflicting_group_ids g) b \<Longrightarrow> process_update (i, r, g) b = b"
  by (simp add: process_update_def update_best_result_def conflicting_groups_to_remove_eq)

lemma map_of_filter_keys: "map_of (filter (\<lambda>kv. fst kv \<notin> S) xs) = map_of xs |` (- S)"
  by (induction xs) (auto simp: restrict_map_def fun_eq_iff)

definition beaten :: "U256 \<Rightarrow> nat \<Rightarrow> BestResults \<Rightarrow> bool" where
  "beaten profit i b \<longleftrightarrow> (case stored_profit b i of None \<Rightarrow> False | Some p \<Rightarrow> profit \<le> p)"

lemma process_update_accepted:
  assumes "\<not> outbid (total_profit r) (conflicting_group_ids g) b"
  shows "map_of (br_data (process_update (i, r, g) b)) =
      (if beaten (total_profit r) i b then map_of (br_data b) else (map_of (br_data b))(i \<mapsto> (r, g)))
        |` (- {j \<in> set (conflicting_group_ids g). stored_profit b j \<noteq> None})"
    and "br_version (process_update (i, r, g) b) =
      (if beaten (total_profit r) i b \<and> (\<forall>j \<in> set (conflicting_group_ids g). stored_profit b j = None)
       then br_version b else br_version b + 1)"
proof -
  obtain rm where rm: "conflicting_groups_to_remove (br_data b) (total_profit r) (conflicting_group_ids g) [] = Some rm"
    and set_rm: "set rm = {j \<in> set (conflicting_group_ids g). stored_profit b j \<noteq> None}"
    using assms by (auto simp: conflicting_groups_to_remove_eq)
  have "rm = [] \<longleftrightarrow> set rm = {}" by simp
  then have nil: "rm = [] \<longleftrightarrow> (\<forall>j \<in> set (conflicting_group_ids g). stored_profit b j = None)" unfolding set_rm by auto
  let ?b = "b\<lparr>br_data := filter (\<lambda>kv. fst kv \<notin> set rm)
    (if beaten (total_profit r) i b then br_data b else alist_update i (r, g) (br_data b))\<rparr>"
  have eq: "process_update (i, r, g) b = (if beaten (total_profit r) i b \<and> rm = [] then ?b else increment_version ?b)"
  proof (cases "map_of (br_data b) i")
    case None
    then show ?thesis by (simp add: process_update_def update_best_result_def rm beaten_def stored_profit_data)
  next
    case (Some e)
    then show ?thesis
      by (cases e) (auto simp: process_update_def update_best_result_def rm beaten_def stored_profit_data)
  qed
  show "map_of (br_data (process_update (i, r, g) b)) =
      (if beaten (total_profit r) i b then map_of (br_data b) else (map_of (br_data b))(i \<mapsto> (r, g)))
        |` (- {j \<in> set (conflicting_group_ids g). stored_profit b j \<noteq> None})"
    unfolding set_rm [symmetric] eq by (simp add: increment_version_def map_of_filter_keys restrict_map_def)
  show "br_version (process_update (i, r, g) b) =
      (if beaten (total_profit r) i b \<and> (\<forall>j \<in> set (conflicting_group_ids g). stored_profit b j = None)
       then br_version b else br_version b + 1)"
    unfolding nil [symmetric] eq by (simp add: increment_version_def)
qed

lemma process_update_profit:
  assumes "\<not> outbid (total_profit r) (conflicting_group_ids g) b" and "i \<notin> set (conflicting_group_ids g)"
  shows "stored_profit (process_update (i, r, g) b) j = (if j \<in> set (conflicting_group_ids g) then None
      else if j = i then Some (case stored_profit b i of None \<Rightarrow> total_profit r | Some p \<Rightarrow> max p (total_profit r)) else stored_profit b j)"
proof -
  have "stored_profit (process_update (i, r, g) b) j = (if j \<in> set (conflicting_group_ids g) \<and> stored_profit b j \<noteq> None then None
      else if j = i \<and> \<not> beaten (total_profit r) i b then Some (total_profit r) else stored_profit b j)"
    unfolding stored_profit_def [of "process_update (i, r, g) b"] process_update_accepted(1) [OF assms(1)]
    by (simp add: restrict_map_def stored_profit_def)
  then show ?thesis using assms(2) by (auto simp: beaten_def max_def split: option.splits)
qed

text \<open>C21: A result is refused, and nothing changes, exactly when a group it would replace has a result at least as
  profitable. Otherwise the groups it replaces are gone, its own group keeps the better of the two results, and
  the others stay. The version changes exactly when some group's profit does, and stored groups stay separate as
  long as no result arrives for a group that a stored group replaced.\<close>

theorem best_results_exact:
  assumes "i \<notin> set (conflicting_group_ids g)"
  shows "let b' = process_update (i, r, g) b in
    (if outbid (total_profit r) (conflicting_group_ids g) b then b' = b
     else \<forall>j. stored_profit b' j = (if j \<in> set (conflicting_group_ids g) then None
       else if j = i then Some (case stored_profit b i of None \<Rightarrow> total_profit r | Some p \<Rightarrow> max p (total_profit r)) else stored_profit b j)) \<and>
    (br_version b' = br_version b \<longleftrightarrow> stored_profit b' = stored_profit b) \<and>
    (separate b \<longrightarrow> \<not> replaced_in b i \<longrightarrow> separate b')"
proof (cases "outbid (total_profit r) (conflicting_group_ids g) b")
  case True
  then show ?thesis by (simp add: process_update_rejected)
next
  case False
  let ?b = "process_update (i, r, g) b"
  note data = process_update_accepted(1) [OF False] and profit = process_update_profit [OF False assms]
  have "stored_profit ?b = stored_profit b \<longleftrightarrow>
      beaten (total_profit r) i b \<and> (\<forall>j \<in> set (conflicting_group_ids g). stored_profit b j = None)"
    unfolding fun_eq_iff profit using assms by (auto simp: beaten_def max_def split: option.splits if_splits)
  then have version: "br_version ?b = br_version b \<longleftrightarrow> stored_profit ?b = stored_profit b"
    using process_update_accepted(2) [OF False, of i] by auto
  have from_old: "replaced_in ?b j \<Longrightarrow> replaced_in b j \<or> j \<in> set (conflicting_group_ids g)" for j
    unfolding replaced_in_def data by (auto simp: restrict_map_def split: if_splits)
  have "separate ?b" if "separate b" "\<not> replaced_in b i"
    using that from_old unfolding separate_def profit by (metis assms option.distinct(1))
  then show ?thesis using False profit version by (simp add: Let_def)
qed

definition sample_result :: "U256 \<Rightarrow> ResolutionResult" where
  "sample_result profit = \<lparr>total_profit = profit, sequence_of_orders = [(0, profit)]\<rparr>"

definition sample_group :: "nat \<Rightarrow> SimulatedOrder list \<Rightarrow> nat list \<Rightarrow> ConflictGroup" where
  "sample_group i ods ids = \<lparr>cg_id = i, cg_orders = ods, conflicting_group_ids = ids\<rparr>"

theorem best_results_exact_witness:
  "let a = slot_order 1 [] [1]; b = slot_order 2 [1] [];
       best = run_aggregator [(0, sample_result 10, sample_group 0 [a] []), (1, sample_result 5, sample_group 1 [b] [])] BestResults_new;
       best' = process_update (2, sample_result 30, sample_group 2 [a, b] [0, 1]) best
   in map fst (br_data best) = [0, 1] \<and> stored_profit best' 0 = None \<and> stored_profit best' 2 = Some 30 \<and> br_version best' \<noteq> br_version best"
proof -
  let ?a = "slot_order 1 [] [1]" and ?b = "slot_order 2 [1] []"
  let ?best = "run_aggregator [(0, sample_result 10, sample_group 0 [?a] []), (1, sample_result 5, sample_group 1 [?b] [])] BestResults_new"
  let ?g = "sample_group 2 [?a, ?b] [0, 1]"
  have eval: "map fst (br_data ?best) = [0, 1] \<and> stored_profit ?best 0 = Some 10 \<and> stored_profit ?best 1 = Some 5 \<and> stored_profit ?best 2 = None"
    by (simp add: run_aggregator_def BestResults_new_def process_update_def update_best_result_def sample_group_def sample_result_def
        increment_version_def stored_profit_def)
  then have "\<not> outbid (total_profit (sample_result 30)) (conflicting_group_ids ?g) ?best"
    by (simp add: sample_result_def sample_group_def)
  moreover have "2 \<notin> set (conflicting_group_ids ?g)" by (simp add: sample_group_def)
  note best_results_exact [OF this, of "sample_result 30" ?best]
  ultimately have profit: "\<forall>j. stored_profit (process_update (2, sample_result 30, ?g) ?best) j = (if j \<in> set (conflicting_group_ids ?g) then None
       else if j = 2 then Some (case stored_profit ?best 2 of None \<Rightarrow> total_profit (sample_result 30) | Some p \<Rightarrow> max p (total_profit (sample_result 30)))
       else stored_profit ?best j)"
    and version: "br_version (process_update (2, sample_result 30, ?g) ?best) = br_version ?best \<longleftrightarrow>
      stored_profit (process_update (2, sample_result 30, ?g) ?best) = stored_profit ?best"
    unfolding Let_def by presburger+
  from profit have "stored_profit (process_update (2, sample_result 30, ?g) ?best) 2 = Some 30"
    "stored_profit (process_update (2, sample_result 30, ?g) ?best) 0 = None"
    using eval by (simp_all add: sample_group_def sample_result_def)
  with eval version show ?thesis unfolding Let_def by (metis option.distinct(1))
qed

text \<open>C38: The check looks only at the groups a new result replaces. A result for a group that was already replaced,
  sent by a worker that started before the groups were merged, is stored beside the result of the group
  that replaced it, so that the same orders are handed out twice.\<close>

theorem late_result_overlaps:
  assumes "map_of (br_data b) k = Some (rk, gk)" and "i \<in> set (conflicting_group_ids gk)" and "i \<noteq> k"
    and "map_of (br_data b) i = None" and "conflicting_group_ids g = []"
  shows "map_of (br_data (process_update (i, r, g) b)) k = Some (rk, gk) \<and>
    map_of (br_data (process_update (i, r, g) b)) i = Some (r, g) \<and> \<not> separate (process_update (i, r, g) b)"
proof -
  have "map_of (br_data (process_update (i, r, g) b)) = (map_of (br_data b))(i \<mapsto> (r, g))"
    using process_update_accepted(1) [of r g b i] assms(4,5) by (auto simp: beaten_def stored_profit_data restrict_map_def fun_eq_iff)
  moreover from this have "replaced_in (process_update (i, r, g) b) i"
    unfolding replaced_in_def using assms(1-3) by (intro exI [of _ k]) auto
  ultimately show ?thesis using assms(3) by (auto simp: separate_def stored_profit_def assms(1))
qed

theorem late_result_overlaps_witness:
  "let a = slot_order 1 [] [1]; b = slot_order 2 [1] [];
       best = run_aggregator [(2, sample_result 30, sample_group 2 [a, b] [0, 1])] BestResults_new;
       best' = process_update (0, sample_result 10, sample_group 0 [a] []) best
   in map_of (br_data best') 2 = Some (sample_result 30, sample_group 2 [a, b] [0, 1]) \<and>
      map_of (br_data best') 0 = Some (sample_result 10, sample_group 0 [a] []) \<and> \<not> separate best'"
proof -
  let ?a = "slot_order 1 [] [1]" and ?b = "slot_order 2 [1] []"
  let ?g = "sample_group 2 [?a, ?b] [0, 1]"
  let ?best = "run_aggregator [(2, sample_result 30, ?g)] BestResults_new"
  have "map_of (br_data ?best) 2 = Some (sample_result 30, ?g) \<and> map_of (br_data ?best) 0 = None"
    by (simp add: run_aggregator_def BestResults_new_def process_update_def update_best_result_def sample_group_def sample_result_def
        increment_version_def)
  with late_result_overlaps [of ?best 2 "sample_result 30" ?g 0 "sample_group 0 [?a] []" "sample_result 10"] show ?thesis
    by (simp add: sample_group_def Let_def)
qed

end
