(* ===== verification/Spec2Isabelle.thy ===== *)
theory Spec2Isabelle
  imports Constraint_Pool Constraint_Proofs Order_Pool Prioritized_Store Sim_Tree Block_Laws Conflict_Tasks
begin

text \<open>
  Verification of a block builder for Ethereum with inclusion constraints, the workspace under
  \<^verbatim>\<open>src/crates\<close>.  Orders (transactions, bundles, mev-share bundles) and constraints arrive over RPC, are kept in
  pools, simulated, ranked and executed into a block; the block is submitted together with proofs that the
  constrained transactions are in it.

  \<^bold>\<open>Conventions.\<close>  Structs are records with the fields of the source (with a short prefix), enums are datatypes,
  methods are functions that return the updated state.  Unsigned integers are words of their width and wrap;
  signed 256-bit integers are integers with their range checks written out; lengths and indices are natural numbers.
  \<^verbatim>\<open>Result\<close> is a sum with \<open>Err\<close> on the left, and a panic is a value too.  A hash map that is iterated
  is an association list, and the order of the iteration is an argument or is quantified over.  Code of other
  crates (the EVM and its database, tries, priority queues, LRU caches, channels, codecs, hashes,
  signatures) is an argument of the operations that call it; what is relied on is a definition such as
  \<open>revert_law\<close>, \<open>trie_law\<close> or \<open>lru_law\<close>, and each has an instance in a witness.

  \<^bold>\<open>Shared theories.\<close>
  \<^item> \<open>Prelude\<close>: machine types, results, orderings, association lists, invariants of transition systems as locales.
  \<^item> \<open>Block_Space\<close>, \<open>Transactions\<close>, \<open>Order_Types\<close>, \<open>State_Trace\<close> (\<^verbatim>\<open>rbuilder-primitives/src\<close>): space of a block,
    transactions with blobs and their decoding, orders with identifiers, hashes and nonces, traces of used state.
  \<^item> \<open>Order_Laws\<close>: the laws of these types, among them the text form of identifiers, the lowest nonces of a
    bundle, the base-fee test and the canonical uuid.
  \<^item> \<open>Interfaces\<close>: the LRU cache and the channels.

  \<^bold>\<open>Constraints.\<close>
  \<^item> \<open>Constraint_Pool\<close> (\<^verbatim>\<open>live_builder/constraint_input\<close>, gas reservation of \<^verbatim>\<open>live_builder/mod.rs\<close>): the pool keeps the
    first occurrence of each constraint, tells every subscriber of a block all of its constraints, and expires old
    blocks; the RPC handler delivers or reports an error; the reserved gas is that of the decodable transactions.
  \<^item> \<open>Constraint_Proofs\<close> (\<^verbatim>\<open>building/constraint_proofs.rs\<close>, \<^verbatim>\<open>live_builder/block_output/constraint_proof_*.rs\<close>): the
    proofs stored for a submitted block verify against its transaction root and are those of the constrained transactions.

  \<^bold>\<open>Orders on their way to a builder.\<close>
  \<^item> \<open>Order_Replacement\<close>, \<open>Order_Pool\<close> (\<^verbatim>\<open>live_builder/order_input\<close>): per replacement key the newest order wins, whatever
    the order of arrival; late subscribers of the pool end with the live orders; expiry.
  \<^item> \<open>Sim_Tree\<close> (\<^verbatim>\<open>building/sim.rs\<close>, \<^verbatim>\<open>utils/noncer.rs\<close>): orders that wait for nonces; no reachable state logs a bug.
  \<^item> \<open>Order_Priority\<close>, \<open>Prioritized_Store\<close> (\<^verbatim>\<open>building/block_orders\<close>): priorities are total orders; the store gives
    the best executable order and holds no cancelled one.

  \<^bold>\<open>Execution.\<close>
  \<^item> \<open>Evm_Types\<close>: the EVM library as the record \<open>evm_lib\<close> over a type of worlds, errors, the monad of the \<^verbatim>\<open>?\<close>
    operator, the space state and the context of a block (\<^verbatim>\<open>building/mod.rs\<close>).
  \<^item> \<open>Tx_Sim_Cache\<close> (\<^verbatim>\<open>building/tx_sim_cache\<close>): a cache hit replays an execution whose reads agree with the state.
  \<^item> \<open>Payout_Tx\<close> (\<^verbatim>\<open>building/payout_tx.rs\<close>): payouts and the search for their gas limit.  The search is a
    \<^verbatim>\<open>loop\<close> that may not end and is a partial function; it is shown to return for gas limits below \<open>2 ^ 63\<close>.
  \<^item> \<open>Order_Commit\<close> (\<^verbatim>\<open>building/order_commit.rs\<close>, \<^verbatim>\<open>tracers.rs\<close>): transactions, bundles with refunds and nested mev-share
    bundles with kickbacks on a fork with rollbacks.
  \<^item> \<open>Order_Commit_Laws\<close>: orders are atomic, execute what they promise, account exactly for space, receipts and
    nonces, and the builder does not lose money on them.

  \<^bold>\<open>Blocks.\<close>
  \<^item> \<open>Receipts\<close> (\<^verbatim>\<open>utils/receipts.rs\<close>): blooms and the roots of receipts and transactions with the caches that sealing
    again uses; they agree with the definitions without a cache.  Tries and encodings are the records \<open>node_trie_ops\<close>
    and \<open>receipts_lib\<close>.
  \<^item> \<open>Partial_Block\<close> (\<^verbatim>\<open>building/mod.rs\<close>, \<^verbatim>\<open>building/built_block_trace.rs\<close>): a block under construction, refunds and the payout to
    the proposer, requests and withdrawals, the header, the revert before another sealing, the trace of the block.
  \<^item> \<open>Block_Helper\<close> (\<^verbatim>\<open>building/builders/block_building_helper.rs\<close>): what a builder calls, and the insertion of constrained
    transactions that are missing.
  \<^item> \<open>Block_Laws\<close>: over every sequence of calls the accounting of the block is exact and the final check of the orders
    succeeds; every constrained transaction is included or did not commit; sealing again undoes exactly the payout; gas that
    is reserved for constraints is withheld from them; a constraint appended late breaks the root of the receipts.

  \<^bold>\<open>Parallel builder\<close> (\<^verbatim>\<open>building/builders/parallel_builder\<close>).
  \<^item> \<open>Conflict_Groups\<close> (\<^verbatim>\<open>groups.rs\<close>): the tables from used state to groups; the groups are the components of the
    conflict relation on the orders added so far, and merging never meets a missing group.
  \<^item> \<open>Conflict_Tasks\<close> (\<^verbatim>\<open>task.rs\<close>, \<^verbatim>\<open>conflict_task_generator.rs\<close>, \<^verbatim>\<open>results_aggregator.rs\<close>, the intake of orders in
    \<^verbatim>\<open>mod.rs\<close>): tasks for groups, with a queue as an argument (\<open>queue_law\<close>); the two loops over the queue are partial
    functions and are shown to return.  Queued tasks are those of current groups and no group is forgotten; the best results are
    exact, but a late result for a replaced group is stored beside the merged one.

  \<^bold>\<open>Not modelled.\<close>  Thread pools and asynchronous loops around these components, HTTP, gRPC and SSZ forms, the sparse trie
  crate for state roots, databases, telemetry, configuration and the command-line tools: they are I/O or
  separate programs.  The resolvers and the assembler of the parallel builder, the ordering builder (a loop under deadlines
  around the store and the helper modelled here) and the mergers of mev-share bundles are not modelled.
\<close>

end
